(* ===== verification/Prelude.thy ===== *)
theory Prelude
  imports Main "HOL-Library.Word" "HOL-Library.Sublist"
begin

text \<open>
  Shared vocabulary of the development.

  C \<open>char\<close> data (file names, option strings, datagrams) is a list of Isabelle \<open>char\<close>s,
  which are exactly the 256 byte values. A C string is the list of its characters without
  the terminating NUL, so a pointer walk \<open>while (*p)\<close> is a recursion over the list.
  Fixed-width unsigned integers are words; \<open>int\<close> values that the code never lets
  overflow (lengths, error numbers) are \<open>int\<close> or \<open>nat\<close>.

  The theory also holds the 16-bit big-endian fields of a TFTP header (\<open>htons\<close>,
  \<open>ntohs\<close> and the loads and stores of \<open>struct tftphdr\<close>) and the list and word lemmas
  that several components use.
\<close>

unbundle bit_operations_syntax

type_synonym u8 = "8 word"
type_synonym u16 = "16 word"
type_synonym u32 = "32 word"
type_synonym u64 = "64 word"

named_theorems opcode_defs
named_theorems errno_defs

section \<open>Definitions\<close>

subsection \<open>Characters and C strings\<close>

abbreviation NUL :: char where
  "NUL \<equiv> CHR 0x00"

abbreviation slash :: char where
  "slash \<equiv> CHR 0x2F"

definition uc :: "char \<Rightarrow> u8" where
  "uc c = of_char c"

definition cstr :: "char list \<Rightarrow> string" where
  "cstr buf = takeWhile (\<lambda>c. c \<noteq> NUL) buf"

definition deref :: "string \<Rightarrow> char" where
  "deref s = (case s of [] \<Rightarrow> NUL | c # _ \<Rightarrow> c)"

fun split_on :: "char \<Rightarrow> string \<Rightarrow> string list" where
  "split_on d [] = [[]]"
| "split_on d (c # s) =
     (if c = d then [] # split_on d s
      else (case split_on d s of [] \<Rightarrow> [[c]] | x # xs \<Rightarrow> (c # x) # xs))"

definition path_components :: "string \<Rightarrow> string list" where
  "path_components s = filter (\<lambda>x. x \<noteq> []) (split_on slash s)"

subsection \<open>Big-endian 16-bit fields\<close>

definition put16 :: "u16 \<Rightarrow> char list" where
  "put16 w = [char_of (unat w div 256), char_of (unat w)]"

definition get16 :: "char list \<Rightarrow> nat \<Rightarrow> u16" where
  "get16 b i = of_nat (256 * of_char (b ! i) + of_char (b ! Suc i))"

subsection \<open>Error numbers\<close>

definition EPERM :: int where [errno_defs]: "EPERM = 1"
definition ENOENT :: int where [errno_defs]: "ENOENT = 2"
definition EINTR :: int where [errno_defs]: "EINTR = 4"
definition EIO :: int where [errno_defs]: "EIO = 5"
definition EEXIST :: int where [errno_defs]: "EEXIST = 17"
definition ENOTDIR :: int where [errno_defs]: "ENOTDIR = 20"
definition EINVAL :: int where [errno_defs]: "EINVAL = 22"
definition ENOSPC :: int where [errno_defs]: "ENOSPC = 28"
definition ENAMETOOLONG :: int where [errno_defs]: "ENAMETOOLONG = 36"
definition ETIMEDOUT :: int where [errno_defs]: "ETIMEDOUT = 110"

section \<open>Lemmas\<close>

subsection \<open>Reading a string\<close>

lemma deref_simps [simp]: "deref [] = NUL" "deref (c # s) = c"
  by (simp_all add: deref_def)

lemma deref_neq_NUL: "deref s \<noteq> NUL \<Longrightarrow> s \<noteq> []"
  by auto

lemma unat_uc: "unat (uc c) = of_char c"
proof -
  have "uc c = of_nat (of_char c)" by (simp add: uc_def of_nat_of_char)
  moreover have "of_char c < (256 :: nat)" by (rule nat_of_char_less_256)
  ultimately show ?thesis by (simp add: unat_of_nat)
qed

lemma uc_char_of [simp]: "uc (char_of n) = of_nat n"
  by (simp add: word_unat_eq_iff unat_uc of_char_of unat_of_nat take_bit_eq_mod)

lemma uc_inject [simp]: "uc c = uc d \<longleftrightarrow> c = d"
proof
  assume "uc c = uc d"
  then have "(of_char c :: nat) = of_char d" by (simp flip: unat_uc)
  then show "c = d" by (simp only: of_char_eq_iff)
qed simp

lemma uc_eq_0 [simp]: "uc c = 0 \<longleftrightarrow> c = NUL" "0 = uc c \<longleftrightarrow> c = NUL"
proof -
  show *: "uc c = 0 \<longleftrightarrow> c = NUL" using uc_inject [of c NUL] by (simp add: uc_def)
  show "0 = uc c \<longleftrightarrow> c = NUL" unfolding * [symmetric] by (rule eq_commute)
qed

subsection \<open>Splitting\<close>

lemma split_on_neq_Nil [simp]: "split_on d s \<noteq> []"
  by (cases s) (auto split: list.splits)

lemma path_components_Nil [simp]: "path_components [] = []"
  by (simp add: path_components_def)

lemma path_components_slash [simp]: "path_components (slash # s) = path_components s"
  by (simp add: path_components_def)

lemma split_on_append_sep:
  "d \<notin> set x \<Longrightarrow> split_on d (x @ d # s) = x # split_on d s"
  by (induction x) auto

lemma split_on_no_sep: "d \<notin> set x \<Longrightarrow> split_on d x = [x]"
  by (induction x) auto

lemma path_components_append_slash:
  "slash \<notin> set x \<Longrightarrow>
     path_components (x @ slash # s) = (if x = [] then [] else [x]) @ path_components s"
  by (simp add: path_components_def split_on_append_sep)

lemma path_components_single:
  "slash \<notin> set x \<Longrightarrow> path_components x = (if x = [] then [] else [x])"
  by (simp add: path_components_def split_on_no_sep)

lemma split_on_set: "x \<in> set (split_on d s) \<Longrightarrow> d \<notin> set x \<and> set x \<subseteq> set s"
proof (induction s arbitrary: x)
  case Nil
  then show ?case by simp
next
  case (Cons c s)
  then show ?case by (fastforce split: if_splits list.splits)
qed

lemma split_on_snoc: "split_on d (s @ [d]) = split_on d s @ [[]]"
  by (induction s) (auto split: list.splits)

lemma path_components_trailing: "path_components (s @ [slash]) = path_components s"
  by (simp add: path_components_def split_on_snoc)

lemma path_components_member:
  "x \<in> set (path_components s) \<Longrightarrow> x \<noteq> [] \<and> slash \<notin> set x \<and> set x \<subseteq> set s"
  using split_on_set by (auto simp: path_components_def)

subsection \<open>Header fields\<close>

lemma unat_bound: "unat (w :: 'a::len word) < 2 ^ LENGTH('a)"
  by (rule unsigned_less)

lemma unat_of_nat_small: "n < 2 ^ LENGTH('a) \<Longrightarrow> unat (of_nat n :: 'a::len word) = n"
  by (simp only: unat_of_nat) simp

lemma unat_ucast_wider:
  "LENGTH('a) \<le> LENGTH('b) \<Longrightarrow> unat (ucast (w :: 'a::len word) :: 'b::len word) = unat w"
proof -
  assume "LENGTH('a) \<le> LENGTH('b)"
  then have "(2::nat) ^ LENGTH('a) \<le> 2 ^ LENGTH('b)" by (rule power_increasing) simp
  with unat_bound [of w] have "unat w < 2 ^ LENGTH('b)" by (rule less_le_trans)
  then show ?thesis by (simp add: unsigned_ucast_eq take_bit_nat_eq_self)
qed

lemma length_put16 [simp]: "length (put16 w) = 2"
  by (simp add: put16_def)

lemma get16_put16 [simp]: "get16 (put16 w @ rest) 0 = w"
proof -
  have "unat w div 256 < 256"
    using unat_bound [of w] by (simp add: less_mult_imp_div_less)
  then have "256 * (unat w div 256 mod 256) + unat w mod 256 = unat w"
    by simp
  then show ?thesis
    by (simp add: get16_def put16_def)
qed

lemma get16_skip [simp]: "get16 (put16 v @ b) (Suc (Suc i)) = get16 b i"
  by (simp add: get16_def put16_def)

lemma ring_index_inj:
  fixes n :: nat
  assumes "i < n" "j < n" "(h + i) mod n = (h + j) mod n"
  shows "i = j"
proof -
  have "\<And>a b. a \<le> b \<Longrightarrow> b < n \<Longrightarrow> (h + a) mod n = (h + b) mod n \<Longrightarrow> a = b"
  proof -
    fix a b :: nat
    assume "a \<le> b" "b < n" "(h + a) mod n = (h + b) mod n"
    then have "n dvd (h + b) - (h + a)" by (metis add_le_cancel_left mod_eq_dvd_iff_nat)
    with \<open>b < n\<close> \<open>a \<le> b\<close> show "a = b" by (auto dest: dvd_imp_le)
  qed
  with assms show ?thesis by (metis linear)
qed

lemma word_add_room:
  fixes b mx :: u64
  assumes "b \<le> mx" "\<not> (of_nat k :: u64) > mx - b" "k < 2 ^ 64"
  shows "unat (b + of_nat k) = unat b + k" "b + of_nat k \<le> mx"
proof -
  have k: "unat (of_nat k :: u64) = k" using assms(3) by (simp add: unat_of_nat)
  have "unat (of_nat k :: u64) \<le> unat (mx - b)"
    using assms(2) by (simp add: word_le_nat_alt not_less)
  then have le: "k + unat b \<le> unat mx"
    using assms(1) k by (simp add: unat_sub word_le_nat_alt)
  then have "unat b + unat (of_nat k :: u64) < 2 ^ LENGTH(64)"
    using k unat_bound [of mx] by simp
  then show "unat (b + of_nat k) = unat b + k" using k unat_add_lem [of b "of_nat k"] by simp
  with le show "b + of_nat k \<le> mx" by (simp add: word_le_nat_alt)
qed

lemma and_not_one:
  fixes x :: u64
  shows "unat x - 1 \<le> unat (x AND NOT 1)" "unat (x AND NOT 1) \<le> unat x"
proof -
  have "x AND NOT 1 = push_bit 1 (drop_bit 1 x)"
  proof (rule bit_word_eqI)
    fix n assume "n < LENGTH(64)"
    then show "bit (x AND NOT 1) n = bit (push_bit 1 (drop_bit 1 x)) n"
      unfolding bit_and_iff bit_not_iff bit_push_bit_iff bit_drop_bit_eq comp_def bit_1_iff
      by (auto simp: Suc_le_eq)
  qed
  then have e: "x AND NOT 1 = x - take_bit 1 x"
    using bits_ident [of 1 x] by (simp add: algebra_simps)
  have u: "unat (take_bit 1 x) = unat x mod 2"
    by (simp add: take_bit_eq_mod unat_mod)
  then have "take_bit 1 x \<le> x" by (simp add: word_le_nat_alt)
  with u e have "unat (x AND NOT 1) = unat x - unat x mod 2" by (simp add: unat_sub)
  then show "unat x - 1 \<le> unat (x AND NOT 1)" "unat (x AND NOT 1) \<le> unat x"
    by (simp_all add: diff_le_mono2)
qed
end
