(* ===== verification/Path.thy ===== *)
theory Path
  imports Prelude
begin

text \<open>
  Path names of the daemon: \<open>tftpd/path.c\<close> (parsing, building and comparing component
  lists) and the in-place normalizer \<open>normalize_path\<close> of \<open>tftpd/tftpd.c\<close>, on a
  non-Windows build.

  The array \<open>dirs\<close> that \<open>parse_path\<close> fills from \<open>dp\<close> is a stack here, the entry
  \<open>dp[-1]\<close> first; the string an entry points to is what has been read of the component so
  far. A store past the space allocated for \<open>ndirs\<close> entries is the result \<open>Overrun\<close>,
  so that its absence is a theorem. The reference definitions \<open>resolve\<close> and
  \<open>resolve_clamped\<close> say what canonicalization means on component lists.
\<close>

section \<open>Definitions\<close>

subsection \<open>tftpd/path.c\<close>

datatype path_result = Invalid | Overrun | Dirs "string list"

definition is_valid_char :: "char \<Rightarrow> bool" where
  "is_valid_char c = (uc c \<ge> 0x20)"

definition is_dir_separator :: "char \<Rightarrow> bool" where
  "is_dir_separator c = (c = slash)"

definition is_valid_filename :: "string \<Rightarrow> bool" where
  "is_valid_filename f = True"

definition adjust_tail :: "string list \<Rightarrow> (nat \<times> string list) option" where
  "adjust_tail dp =
     (case dp of
        [] \<Rightarrow> Some (0, dp)
      | entry # _ \<Rightarrow>
          if \<not> is_valid_filename entry then None
          else
            let drop' = (case entry of
                  c # rest \<Rightarrow>
                    if c = CHR ''.'' then
                      (case rest of
                         [] \<Rightarrow> 1
                       | c' # rest' \<Rightarrow> if c' = CHR ''.'' \<and> rest' = [] then 2 else 0)
                    else 0
                | [] \<Rightarrow> 0)
            in if length dp < drop' then None else Some (drop', drop drop' dp))"

fun count_dirs :: "string \<Rightarrow> bool \<Rightarrow> nat \<Rightarrow> nat option" where
  "count_dirs [] was_slash ndirs = Some ndirs"
| "count_dirs (c # p) was_slash ndirs =
     (if \<not> is_valid_char c then None
      else if c = slash then count_dirs p True ndirs
      else if was_slash then count_dirs p False (Suc ndirs)
      else count_dirs p False ndirs)"

definition finish_component :: "bool \<Rightarrow> string list \<Rightarrow> string list option" where
  "finish_component strict dp =
     (case adjust_tail dp of
        None \<Rightarrow> None
      | Some (dropped, dp') \<Rightarrow> if dropped \<noteq> 0 \<and> strict then None else Some dp')"

fun parse_walk :: "nat \<Rightarrow> bool \<Rightarrow> string \<Rightarrow> bool \<Rightarrow> string list \<Rightarrow> path_result" where
  "parse_walk ndirs strict [] was_slash dp =
     (if was_slash then (if length dp \<le> ndirs then Dirs (rev dp) else Overrun)
      else (case finish_component strict dp of
              None \<Rightarrow> Invalid
            | Some dp' \<Rightarrow> if length dp' \<le> ndirs then Dirs (rev dp') else Overrun))"
| "parse_walk ndirs strict (c # q) was_slash dp =
     (if c = slash then
        (if was_slash then parse_walk ndirs strict q True dp
         else (case finish_component strict dp of
                 None \<Rightarrow> Invalid
               | Some dp' \<Rightarrow> parse_walk ndirs strict q True dp'))
      else if was_slash then
        (if length dp < ndirs then parse_walk ndirs strict q False ([c] # dp) else Overrun)
      else (case dp of
              [] \<Rightarrow> Overrun
            | entry # rest \<Rightarrow> parse_walk ndirs strict q False ((entry @ [c]) # rest)))"

definition parse_path :: "string \<Rightarrow> bool \<Rightarrow> path_result" where
  "parse_path path strict =
     (if strict \<and> (case path of [] \<Rightarrow> True | c # _ \<Rightarrow> c \<noteq> slash) then Invalid
      else (case count_dirs path True 0 of
              None \<Rightarrow> Invalid
            | Some ndirs \<Rightarrow> parse_walk ndirs strict path True []))"

definition prefix_part :: "string option \<Rightarrow> string" where
  "prefix_part pfx =
     (case pfx of
        None \<Rightarrow> []
      | Some p \<Rightarrow> rev (dropWhile is_dir_separator (rev p)))"

definition build_path_size :: "string option \<Rightarrow> string list \<Rightarrow> nat" where
  "build_path_size pfx dirs =
     foldl (\<lambda>size d. size + (length d + 1)) (1 + length (prefix_part pfx)) dirs"

definition build_path :: "string option \<Rightarrow> string list \<Rightarrow> string" where
  "build_path pfx dirs =
     foldl (\<lambda>q d. q @ slash # d) (prefix_part pfx) dirs"

fun compare_paths :: "string list \<Rightarrow> string list \<Rightarrow> nat" where
  "compare_paths [] b = (if b \<noteq> [] then 1 else 3)"
| "compare_paths (x # a) [] = 2"
| "compare_paths (x # a) (y # b) = (if x \<noteq> y then 0 else compare_paths a b)"

subsection \<open>normalize\_path of tftpd/tftpd.c\<close>

datatype normalizations = NORM_NONE | NORM_ROOT | NORM_PATH

fun norm_level :: "normalizations \<Rightarrow> nat" where
  "norm_level NORM_NONE = 0"
| "norm_level NORM_ROOT = 1"
| "norm_level NORM_PATH = 2"

definition drop_level :: "string \<Rightarrow> string" where
  "drop_level q =
     (if length q > 1 then dropWhile (\<lambda>c. c \<noteq> slash) (tl q) else q)"

definition dot_component :: "string \<Rightarrow> nat" where
  "dot_component p =
     (if p \<noteq> [] \<and> hd p = CHR ''.'' then
        (if tl p = [] \<or> hd (tl p) = slash then 1
         else if hd (tl p) = CHR ''.'' \<and> (tl (tl p) = [] \<or> hd (tl (tl p)) = slash) then 2
         else 0)
      else 0)"

function norm_slash :: "string \<Rightarrow> string \<Rightarrow> string \<times> string" where
  "norm_slash [] q = ([], q)"
| "norm_slash (c # p) q =
     (if c = slash then norm_slash p q
      else if dot_component (c # p) = 1 then norm_slash p q
      else if dot_component (c # p) = 2 then norm_slash (tl p) (drop_level q)
      else (c # p, q))"
  by pat_completeness auto
termination
  by (relation "measure (\<lambda>(p, q). length p)") auto

lemma norm_slash_shorter: "length (fst (norm_slash p q)) \<le> length p"
proof (induction p q rule: norm_slash.induct)
  case (2 c p q)
  then show ?case by (cases "c = slash"; simp; linarith?)
qed simp

function norm_loop :: "string \<Rightarrow> string \<Rightarrow> string" where
  "norm_loop [] q = rev q"
| "norm_loop (c # p) q =
     (if c = slash then (case norm_slash p (c # q) of (p', q') \<Rightarrow> norm_loop p' q')
      else norm_loop p (c # q))"
  by pat_completeness auto
termination
  by (relation "measure (\<lambda>(p, q). length p)") (auto simp: norm_slash_shorter case_prod_unfold less_Suc_eq_le)

definition normalize_path :: "normalizations \<Rightarrow> string option \<Rightarrow> string option" where
  "normalize_path level fn0 =
     (case fn0 of
        None \<Rightarrow> None
      | Some s \<Rightarrow>
          let s1 = (if norm_level level \<ge> norm_level NORM_ROOT \<and>
                       (case s of [] \<Rightarrow> True | c # _ \<Rightarrow> c \<noteq> slash)
                    then slash # s else s)
          in Some (if norm_level level \<ge> norm_level NORM_PATH
                   then norm_loop s1 [] else s1))"

subsection \<open>What canonicalization means on component lists\<close>

fun resolve :: "bool \<Rightarrow> string list \<Rightarrow> string list \<Rightarrow> string list option" where
  "resolve strict st [] = Some (rev st)"
| "resolve strict st (x # xs) =
     (if x = ''.'' then (if strict then None else resolve strict st xs)
      else if x = ''..'' then
        (if strict \<or> st = [] then None else resolve strict (tl st) xs)
      else resolve strict (x # st) xs)"

fun resolve_clamped :: "string list \<Rightarrow> string list \<Rightarrow> string list" where
  "resolve_clamped st [] = rev st"
| "resolve_clamped st (x # xs) =
     (if x = ''.'' then resolve_clamped st xs
      else if x = ''..'' then resolve_clamped (tl st) xs
      else resolve_clamped (x # st) xs)"

definition plain_component :: "string \<Rightarrow> bool" where
  "plain_component x \<longleftrightarrow>
     x \<noteq> [] \<and> slash \<notin> set x \<and> x \<noteq> ''.'' \<and> x \<noteq> ''..'' \<and> (\<forall>c \<in> set x. is_valid_char c)"

text \<open>
  Auxiliary notions of the proofs: the number of components a walk starts, the text
  \<open>/c1/.../cn/\<close> the normalizer has written when it is at a component boundary, and the
  names that render a component list (a trailing slash may remain).
\<close>

fun starts :: "bool \<Rightarrow> string \<Rightarrow> nat" where
  "starts ws [] = 0"
| "starts ws (c # p) =
     (if c = slash then starts True p
      else if ws then Suc (starts False p) else starts False p)"

definition to_result :: "string list option \<Rightarrow> path_result" where
  "to_result r = (case r of None \<Rightarrow> Invalid | Some ds \<Rightarrow> Dirs ds)"

definition joined :: "string list \<Rightarrow> string" where
  "joined ds = concat (map ((#) slash) ds)"

definition written :: "string list \<Rightarrow> string" where
  "written st = joined (rev st) @ [slash]"

definition at_component :: "string \<Rightarrow> bool" where
  "at_component p \<longleftrightarrow> p = [] \<or> (hd p \<noteq> slash \<and> dot_component p = 0)"

definition slash_spec :: "string \<Rightarrow> string list \<Rightarrow> string \<Rightarrow> string list \<Rightarrow> bool" where
  "slash_spec p st p' st' \<longleftrightarrow>
     norm_slash p (rev (written st)) = (p', rev (written st')) \<and> length p' \<le> length p
     \<and> at_component p' \<and> (\<forall>c \<in> set st'. slash \<notin> set c)
     \<and> resolve_clamped st (path_components p) = resolve_clamped st' (path_components p')"

definition is_rendering :: "string \<Rightarrow> string list \<Rightarrow> bool" where
  "is_rendering r ds \<longleftrightarrow> (r = joined ds \<and> ds \<noteq> []) \<or> r = joined ds @ [slash]"

section \<open>Lemmas\<close>

subsection \<open>Parsing\<close>

lemma to_result_simps [simp]:
  "to_result None = Invalid" "to_result (Some ds) = Dirs ds"
  by (simp_all add: to_result_def)

lemma to_result_eq_Dirs [simp]: "to_result r = Dirs ds \<longleftrightarrow> r = Some ds"
  by (cases r) auto

lemma to_result_not_Overrun [simp]: "to_result r \<noteq> Overrun"
  by (cases r) auto

lemma count_dirs_eq:
  "count_dirs p ws n =
     (if \<forall>c \<in> set p. is_valid_char c then Some (n + starts ws p) else None)"
  by (induction p ws n rule: count_dirs.induct) auto

lemma finish_component_Cons:
  "finish_component strict (x # st) =
     (if x = ''.'' then (if strict then None else Some st)
      else if x = ''..'' then (if strict \<or> st = [] then None else Some (tl st))
      else Some (x # st))"
  by (cases st)
     (auto simp: finish_component_def adjust_tail_def is_valid_filename_def Let_def
           split: list.splits)

lemma parse_walk_eq:
  shows "length st + starts True q \<le> n \<Longrightarrow>
           parse_walk n strict q True st = to_result (resolve strict st (path_components q))"
    and "cur \<noteq> [] \<Longrightarrow> slash \<notin> set cur \<Longrightarrow> Suc (length st) + starts False q \<le> n \<Longrightarrow>
           parse_walk n strict q False (cur # st)
             = to_result (resolve strict st (path_components (cur @ q)))"
proof (induction q arbitrary: st cur)
  case Nil
  {
    case 1
    then show ?case by simp
  next
    case 2
    then show ?case
      by (auto simp: finish_component_Cons path_components_single)
  }
next
  case (Cons c q)
  {
    case 1
    show ?case
    proof (cases "c = slash")
      case True
      with 1 Cons.IH(1) show ?thesis by simp
    next
      case False
      with 1 Cons.IH(2) [of "[c]" st] show ?thesis by simp
    qed
  next
    case 2
    show ?case
    proof (cases "c = slash")
      case True
      with 2 Cons.IH(1) [of st] Cons.IH(1) [of "tl st"] Cons.IH(1) [of "cur # st"]
      show ?thesis
        by (auto simp: finish_component_Cons path_components_append_slash)
    next
      case False
      with 2 Cons.IH(2) [of "cur @ [c]" st] show ?thesis by simp
    qed
  }
qed

lemma parse_path_eq:
  "parse_path path strict =
     (if (strict \<longrightarrow> path \<noteq> [] \<and> hd path = slash) \<and> (\<forall>c \<in> set path. is_valid_char c)
      then to_result (resolve strict [] (path_components path)) else Invalid)"
  using parse_walk_eq(1) [of "[]" path "starts True path" strict]
  by (cases path) (auto simp: parse_path_def count_dirs_eq)

lemma set_tl_subset: "set (tl xs) \<subseteq> set xs"
  by (cases xs) auto

lemma resolve_subset:
  "resolve strict st xs = Some ds \<Longrightarrow> set ds \<subseteq> set st \<union> (set xs - {''.'', ''..''})"
proof (induction xs arbitrary: st)
  case (Cons x xs)
  show ?case
  proof (cases "x = ''.'' \<or> x = ''..''")
    case True
    with Cons.prems Cons.IH [of st] Cons.IH [of "tl st"] set_tl_subset [of st]
    show ?thesis by (auto split: if_splits)
  next
    case False
    with Cons.prems Cons.IH [of "x # st"] show ?thesis by auto
  qed
qed auto

lemma resolve_strict:
  "resolve True st xs = (if ''.'' \<in> set xs \<or> ''..'' \<in> set xs then None else Some (rev st @ xs))"
  by (induction xs arbitrary: st) auto

subsection \<open>Building and comparing\<close>

lemma build_path_acc: "foldl (\<lambda>q d. q @ slash # d) acc ds = acc @ concat (map ((#) slash) ds)"
  by (induction ds arbitrary: acc) auto

lemma build_path_eq: "build_path pfx ds = prefix_part pfx @ concat (map ((#) slash) ds)"
  by (simp add: build_path_def build_path_acc)

lemma build_path_size_acc:
  "foldl (\<lambda>size d. size + (length d + 1)) n ds = n + length (concat (map ((#) slash) ds))"
  by (induction ds arbitrary: n) auto

lemma path_components_joined:
  "\<forall>d \<in> set ds. d \<noteq> [] \<and> slash \<notin> set d \<Longrightarrow>
     path_components (concat (map ((#) slash) ds)) = ds"
proof (induction ds)
  case (Cons d ds)
  show ?case
  proof (cases ds)
    case Nil
    with Cons.prems show ?thesis by (simp add: path_components_single)
  next
    case ds: (Cons e es)
    then have "path_components (d @ concat (map ((#) slash) ds))
        = d # path_components (concat (map ((#) slash) ds))"
      using Cons.prems by (simp add: path_components_append_slash)
    with Cons.IH Cons.prems show ?thesis by simp
  qed
qed simp

lemma compare_paths_cases:
  "compare_paths a b =
     (if a = b then 3 else if prefix b a then 2 else if prefix a b then 1 else 0)"
  by (induction a b rule: compare_paths.induct) auto

lemma resolve_plain:
  "\<forall>d \<in> set ds. plain_component d \<Longrightarrow> resolve strict st ds = Some (rev st @ ds)"
  by (induction ds arbitrary: st) (auto simp: plain_component_def)

lemma parse_path_joined:
  assumes "\<forall>d \<in> set ds. plain_component d" "ds \<noteq> []"
  shows "parse_path (build_path None ds) strict = Dirs ds"
proof -
  have "\<forall>c \<in> set (build_path None ds). is_valid_char c"
    using assms(1) by (auto simp: build_path_eq prefix_part_def plain_component_def is_valid_char_def uc_def)
  moreover have "path_components (build_path None ds) = ds"
    using assms(1) path_components_joined [of ds]
    by (simp add: build_path_eq prefix_part_def plain_component_def)
  moreover have "build_path None ds \<noteq> [] \<and> hd (build_path None ds) = slash"
    using assms(2) by (cases ds) (simp_all add: build_path_eq prefix_part_def)
  ultimately show ?thesis
    using assms(1) by (simp add: parse_path_eq resolve_plain)
qed

subsection \<open>Normalization\<close>

lemma written_simps:
  "written [] = [slash]" "written (c # st) = written st @ c @ [slash]"
  by (simp_all add: written_def joined_def)

lemma rev_written: "\<exists>w. rev (written st) = slash # w"
  by (cases st) (simp_all add: written_simps)

lemma drop_level_written:
  assumes "\<forall>c \<in> set st. slash \<notin> set c"
  shows "drop_level (rev (written st)) = rev (written (tl st))"
proof (cases st)
  case Nil
  then show ?thesis by (simp add: written_simps drop_level_def)
next
  case (Cons c st')
  obtain w where "rev (written st') = slash # w" using rev_written by blast
  moreover have "slash \<notin> set (rev c)" using assms Cons by simp
  then have "dropWhile (\<lambda>x. x \<noteq> slash) (rev c @ slash # w) = slash # w"
    by (subst dropWhile_append2) auto
  ultimately show ?thesis
    using Cons by (simp add: written_simps drop_level_def)
qed

lemma dot_component_cases: "dot_component p = 0 \<or> dot_component p = 1 \<or> dot_component p = 2"
  by (simp add: dot_component_def)

lemma dot_component_1:
  "dot_component p = 1 \<Longrightarrow> path_components p = ''.'' # path_components (tl p)"
  using path_components_append_slash [of "''.''" "tl (tl p)"] path_components_single [of "''.''"]
  by (cases p; cases "tl p") (auto simp: dot_component_def split: if_splits)

lemma dot_component_2:
  assumes "dot_component p = 2"
  shows "path_components p = ''..'' # path_components (tl (tl p))"
proof -
  obtain r where p: "p = CHR ''.'' # CHR ''.'' # r" and r: "r = [] \<or> hd r = slash"
    using assms by (cases p; cases "tl p") (auto simp: dot_component_def split: if_splits)
  show ?thesis
    using r path_components_append_slash [of "''..''" "tl r"] path_components_single [of "''..''"]
    by (cases r) (simp_all add: p)
qed

lemma slash_spec_step:
  assumes "slash_spec p1 st1 p' st'" "length p1 \<le> length p"
    and "norm_slash p (rev (written st)) = norm_slash p1 (rev (written st1))"
    and "resolve_clamped st (path_components p) = resolve_clamped st1 (path_components p1)"
  shows "slash_spec p st p' st'"
  using assms by (simp add: slash_spec_def)

lemma norm_slash_spec:
  "\<forall>c \<in> set st. slash \<notin> set c \<Longrightarrow> \<exists>p' st'. slash_spec p st p' st'"
proof (induction p arbitrary: st rule: length_induct)
  case (1 p)
  show ?case
  proof (cases p)
    case Nil
    then have "slash_spec p st [] st"
      using "1.prems" by (simp add: slash_spec_def at_component_def)
    then show ?thesis by blast
  next
    case (Cons c r)
    have tl: "\<forall>c \<in> set (tl st). slash \<notin> set c"
      using "1.prems" set_tl_subset [of st] by blast
    obtain p1 s1 where 1: "slash_spec r st p1 s1"
      using "1.IH" "1.prems" Cons by force
    have "length (tl r) < length p" using Cons by simp
    then obtain p2 s2 where 2: "slash_spec (tl r) (tl st) p2 s2"
      using "1.IH" tl by blast
    consider "c = slash" | "c \<noteq> slash" "dot_component p = 1" | "c \<noteq> slash" "dot_component p = 2"
      | "c \<noteq> slash" "dot_component p = 0"
      using dot_component_cases [of p] by argo
    then show ?thesis
    proof cases
      case a: 1
      then have "slash_spec p st p1 s1"
        by (intro slash_spec_step [OF 1]) (simp_all add: Cons)
      then show ?thesis by blast
    next
      case a: 2
      then have "slash_spec p st p1 s1"
        using dot_component_1 [of p] by (intro slash_spec_step [OF 1]) (simp_all add: Cons)
      then show ?thesis by blast
    next
      case a: 3
      then have "slash_spec p st p2 s2"
        using dot_component_2 [of p] drop_level_written [OF "1.prems"]
        by (intro slash_spec_step [OF 2]) (simp_all add: Cons)
      then show ?thesis by blast
    next
      case a: 4
      then have "slash_spec p st p st"
        using "1.prems" by (simp add: slash_spec_def at_component_def Cons)
      then show ?thesis by blast
    qed
  qed
qed

lemma norm_loop_chars:
  "slash \<notin> set x \<Longrightarrow> norm_loop (x @ p) q = norm_loop p (rev x @ q)"
  by (induction x arbitrary: q) auto

lemma at_component_takeWhile:
  assumes "at_component p" "p \<noteq> []"
  defines "x \<equiv> takeWhile (\<lambda>c. c \<noteq> slash) p"
  shows "x \<noteq> []" "x \<noteq> ''.''" "x \<noteq> ''..''" "slash \<notin> set x"
proof -
  obtain c r where p: "p = c # r" and c: "c \<noteq> slash" and d: "dot_component p = 0"
    using assms by (cases p) (auto simp: at_component_def)
  show "x \<noteq> []" using p c by (simp add: x_def)
  show "slash \<notin> set x" unfolding x_def by (auto dest: set_takeWhileD)
  show "x \<noteq> ''.''"
    using d p c by (cases r) (auto simp: x_def dot_component_def split: if_splits)
  show "x \<noteq> ''..''"
    using d p c by (cases r; cases "tl r") (auto simp: x_def dot_component_def split: if_splits)
qed

lemma norm_loop_spec:
  assumes "at_component p" "\<forall>c \<in> set st. slash \<notin> set c"
  shows "is_rendering (norm_loop p (rev (written st))) (resolve_clamped st (path_components p))"
  using assms
proof (induction p arbitrary: st rule: length_induct)
  case (1 p)
  show ?case
  proof (cases "p = []")
    case True
    then show ?thesis by (simp add: is_rendering_def written_def)
  next
    case False
    define x where "x = takeWhile (\<lambda>c. c \<noteq> slash) p"
    define rest where "rest = dropWhile (\<lambda>c. c \<noteq> slash) p"
    have p: "p = x @ rest" by (simp add: x_def rest_def)
    note x = at_component_takeWhile [OF "1.prems"(1) False, folded x_def]
    have loop: "norm_loop p (rev (written st)) = norm_loop rest (rev x @ rev (written st))"
      using x(4) by (simp add: p norm_loop_chars)
    show ?thesis
    proof (cases rest)
      case Nil
      then show ?thesis
        using loop x p path_components_single [of x]
        by (simp add: is_rendering_def written_def joined_def)
    next
      case (Cons c r)
      then have c: "c = slash"
        using hd_dropWhile [of "\<lambda>c. c \<noteq> slash" p] by (simp add: rest_def)
      have st: "\<forall>d \<in> set (x # st). slash \<notin> set d" using "1.prems" x by simp
      obtain p' st' where sp: "slash_spec r (x # st) p' st'"
        using norm_slash_spec [OF st] by blast
      have run: "norm_loop p (rev (written st)) = norm_loop p' (rev (written st'))"
        using sp loop Cons c by (simp add: slash_spec_def written_simps)
      have "length p' < length p" using sp p Cons by (simp add: slash_spec_def)
      then have "is_rendering (norm_loop p' (rev (written st')))
          (resolve_clamped st' (path_components p'))"
        using "1.IH" sp by (simp add: slash_spec_def)
      moreover have "path_components p = x # path_components r"
        using x by (simp add: p Cons c path_components_append_slash)
      ultimately show ?thesis
        using sp x run by (simp add: slash_spec_def)
    qed
  qed
qed

lemma norm_loop_rooted:
  "is_rendering (norm_loop (slash # p) []) (resolve_clamped [] (path_components p))"
proof -
  obtain p' st' where sp: "slash_spec p [] p' st'"
    using norm_slash_spec [of "[]" p] by auto
  then have "norm_loop (slash # p) [] = norm_loop p' (rev (written st'))"
    by (simp add: slash_spec_def written_simps)
  with sp norm_loop_spec [of p' st'] show ?thesis by (simp add: slash_spec_def)
qed

lemma resolve_clamped_subset:
  "set (resolve_clamped st xs) \<subseteq> set st \<union> (set xs - {''.'', ''..''})"
proof (induction xs arbitrary: st)
  case (Cons x xs)
  show ?case
  proof (cases "x = ''.'' \<or> x = ''..''")
    case True
    with Cons.IH [of st] Cons.IH [of "tl st"] set_tl_subset [of st]
    show ?thesis by auto
  next
    case False
    with Cons.IH [of "x # st"] show ?thesis by auto
  qed
qed auto

lemma path_components_rendering:
  assumes "is_rendering r ds" "\<forall>d \<in> set ds. d \<noteq> [] \<and> slash \<notin> set d"
  shows "path_components r = ds" "r \<noteq> []" "hd r = slash"
proof -
  have j: "path_components (joined ds) = ds"
    unfolding joined_def using assms(2) by (rule path_components_joined)
  show "path_components r = ds"
  proof (cases "r = joined ds")
    case False
    then have "r = joined ds @ [slash]" using assms by (simp add: is_rendering_def)
    moreover have "path_components (joined ds @ [slash]) = path_components (joined ds)"
      by (simp add: path_components_trailing)
    ultimately show ?thesis using j by simp
  qed (simp add: j)
  show "r \<noteq> []" "hd r = slash"
    using assms by (cases ds; auto simp: is_rendering_def joined_def)+
qed

lemma parse_path_plain:
  assumes "parse_path path strict = Dirs ds"
  shows "\<forall>d \<in> set ds. plain_component d"
proof
  fix d assume "d \<in> set ds"
  have res: "resolve strict [] (path_components path) = Some ds"
    and valid: "\<forall>c \<in> set path. is_valid_char c"
    using assms by (simp_all add: parse_path_eq split: if_splits)
  from resolve_subset [OF res] \<open>d \<in> set ds\<close> have "d \<in> set (path_components path)" "d \<noteq> ''.''" "d \<noteq> ''..''"
    by auto
  with path_components_member [of d path] valid show "plain_component d"
    by (auto simp: plain_component_def)
qed

lemma parse_path_not_overrun: "parse_path path strict \<noteq> Overrun"
  by (auto simp: parse_path_eq split: option.splits)

section \<open>Properties\<close>

text \<open>
  C12: \<open>parse_path\<close> never stores past the space it allocated, and its result is exactly
  the canonical component list: every byte must be a valid character, a strict path must be
  absolute, empty components vanish, and \<open>.\<close> and \<open>..\<close> are rejected (strict) or
  resolved without ever leaving the root.
\<close>

theorem parse_path_resolves:
  "parse_path path strict =
     (if (strict \<longrightarrow> path \<noteq> [] \<and> hd path = slash) \<and> (\<forall>c \<in> set path. is_valid_char c)
      then (case resolve strict [] (path_components path) of
              None \<Rightarrow> Invalid
            | Some ds \<Rightarrow> Dirs ds)
      else Invalid)"
  unfolding parse_path_eq to_result_def ..

theorem parse_path_resolves_witness:
  "parse_path ''/a//./b/../c'' False = Dirs [''a'', ''c'']"
  unfolding parse_path_resolves by (simp add: path_components_def is_valid_char_def uc_def)



text \<open>
  C23: \<open>compare_paths\<close> tells equality, extension and proper prefix of component lists
  apart; in particular its bit 2, which the access check tests, is set exactly when the
  second path is a prefix of the first.
\<close>

theorem compare_paths_prefix:
  "compare_paths a b =
     (if a = b then 3 else if prefix b a then 2 else if prefix a b then 1 else 0)
   \<and> (compare_paths a b AND 2 \<noteq> 0 \<longleftrightarrow> prefix b a)"
  by (simp add: compare_paths_cases)

text \<open>
  C17: full normalization resolves the name against the root: the result is absolute, its
  components are those of the request with \<open>.\<close> removed and \<open>..\<close> resolved, clamped
  at the root, so that no \<open>.\<close> or \<open>..\<close> component is left.
\<close>

theorem normalize_path_resolves:
  "\<exists>r. normalize_path NORM_PATH (Some s) = Some r \<and> r \<noteq> [] \<and> hd r = slash
     \<and> path_components r = resolve_clamped [] (path_components s)
     \<and> ''.'' \<notin> set (path_components r) \<and> ''..'' \<notin> set (path_components r)"
proof -
  define ds where "ds = resolve_clamped [] (path_components s)"
  define t where "t = (if s \<noteq> [] \<and> hd s = slash then tl s else s)"
  have t: "path_components t = path_components s"
    by (cases s) (simp_all add: t_def)
  have ds: "set ds \<subseteq> set (path_components s) - {''.'', ''..''}"
    using resolve_clamped_subset [of "[]" "path_components s"] by (simp add: ds_def)
  then have plain: "\<forall>d \<in> set ds. d \<noteq> [] \<and> slash \<notin> set d"
    using path_components_member by blast
  have "is_rendering (norm_loop (slash # t) []) ds"
    using norm_loop_rooted [of t] by (simp add: ds_def t)
  note r = path_components_rendering [OF this plain]
  have "normalize_path NORM_PATH (Some s) = Some (norm_loop (slash # t) [])"
    by (cases s) (auto simp: normalize_path_def t_def Let_def)
  then show ?thesis using r ds by (auto simp: ds_def)
qed

end
