(* ===== verification/Packet.thy ===== *)
theory Packet
  imports Prelude
begin

text \<open>
  The packet format of \<open>common/tftp.h\<close>: opcodes, error codes, and the accessors of
  \<open>struct tftphdr\<close> on byte lists. A packet is the list of its bytes; \<open>th_opcode\<close> and
  \<open>th_block\<close> are the two network-order fields of its header.
\<close>

section \<open>Definitions\<close>

type_synonym packet = "char list"

definition RRQ :: u16 where [opcode_defs]: "RRQ = 1"
definition WRQ :: u16 where [opcode_defs]: "WRQ = 2"
definition DATA :: u16 where [opcode_defs]: "DATA = 3"
definition ACK :: u16 where [opcode_defs]: "ACK = 4"
definition ERROR :: u16 where [opcode_defs]: "ERROR = 5"
definition OACK :: u16 where [opcode_defs]: "OACK = 6"

definition MIN_SEGSIZE :: nat where "MIN_SEGSIZE = 8"
definition SEGSIZE :: nat where "SEGSIZE = 512"
definition MAX_SEGSIZE :: nat where "MAX_SEGSIZE = 65464"

definition th_opcode :: "packet \<Rightarrow> u16" where
  "th_opcode p = get16 p 0"

definition th_block :: "packet \<Rightarrow> u16" where
  "th_block p = get16 p 2"

definition th_data :: "packet \<Rightarrow> char list" where
  "th_data p = drop 4 p"

definition set_header :: "u16 \<Rightarrow> u16 \<Rightarrow> packet \<Rightarrow> packet" where
  "set_header opcode block p = put16 opcode @ put16 block @ drop 4 p"

definition ack_packet :: "u16 \<Rightarrow> packet" where
  "ack_packet block = put16 ACK @ put16 block"

definition data_packet :: "u16 \<Rightarrow> char list \<Rightarrow> packet" where
  "data_packet block d = put16 DATA @ put16 block @ d"

section \<open>Lemmas\<close>

lemma th_opcode_packets [simp]:
  "th_opcode (set_header op blk p) = op"
  "th_opcode (ack_packet blk) = ACK"
  "th_opcode (data_packet blk d) = DATA"
  by (simp_all add: th_opcode_def set_header_def ack_packet_def data_packet_def)

lemma th_block_packets [simp]:
  "th_block (set_header op blk p) = blk"
  "th_block (ack_packet blk) = blk"
  "th_block (data_packet blk d) = blk"
  using get16_put16 [of blk "[]"]
  by (simp_all add: th_block_def set_header_def ack_packet_def data_packet_def numeral_2_eq_2)

lemma th_data_packets [simp]:
  "th_data (set_header op blk p) = th_data p"
  "th_data (data_packet blk d) = d"
  by (simp_all add: th_data_def set_header_def data_packet_def numeral_eq_Suc)

lemma length_packets [simp]:
  "length (ack_packet blk) = 4"
  "length (data_packet blk d) = 4 + length d"
  "4 \<le> length p \<Longrightarrow> length (set_header op blk p) = length p"
  by (simp_all add: ack_packet_def data_packet_def set_header_def)

lemma set_header_data: "th_data p = d \<Longrightarrow> set_header DATA blk p = data_packet blk d"
  by (simp add: set_header_def data_packet_def th_data_def)

lemma take_set_header:
  "4 \<le> n \<Longrightarrow> take n (set_header op blk p) = set_header op blk (take n p)"
  by (simp add: set_header_def drop_take)

lemma opcodes_distinct [simp]:
  "DATA \<noteq> ACK" "ACK \<noteq> DATA" "ERROR \<noteq> ACK" "ACK \<noteq> ERROR" "ERROR \<noteq> DATA" "DATA \<noteq> ERROR"
  "OACK \<noteq> ACK" "ACK \<noteq> OACK" "OACK \<noteq> ERROR" "ERROR \<noteq> OACK" "OACK \<noteq> DATA" "DATA \<noteq> OACK"
  by (simp_all add: opcode_defs)

lemma th_block_take: "4 \<le> k \<Longrightarrow> th_block (take k p) = th_block p"
  by (simp add: th_block_def get16_def)

lemma th_opcode_take: "4 \<le> k \<Longrightarrow> th_opcode (take k p) = th_opcode p"
  by (simp add: th_opcode_def get16_def)

end
