(* ===== verification/Stdio.thy ===== *)
theory Stdio
  imports Prelude
begin

text \<open>
  The part of the C library's buffered streams that \<open>common/tftp-io.c\<close> uses. A stream
  has the bytes still to be read and whether the device reports an error when they are
  exhausted, the bytes accepted for writing, how many more it will accept before a write
  fails, and how the next flush ends. \<open>world\<close> holds \<open>errno\<close>; the components extend it
  with their own state.
\<close>

section \<open>Definitions\<close>

record world =
  errno :: int

record FILE =
  f_in :: "char list"
  f_in_error :: bool
  f_ferror :: bool
  f_out :: "char list"
  f_room :: "nat option"
  f_flush :: "int option"

definition fread :: "nat \<Rightarrow> FILE \<Rightarrow> char list \<times> FILE" where
  "fread n f =
     (take n (f_in f),
      f\<lparr>f_in := drop n (f_in f),
        f_ferror := f_ferror f \<or> (length (f_in f) < n \<and> f_in_error f)\<rparr>)"

definition getc :: "FILE \<Rightarrow> char option \<times> FILE" where
  "getc f =
     (case f_in f of
        [] \<Rightarrow> (None, f\<lparr>f_ferror := f_ferror f \<or> f_in_error f\<rparr>)
      | c # s \<Rightarrow> (Some c, f\<lparr>f_in := s\<rparr>))"

definition fwrite :: "char list \<Rightarrow> FILE \<Rightarrow> nat \<times> FILE" where
  "fwrite s f =
     (case f_room f of
        None \<Rightarrow> (length s, f\<lparr>f_out := f_out f @ s\<rparr>)
      | Some r \<Rightarrow>
          (min r (length s),
           f\<lparr>f_out := f_out f @ take r s, f_room := Some (r - length s),
             f_ferror := f_ferror f \<or> r < length s\<rparr>))"

definition putc :: "char \<Rightarrow> FILE \<Rightarrow> bool \<times> FILE" where
  "putc c f = (case fwrite [c] f of (n, f') \<Rightarrow> (n = 1, f'))"

definition fflush :: "FILE \<Rightarrow> 'a world_scheme \<Rightarrow> int \<times> 'a world_scheme" where
  "fflush f w =
     (case f_flush f of
        None \<Rightarrow> (0, w)
      | Some e \<Rightarrow> (-1, w\<lparr>errno := e\<rparr>))"

section \<open>Lemmas\<close>

lemma fwrite_all:
  "fwrite s f = (n, f') \<Longrightarrow> n = length s \<Longrightarrow>
     f_out f' = f_out f @ s \<and> f_in f' = f_in f \<and> f_flush f' = f_flush f \<and> f_in_error f' = f_in_error f"
  by (auto simp: fwrite_def split: option.splits)

lemma fwrite_frame:
  "fwrite s f = (n, f') \<Longrightarrow> f_flush f' = f_flush f \<and> f_in f' = f_in f"
  by (auto simp: fwrite_def split: option.splits)

lemma putc_True: "putc c f = (True, f') \<Longrightarrow> f_out f' = f_out f @ [c]"
  by (auto simp: putc_def fwrite_def split: option.splits prod.splits)

lemma putc_frame: "putc c f = (b, f') \<Longrightarrow> f_flush f' = f_flush f \<and> f_in f' = f_in f"
  using fwrite_frame [of "[c]"] by (auto simp: putc_def split: prod.splits)

lemma fread_no_room [simp]:
  "f_room (snd (fread n f)) = f_room f" "f_out (snd (fread n f)) = f_out f"
  by (simp_all add: fread_def)

end
