(* ===== verification/Xfer.thy ===== *)
theory Xfer
  imports Packet Stdio
begin

text \<open>
  The transfer engine of \<open>common/tftp-xfer.c\<close>. It is written against two tables of
  callbacks, the transport and the file I/O adapter, which are records of functions on the
  state of the world here. The engine blocks only in \<open>recv\<close>, so each direction is a state
  machine that runs from one call of \<open>recv\<close> to the next: \<open>tftp_xfer_send\<close> and
  \<open>tftp_xfer_recv\<close> run to the first call, \<open>send_step\<close> and \<open>recv_step\<close> take what
  the call returns (a packet, an error, or the jump back to \<open>sigsetjmp\<close> on a timeout) and
  run to the next one or to the result. Block numbers are 16-bit words and byte counts
  64-bit words.

  The locales state what the engine relies on: \<open>xfer_transport\<close> for the transport,
  \<open>xfer_source\<close> and \<open>xfer_sink\<close> for the reading and the writing adapter. The lemmas
  inside them follow the position of each side in the sequence of blocks.
\<close>

section \<open>Definitions\<close>

subsection \<open>Callback tables, parameters and results\<close>

record 'w tftp_xfer_ops =
  xsend :: "packet \<Rightarrow> 'w \<Rightarrow> int \<times> 'w"
  xreceived :: "packet \<Rightarrow> int \<Rightarrow> 'w \<Rightarrow> 'w"
  xretry_enter :: "bool \<Rightarrow> 'w \<Rightarrow> 'w"
  xretry_leave :: "'w \<Rightarrow> 'w"
  xwait_begin :: "'w \<Rightarrow> 'w"

text \<open>\<open>mload\<close> and \<open>mstore\<close> are the engine's accesses through a packet pointer.\<close>

record 'w tftp_xfer_io_ops =
  read_window :: "'w \<Rightarrow> (nat \<times> bool) option \<times> 'w"
  read_packet :: "nat \<Rightarrow> 'w \<Rightarrow> nat option \<times> 'w"
  read_length :: "nat \<Rightarrow> 'w \<Rightarrow> int \<times> 'w"
  read_release :: "'w \<Rightarrow> 'w"
  write_reserve :: "'w \<Rightarrow> nat option \<times> 'w"
  write_publish :: "int \<Rightarrow> 'w \<Rightarrow> int \<times> 'w"
  write_drain :: "'w \<Rightarrow> int \<times> 'w"
  write_finish :: "('w \<Rightarrow> int \<times> 'w) option"
  mload :: "nat \<Rightarrow> 'w \<Rightarrow> packet"
  mstore :: "nat \<Rightarrow> packet \<Rightarrow> 'w \<Rightarrow> 'w"

datatype tftp_xfer_status =
    TFTP_XFER_OK
  | TFTP_XFER_SEND_ERROR
  | TFTP_XFER_RECV_ERROR
  | TFTP_XFER_READ_ERROR
  | TFTP_XFER_WRITE_ERROR
  | TFTP_XFER_BAD_DATA
  | TFTP_XFER_SIZE_EXCEEDED
  | TFTP_XFER_PEER_ERROR

record tftp_xfer_result =
  status :: tftp_xfer_status
  res_bytes :: u64
  res_packet :: "packet option"
  res_packet_len :: int
  res_error :: int
  last_block :: u16

record 'w tftp_xfer =
  blocksize :: nat
  windowsize :: nat
  max_bytes :: u64
  rollover :: u16
  resend_oack :: bool
  x_ops :: "'w tftp_xfer_ops"
  x_io_ops :: "'w tftp_xfer_io_ops option"

text \<open>What a call of \<open>recv\<close> ends with; a timeout is the jump to the retry buffer.\<close>

datatype recv_event = RecvRet int packet | RecvFail int | RecvTimeout

datatype 's outcome = Waiting 's | Finished tftp_xfer_result

definition next_block :: "u16 \<Rightarrow> u16 \<Rightarrow> u16" where
  "next_block block roll = (if block + 1 = 0 then roll else block + 1)"

definition xfinish ::
  "'w tftp_xfer \<Rightarrow> tftp_xfer_status \<Rightarrow> int \<Rightarrow> u64 \<Rightarrow> packet option \<Rightarrow> int \<Rightarrow> u16 \<Rightarrow> 'w
     \<Rightarrow> 's outcome \<times> 'w" where
  "xfinish xfer stat err byts pkt pkt_len lastb w =
     (Finished \<lparr>status = stat, res_bytes = byts, res_packet = pkt, res_packet_len = pkt_len,
                res_error = err, last_block = lastb\<rparr>,
      xretry_leave (x_ops xfer) w)"

text \<open>A failure reported with \<open>errno\<close>, and with \<open>EIO\<close> when \<open>errno\<close> is not set.\<close>

definition xfail ::
  "'a world_scheme tftp_xfer \<Rightarrow> tftp_xfer_status \<Rightarrow> u64 \<Rightarrow> 'a world_scheme
     \<Rightarrow> 's outcome \<times> 'a world_scheme" where
  "xfail xfer stat byts w = xfinish xfer stat (errno w) byts None 0 0 w"

definition xfail_eio ::
  "'a world_scheme tftp_xfer \<Rightarrow> tftp_xfer_status \<Rightarrow> u64 \<Rightarrow> 'a world_scheme
     \<Rightarrow> 's outcome \<times> 'a world_scheme" where
  "xfail_eio xfer stat byts w = xfail xfer stat byts (if errno w = 0 then w\<lparr>errno := EIO\<rparr> else w)"

subsection \<open>Sending\<close>

record send_state =
  s_block :: u16
  s_bytes :: u64
  s_packet_count :: nat
  s_final :: bool

fun number_packets ::
  "'w tftp_xfer \<Rightarrow> 'w tftp_xfer_io_ops \<Rightarrow> nat list \<Rightarrow> u16 \<Rightarrow> 'w \<Rightarrow> u16 option \<times> 'w" where
  "number_packets xfer io [] block w = (Some block, w)"
| "number_packets xfer io (n # ns) block w =
     (case read_packet io n w of
        (None, w1) \<Rightarrow> (None, w1)
      | (Some dp, w1) \<Rightarrow>
          number_packets xfer io ns (next_block block (rollover xfer))
            (mstore io dp (put16 DATA @ put16 block) w1))"

fun send_packets ::
  "'w tftp_xfer \<Rightarrow> 'w tftp_xfer_io_ops \<Rightarrow> nat list \<Rightarrow> 'w \<Rightarrow> tftp_xfer_status option \<times> 'w" where
  "send_packets xfer io [] w = (None, w)"
| "send_packets xfer io (n # ns) w =
     (case read_packet io n w of
        (dp, w1) \<Rightarrow>
          (case read_length io n w1 of
             (len, w2) \<Rightarrow>
               if dp = None \<or> len < 4 \<or> len > int (blocksize xfer) + 4
               then (Some TFTP_XFER_READ_ERROR, w2)
               else (case xsend (x_ops xfer) (take (nat len) (mload io (the dp) w2)) w2 of
                       (r, w3) \<Rightarrow>
                         if r < 0 then (Some TFTP_XFER_SEND_ERROR, w3)
                         else send_packets xfer io ns w3)))"

definition resend_window ::
  "'a world_scheme tftp_xfer \<Rightarrow> 'a world_scheme tftp_xfer_io_ops \<Rightarrow> send_state \<Rightarrow> nat
     \<Rightarrow> 'a world_scheme \<Rightarrow> send_state outcome \<times> 'a world_scheme" where
  "resend_window xfer io st resend_start w =
     (case send_packets xfer io [resend_start..<s_packet_count st] w of
        (None, w1) \<Rightarrow> (Waiting st, xwait_begin (x_ops xfer) w1)
      | (Some TFTP_XFER_READ_ERROR, w1) \<Rightarrow> xfail_eio xfer TFTP_XFER_READ_ERROR (s_bytes st) w1
      | (Some e, w1) \<Rightarrow> xfail xfer e (s_bytes st) w1)"

definition open_window ::
  "'a world_scheme tftp_xfer \<Rightarrow> 'a world_scheme tftp_xfer_io_ops \<Rightarrow> u16 \<Rightarrow> u64
     \<Rightarrow> 'a world_scheme \<Rightarrow> send_state outcome \<times> 'a world_scheme" where
  "open_window xfer io block byts w =
     (case read_window io w of
        (None, w1) \<Rightarrow> xfail_eio xfer TFTP_XFER_READ_ERROR byts w1
      | (Some (packet_count, fin), w1) \<Rightarrow>
          if packet_count = 0 \<or> packet_count > windowsize xfer
          then xfail_eio xfer TFTP_XFER_READ_ERROR byts w1
          else (case number_packets xfer io [0..<packet_count] block w1 of
                  (None, w2) \<Rightarrow> xfail_eio xfer TFTP_XFER_READ_ERROR byts w2
                | (Some block', w2) \<Rightarrow>
                    resend_window xfer io
                      \<lparr>s_block = block', s_bytes = byts, s_packet_count = packet_count, s_final = fin\<rparr>
                      0 (xretry_enter (x_ops xfer) False w2)))"

definition tftp_xfer_send ::
  "'a world_scheme tftp_xfer \<Rightarrow> 'a world_scheme \<Rightarrow> send_state outcome \<times> 'a world_scheme" where
  "tftp_xfer_send xfer w =
     (case x_io_ops xfer of
        None \<Rightarrow> xfail xfer TFTP_XFER_READ_ERROR 0 (w\<lparr>errno := EINVAL\<rparr>)
      | Some io \<Rightarrow> open_window xfer io 1 0 w)"

text \<open>The scan for an ACK inside the window; \<open>Inl\<close> is the failure of \<open>read_packet\<close>.\<close>

fun find_acked ::
  "'w tftp_xfer_io_ops \<Rightarrow> nat list \<Rightarrow> u16 \<Rightarrow> 'w \<Rightarrow> (unit + nat option) \<times> 'w" where
  "find_acked io [] block w = (Inr None, w)"
| "find_acked io (n # ns) block w =
     (case read_packet io n w of
        (None, w1) \<Rightarrow> (Inl (), w1)
      | (Some dp, w1) \<Rightarrow>
          if block = th_block (mload io dp w1) then (Inr (Some n), w1)
          else find_acked io ns block w1)"

fun sum_lengths :: "'w tftp_xfer_io_ops \<Rightarrow> nat list \<Rightarrow> u64 \<Rightarrow> 'w \<Rightarrow> u64 \<times> 'w" where
  "sum_lengths io [] byts w = (byts, w)"
| "sum_lengths io (n # ns) byts w =
     (case read_length io n w of
        (len, w1) \<Rightarrow> sum_lengths io ns (byts + of_int (len - 4)) w1)"

definition window_acked ::
  "'a world_scheme tftp_xfer \<Rightarrow> 'a world_scheme tftp_xfer_io_ops \<Rightarrow> send_state
     \<Rightarrow> 'a world_scheme \<Rightarrow> send_state outcome \<times> 'a world_scheme" where
  "window_acked xfer io st w =
     (case sum_lengths io [0..<s_packet_count st] (s_bytes st) w of
        (byts, w1) \<Rightarrow>
          let w2 = read_release io w1
          in if s_final st then xfinish xfer TFTP_XFER_OK 0 byts None 0 0 w2
             else open_window xfer io (s_block st) byts w2)"

definition send_packet_in ::
  "'a world_scheme tftp_xfer \<Rightarrow> 'a world_scheme tftp_xfer_io_ops \<Rightarrow> send_state \<Rightarrow> int \<Rightarrow> packet
     \<Rightarrow> 'a world_scheme \<Rightarrow> send_state outcome \<times> 'a world_scheme" where
  "send_packet_in xfer io st n ap w =
     (let opcode = th_opcode ap; packet_block = th_block ap
      in if opcode = ERROR
         then xfinish xfer TFTP_XFER_PEER_ERROR 0 (s_bytes st) (Some ap) n 0 w
         else
           (case read_packet io (s_packet_count st - 1) w of
              (None, w1) \<Rightarrow> xfail_eio xfer TFTP_XFER_READ_ERROR (s_bytes st) w1
            | (Some dp, w1) \<Rightarrow>
                let expected_ack = th_block (mload io dp w1)
                in if opcode = ACK \<and> packet_block = expected_ack then window_acked xfer io st w1
                   else if opcode = OACK \<and> resend_oack xfer then resend_window xfer io st 0 w1
                   else if opcode = ACK then
                     (case find_acked io [0..<s_packet_count st - 1] packet_block w1 of
                        (Inl _, w2) \<Rightarrow> xfail_eio xfer TFTP_XFER_READ_ERROR (s_bytes st) w2
                      | (Inr None, w2) \<Rightarrow> (Waiting st, w2)
                      | (Inr (Some n), w2) \<Rightarrow> resend_window xfer io st (n + 1) w2)
                   else (Waiting st, w1)))"

definition send_step ::
  "'a world_scheme tftp_xfer \<Rightarrow> 'a world_scheme tftp_xfer_io_ops \<Rightarrow> send_state \<Rightarrow> recv_event
     \<Rightarrow> 'a world_scheme \<Rightarrow> send_state outcome \<times> 'a world_scheme" where
  "send_step xfer io st ev w =
     (case ev of
        RecvTimeout \<Rightarrow> resend_window xfer io st 0 (xretry_enter (x_ops xfer) True w)
      | RecvFail e \<Rightarrow> xfail xfer TFTP_XFER_RECV_ERROR (s_bytes st) (w\<lparr>errno := e\<rparr>)
      | RecvRet n ap \<Rightarrow>
          if n < 4 then (Waiting st, w)
          else send_packet_in xfer io st n ap (xreceived (x_ops xfer) ap n w))"

subsection \<open>Receiving\<close>

text \<open>
  \<open>r_reply\<close> is the initial reply while it is pending; \<open>r_dp\<close> is the reserved packet.
\<close>

record recv_state =
  r_dp :: nat
  r_block :: u16
  r_last_received :: u16
  r_last_acked :: u16
  r_bytes :: u64
  r_in_window :: nat
  r_reply :: "packet option"

text \<open>The top of the loop: \<open>sigsetjmp\<close>, \<open>retry_enter\<close> and the reply, if one is due.\<close>

definition recv_retry ::
  "'a world_scheme tftp_xfer \<Rightarrow> bool \<Rightarrow> recv_state \<Rightarrow> 'a world_scheme
     \<Rightarrow> (unit + recv_state outcome) \<times> 'a world_scheme" where
  "recv_retry xfer restarted st w =
     (let w1 = xretry_enter (x_ops xfer) restarted w
      in if r_reply st \<noteq> None \<or> restarted then
           (case xsend (x_ops xfer)
                   (case r_reply st of Some reply \<Rightarrow> reply | None \<Rightarrow> ack_packet (r_last_acked st)) w1 of
              (r, w2) \<Rightarrow>
                if r < 0 then
                  (case xfail xfer TFTP_XFER_SEND_ERROR (r_bytes st) w2 of (res, w3) \<Rightarrow> (Inr res, w3))
                else (Inl (), w2))
         else (Inl (), w1))"

definition recv_wait ::
  "'a world_scheme tftp_xfer \<Rightarrow> bool \<Rightarrow> recv_state \<Rightarrow> 'a world_scheme
     \<Rightarrow> recv_state outcome \<times> 'a world_scheme" where
  "recv_wait xfer restarted st w =
     (case recv_retry xfer restarted st w of
        (Inr res, w1) \<Rightarrow> (res, w1)
      | (Inl _, w1) \<Rightarrow> (Waiting st, xwait_begin (x_ops xfer) w1))"

text \<open>The end of a window: drain, finish after the last block, acknowledge.\<close>

definition recv_ack_window ::
  "'a world_scheme tftp_xfer \<Rightarrow> 'a world_scheme tftp_xfer_io_ops \<Rightarrow> bool \<Rightarrow> recv_state
     \<Rightarrow> 'a world_scheme \<Rightarrow> (unit + recv_state outcome) \<times> 'a world_scheme" where
  "recv_ack_window xfer io fin st w =
     (let fail = (\<lambda>f w. case f w of (res, w') \<Rightarrow> (Inr res, w'))
      in case write_drain io w of
           (r, w1) \<Rightarrow>
             if r < 0 then fail (xfail_eio xfer TFTP_XFER_WRITE_ERROR (r_bytes st)) w1
             else
               (case (if fin then the (write_finish io) w1 else (0, w1)) of
                  (r', w2) \<Rightarrow>
                    if r' < 0 then fail (xfail_eio xfer TFTP_XFER_WRITE_ERROR (r_bytes st)) w2
                    else
                      (case xsend (x_ops xfer) (ack_packet (r_last_acked st)) w2 of
                         (r'', w3) \<Rightarrow>
                           if r'' < 0 then fail (xfail xfer TFTP_XFER_SEND_ERROR (r_bytes st)) w3
                           else if fin then
                             fail (xfinish xfer TFTP_XFER_OK 0 (r_bytes st) None 0 (r_last_acked st)) w3
                           else (Inl (), w3))))"

text \<open>The counters after a published packet; the window is full or the block was the last.\<close>

definition recv_advance ::
  "'a world_scheme tftp_xfer \<Rightarrow> int \<Rightarrow> u16 \<Rightarrow> bool \<Rightarrow> recv_state \<Rightarrow> bool \<times> recv_state" where
  "recv_advance xfer sz packet_block fin st =
     (let st1 = st\<lparr>r_reply := None, r_bytes := r_bytes st + of_int sz,
                   r_in_window := r_in_window st + 1,
                   r_last_received := packet_block,
                   r_block := next_block (r_block st) (rollover xfer)\<rparr>
      in if fin \<or> r_in_window st1 = windowsize xfer
         then (True, st1\<lparr>r_last_acked := packet_block, r_in_window := 0\<rparr>)
         else (False, st1))"

definition recv_reserve ::
  "'a world_scheme tftp_xfer \<Rightarrow> 'a world_scheme tftp_xfer_io_ops \<Rightarrow> recv_state
     \<Rightarrow> 'a world_scheme \<Rightarrow> recv_state outcome \<times> 'a world_scheme" where
  "recv_reserve xfer io st w =
     (case write_reserve io w of
        (None, w1) \<Rightarrow> xfail_eio xfer TFTP_XFER_WRITE_ERROR (r_bytes st) w1
      | (Some dp, w1) \<Rightarrow> recv_wait xfer False (st\<lparr>r_dp := dp\<rparr>) w1)"

definition recv_published ::
  "'a world_scheme tftp_xfer \<Rightarrow> 'a world_scheme tftp_xfer_io_ops \<Rightarrow> bool \<Rightarrow> bool \<times> recv_state
     \<Rightarrow> 'a world_scheme \<Rightarrow> recv_state outcome \<times> 'a world_scheme" where
  "recv_published xfer io fin adv w =
     (case adv of
        (at_end, st) \<Rightarrow>
          (case (if at_end then recv_ack_window xfer io fin st w else (Inl (), w)) of
             (Inr res, w1) \<Rightarrow> (res, w1)
           | (Inl _, w1) \<Rightarrow> recv_reserve xfer io st w1))"

text \<open>The expected packet, \<open>n\<close> bytes long as \<open>recv\<close> reports it.\<close>

definition recv_accept ::
  "'a world_scheme tftp_xfer \<Rightarrow> 'a world_scheme tftp_xfer_io_ops \<Rightarrow> recv_state \<Rightarrow> int \<Rightarrow> packet
     \<Rightarrow> 'a world_scheme \<Rightarrow> recv_state outcome \<times> 'a world_scheme" where
  "recv_accept xfer io st n pkt w =
     (let sz = n - 4; byts = r_bytes st
      in if sz > int (blocksize xfer) then xfinish xfer TFTP_XFER_BAD_DATA 0 byts None 0 0 w
         else if (of_int sz :: u64) > max_bytes xfer - byts
         then xfinish xfer TFTP_XFER_SIZE_EXCEEDED 0 byts None 0 0 w
         else
           (case write_publish io sz (mstore io (r_dp st) (take (nat n) pkt) w) of
              (r, w1) \<Rightarrow>
                if r < 0 then xfail_eio xfer TFTP_XFER_WRITE_ERROR byts w1
                else let fin = (sz \<noteq> int (blocksize xfer))
                     in recv_published xfer io fin (recv_advance xfer sz (th_block pkt) fin st) w1))"

definition tftp_xfer_recv ::
  "'a world_scheme tftp_xfer \<Rightarrow> int \<Rightarrow> packet option \<Rightarrow> packet option \<Rightarrow> 'a world_scheme
     \<Rightarrow> recv_state outcome \<times> 'a world_scheme" where
  "tftp_xfer_recv xfer input_size initial_reply initial_packet w =
     (case x_io_ops xfer of
        None \<Rightarrow> xfail xfer TFTP_XFER_WRITE_ERROR 0 (w\<lparr>errno := EINVAL\<rparr>)
      | Some io \<Rightarrow>
          if write_finish io = None \<or> input_size < int (blocksize xfer) + 4
          then xfail xfer TFTP_XFER_WRITE_ERROR 0 (w\<lparr>errno := EINVAL\<rparr>)
          else
            (case write_reserve io w of
               (None, w1) \<Rightarrow> xfail_eio xfer TFTP_XFER_WRITE_ERROR 0 w1
             | (Some dp, w1) \<Rightarrow>
                 let pending = (\<lambda>p. case p of Some x \<Rightarrow> if length x \<ge> 4 then p else None | None \<Rightarrow> None);
                     st = \<lparr>r_dp = dp, r_block = 1, r_last_received = 0, r_last_acked = 0, r_bytes = 0,
                           r_in_window = 0, r_reply = pending initial_reply\<rparr>
                 in (case pending initial_packet of
                       None \<Rightarrow> recv_wait xfer False st w1
                     | Some pkt \<Rightarrow>
                         (case recv_retry xfer False st w1 of
                            (Inr res, w2) \<Rightarrow> (res, w2)
                          | (Inl _, w2) \<Rightarrow>
                              recv_accept xfer io (st\<lparr>r_reply := None\<rparr>) (int (length pkt)) pkt w2))))"

definition recv_step ::
  "'a world_scheme tftp_xfer \<Rightarrow> 'a world_scheme tftp_xfer_io_ops \<Rightarrow> recv_state \<Rightarrow> recv_event
     \<Rightarrow> 'a world_scheme \<Rightarrow> recv_state outcome \<times> 'a world_scheme" where
  "recv_step xfer io st ev w =
     (case ev of
        RecvTimeout \<Rightarrow> recv_wait xfer True st w
      | RecvFail e \<Rightarrow> xfail xfer TFTP_XFER_RECV_ERROR (r_bytes st) (w\<lparr>errno := e\<rparr>)
      | RecvRet n input \<Rightarrow>
          if n < 4 then (Waiting st, w)
          else
            let w1 = xreceived (x_ops xfer) input n w; opcode = th_opcode input
            in if opcode = ERROR
               then xfinish xfer TFTP_XFER_PEER_ERROR 0 (r_bytes st) (Some input) n 0 w1
               else if opcode \<noteq> DATA then (Waiting st, w1)
               else if th_block input = r_block st then recv_accept xfer io st n input w1
               else (Waiting st, snd (xsend (x_ops xfer) (ack_packet (r_last_received st)) w1)))"

subsection \<open>Sequence numbers\<close>

text \<open>The number of the i-th block of a transfer.\<close>

fun seqno :: "u16 \<Rightarrow> nat \<Rightarrow> u16" where
  "seqno roll 0 = 1"
| "seqno roll (Suc i) = next_block (seqno roll i) roll"

definition block_packet :: "u16 \<Rightarrow> char list list \<Rightarrow> nat \<Rightarrow> packet" where
  "block_packet roll bs i = data_packet (seqno roll i) (bs ! i)"

text \<open>The event is a packet with this opcode and number.\<close>

fun is_packet :: "u16 \<Rightarrow> u16 \<Rightarrow> recv_event \<Rightarrow> bool" where
  "is_packet opc b (RecvRet n p) = (4 \<le> n \<and> th_opcode p = opc \<and> th_block p = b)"
| "is_packet opc b (RecvFail e) = False"
| "is_packet opc b RecvTimeout = False"

section \<open>Lemmas\<close>

lemma seqno_small: "i < 65535 \<Longrightarrow> seqno roll i = of_nat (Suc i)"
proof (induction i)
  case (Suc i)
  then have "(of_nat (Suc (Suc i)) :: u16) \<noteq> 0"
    using of_nat_neq_0 [where 'a = 16, of "Suc (Suc i)"] by simp
  with Suc show ?case by (simp add: next_block_def add.commute)
qed simp

lemma unat_seqno: "i < 65535 \<Longrightarrow> unat (seqno roll i) = Suc i"
  by (simp add: seqno_small unat_of_nat del: of_nat_Suc)

lemma seqno_inj: "i < 65535 \<Longrightarrow> j < 65535 \<Longrightarrow> seqno roll i = seqno roll j \<Longrightarrow> i = j"
  by (metis Suc_inject unat_seqno)

lemma seqno_neq_0: "i < 65535 \<Longrightarrow> seqno roll i \<noteq> 0"
  by (metis Zero_not_Suc unat_0 unat_seqno)

subsection \<open>The transport\<close>

text \<open>
  \<open>vw\<close> is the part of the world the adapter owns and \<open>sent\<close> the packets handed to the
  network: no transport callback touches the first, and only \<open>send\<close> extends the second.
\<close>

locale xfer_transport =
  fixes xops :: "'a world_scheme tftp_xfer_ops"
    and vw :: "'a world_scheme \<Rightarrow> 'v"
    and sent :: "'a world_scheme \<Rightarrow> packet list"
  assumes errno_frame: "vw (w\<lparr>errno := e\<rparr>) = vw w \<and> sent (w\<lparr>errno := e\<rparr>) = sent w"
    and send_vw: "vw (snd (xsend xops p w)) = vw w"
    and send_sent: "sent (snd (xsend xops p w)) = sent w \<or> sent (snd (xsend xops p w)) = sent w @ [p]"
    and send_done: "0 \<le> fst (xsend xops p w) \<Longrightarrow> sent (snd (xsend xops p w)) = sent w @ [p]"
    and received_frame: "vw (xreceived xops p n w) = vw w \<and> sent (xreceived xops p n w) = sent w"
    and enter_frame: "vw (xretry_enter xops b w) = vw w \<and> sent (xretry_enter xops b w) = sent w"
    and leave_frame: "vw (xretry_leave xops w) = vw w \<and> sent (xretry_leave xops w) = sent w"
    and wait_frame: "vw (xwait_begin xops w) = vw w \<and> sent (xwait_begin xops w) = sent w"
begin

lemmas frames [simp] = errno_frame send_vw received_frame enter_frame leave_frame wait_frame

text \<open>Reporting a result touches neither part.\<close>

lemma xfinishD:
  assumes "xfinish xfer stat e b pkt n lb w = (out, w')" "x_ops xfer = xops"
  shows "sent w' = sent w \<and> vw w' = vw w \<and> (\<exists>r. out = Finished r \<and> status r = stat \<and> res_bytes r = b)"
  using assms(1) unfolding xfinish_def assms(2) by auto

lemma xfailD:
  assumes "xfail xfer stat b w = (out, w')" "x_ops xfer = xops"
  shows "sent w' = sent w \<and> vw w' = vw w \<and> (\<exists>r. out = Finished r \<and> status r = stat)"
  using xfinishD [of xfer stat "errno w" b None 0 0 w out w'] assms by (auto simp: xfail_def)

lemma xfail_eioD:
  assumes "xfail_eio xfer stat b w = (out, w')" "x_ops xfer = xops"
  shows "sent w' = sent w \<and> vw w' = vw w \<and> (\<exists>r. out = Finished r \<and> status r = stat)"
  using xfailD [of xfer stat b w out w'] xfailD [of xfer stat b "w\<lparr>errno := EIO\<rparr>" out w'] assms
  by (auto simp: xfail_eio_def split: if_splits)

definition sends_only :: "packet set \<Rightarrow> 'a world_scheme \<Rightarrow> 'a world_scheme \<Rightarrow> bool" where
  "sends_only P w w' \<longleftrightarrow> set (sent w) \<subseteq> set (sent w') \<and> set (sent w') \<subseteq> set (sent w) \<union> P"

lemma sends_only_refl: "sent w' = sent w \<Longrightarrow> sends_only P w w'"
  by (simp add: sends_only_def)

lemma sends_only_trans: "sends_only P w w1 \<Longrightarrow> sends_only P w1 w2 \<Longrightarrow> sends_only P w w2"
  by (auto simp: sends_only_def)

lemma sends_only_same: "sends_only P w w1 \<Longrightarrow> sent w2 = sent w1 \<Longrightarrow> sends_only P w w2"
  by (simp add: sends_only_def)

lemma sends_only_mono: "sends_only P w w' \<Longrightarrow> P \<subseteq> Q \<Longrightarrow> sends_only Q w w'"
  by (auto simp: sends_only_def)

lemma send_subset: "set (sent (snd (xsend xops p w))) \<subseteq> insert p (set (sent w))"
  using send_sent [of p w] by auto

lemma send_grows: "set (sent w) \<subseteq> set (sent (snd (xsend xops p w)))"
  using send_sent [of p w] by auto

end

subsection \<open>The sending side\<close>

text \<open>
  The reading adapter: \<open>held\<close> are the packets of the window it holds, \<open>left\<close> the blocks
  not released yet, the held ones first.
\<close>

locale xfer_source =
  fixes xio :: "'a world_scheme tftp_xfer_io_ops"
    and vw :: "'a world_scheme \<Rightarrow> 'v"
    and sent :: "'a world_scheme \<Rightarrow> packet list"
    and src_ok :: "'v \<Rightarrow> bool"
    and held :: "'v \<Rightarrow> packet list"
    and left :: "'v \<Rightarrow> char list list"
  assumes window_sent: "sent (snd (read_window xio w)) = sent w"
    and window_ok: "src_ok (vw w) \<Longrightarrow> read_window xio w = (Some (pc, fin), w') \<Longrightarrow>
          src_ok (vw w') \<and> left (vw w') = left (vw w) \<and> length (held (vw w')) = pc
          \<and> map th_data (held (vw w')) = take pc (left (vw w)) \<and> (fin \<longleftrightarrow> pc = length (left (vw w)))"
    and held_length: "src_ok v \<Longrightarrow> p \<in> set (held v) \<Longrightarrow> 4 \<le> length p"
    and packet_held: "src_ok (vw w) \<Longrightarrow> n < length (held (vw w)) \<Longrightarrow>
          \<exists>dp. read_packet xio n w = (Some dp, w)
            \<and> take (length (held (vw w) ! n)) (mload xio dp w) = held (vw w) ! n
            \<and> (\<forall>h. length h = 4 \<longrightarrow>
                 src_ok (vw (mstore xio dp h w)) \<and> left (vw (mstore xio dp h w)) = left (vw w)
                 \<and> held (vw (mstore xio dp h w)) = (held (vw w))[n := h @ drop 4 (held (vw w) ! n)]
                 \<and> sent (mstore xio dp h w) = sent w)"
    and length_held: "src_ok (vw w) \<Longrightarrow> n < length (held (vw w)) \<Longrightarrow>
          read_length xio n w = (int (length (held (vw w) ! n)), w)"
    and release_ok: "src_ok (vw w) \<Longrightarrow>
          src_ok (vw (read_release xio w)) \<and> sent (read_release xio w) = sent w
          \<and> left (vw (read_release xio w)) = drop (length (held (vw w))) (left (vw w))"
begin

lemma packet_heldE:
  assumes "src_ok (vw w)" "n < length (held (vw w))"
  obtains dp where "read_packet xio n w = (Some dp, w)"
    "th_block (mload xio dp w) = th_block (held (vw w) ! n)"
    "take (length (held (vw w) ! n)) (mload xio dp w) = held (vw w) ! n"
    "\<And>h. length h = 4 \<Longrightarrow>
       src_ok (vw (mstore xio dp h w)) \<and> left (vw (mstore xio dp h w)) = left (vw w)
       \<and> held (vw (mstore xio dp h w)) = (held (vw w))[n := h @ drop 4 (held (vw w) ! n)]
       \<and> sent (mstore xio dp h w) = sent w"
proof -
  obtain dp where dp: "read_packet xio n w = (Some dp, w)"
    "take (length (held (vw w) ! n)) (mload xio dp w) = held (vw w) ! n"
    "\<forall>h. length h = 4 \<longrightarrow>
       src_ok (vw (mstore xio dp h w)) \<and> left (vw (mstore xio dp h w)) = left (vw w)
       \<and> held (vw (mstore xio dp h w)) = (held (vw w))[n := h @ drop 4 (held (vw w) ! n)]
       \<and> sent (mstore xio dp h w) = sent w"
    using packet_held [OF assms] by blast
  have "4 \<le> length (held (vw w) ! n)" using assms held_length by simp
  with dp(2) have "th_block (mload xio dp w) = th_block (held (vw w) ! n)"
    by (metis th_block_take)
  with dp show thesis by (intro that [of dp]) blast+
qed

text \<open>Numbering a window writes the headers of its packets and nothing else.\<close>

lemma number_packets_spec:
  assumes "src_ok (vw w)" "k + j = length (held (vw w))" "block = seqno (rollover xfer) (i + k)"
  shows "\<exists>w'. number_packets xfer xio [k..<k + j] block w = (Some (seqno (rollover xfer) (i + k + j)), w')
     \<and> src_ok (vw w') \<and> left (vw w') = left (vw w) \<and> sent w' = sent w
     \<and> held (vw w') = take k (held (vw w))
         @ map (\<lambda>n. data_packet (seqno (rollover xfer) (i + n)) (th_data (held (vw w) ! n))) [k..<k + j]"
  using assms
proof (induction j arbitrary: k block w)
  case 0
  then show ?case by simp
next
  case (Suc j)
  let ?r = "rollover xfer" and ?h = "put16 DATA @ put16 block"
  have k: "k < length (held (vw w))" using Suc.prems by simp
  obtain dp where dp: "read_packet xio k w = (Some dp, w)"
    and st: "src_ok (vw (mstore xio dp ?h w))" "left (vw (mstore xio dp ?h w)) = left (vw w)"
      "held (vw (mstore xio dp ?h w)) = (held (vw w))[k := ?h @ drop 4 (held (vw w) ! k)]"
      "sent (mstore xio dp ?h w) = sent w"
    by (rule packet_heldE [OF Suc.prems(1) k]) (simp add: length_put16)
  define w1 where "w1 = mstore xio dp ?h w"
  have h1: "held (vw w1) = (held (vw w))[k := data_packet block (th_data (held (vw w) ! k))]"
    using st by (simp add: w1_def data_packet_def th_data_def)
  have p1: "src_ok (vw w1)" using st(1) by (simp add: w1_def)
  have p2: "Suc k + j = length (held (vw w1))" using Suc.prems h1 by simp
  obtain w' where w': "number_packets xfer xio [Suc k..<Suc k + j] (seqno ?r (i + Suc k)) w1
        = (Some (seqno ?r (i + Suc k + j)), w')"
      "src_ok (vw w')" "left (vw w') = left (vw w1)" "sent w' = sent w1"
      "held (vw w') = take (Suc k) (held (vw w1))
         @ map (\<lambda>n. data_packet (seqno ?r (i + n)) (th_data (held (vw w1) ! n))) [Suc k..<Suc k + j]"
    using Suc.IH [OF p1 p2 refl] by blast
  have "[k..<k + Suc j] = k # [Suc k..<Suc k + j]" by (simp add: upt_conv_Cons del: upt_Suc)
  moreover have "take (Suc k) (held (vw w1)) = take k (held (vw w)) @ [data_packet block (th_data (held (vw w) ! k))]"
    using k by (simp add: h1 take_Suc_conv_app_nth)
  moreover have "map (\<lambda>n. data_packet (seqno ?r (i + n)) (th_data (held (vw w1) ! n))) [Suc k..<Suc k + j]
      = map (\<lambda>n. data_packet (seqno ?r (i + n)) (th_data (held (vw w) ! n))) [Suc k..<Suc k + j]"
    by (rule map_cong) (auto simp: h1)
  moreover have "next_block block ?r = seqno ?r (i + Suc k)" using Suc.prems by simp
  ultimately show ?case
    using w' dp st Suc.prems by (simp add: w1_def del: upt_Suc)
qed

end

text \<open>
  The sender has released the first \<open>k\<close> of the blocks \<open>bl\<close> and holds the next ones.
\<close>

locale xfer_sender =
  xfer_transport xops vw sent + xfer_source xio vw sent src_ok held left
  for xops :: "'a world_scheme tftp_xfer_ops"
    and xio :: "'a world_scheme tftp_xfer_io_ops"
    and vw :: "'a world_scheme \<Rightarrow> 'v"
    and sent :: "'a world_scheme \<Rightarrow> packet list"
    and src_ok :: "'v \<Rightarrow> bool"
    and held :: "'v \<Rightarrow> packet list"
    and left :: "'v \<Rightarrow> char list list"
begin

definition window_at :: "u16 \<Rightarrow> char list list \<Rightarrow> nat \<Rightarrow> nat \<Rightarrow> 'v \<Rightarrow> bool" where
  "window_at roll bl k pc v \<longleftrightarrow>
     src_ok v \<and> left v = drop k bl \<and> held v = map (block_packet roll bl) [k..<k + pc]
     \<and> 0 < pc \<and> k + pc \<le> length bl"

definition send_inv :: "'a world_scheme tftp_xfer \<Rightarrow> char list list \<Rightarrow> nat \<Rightarrow> send_state \<Rightarrow> 'v \<Rightarrow> bool" where
  "send_inv xfer bl k st v \<longleftrightarrow>
     window_at (rollover xfer) bl k (s_packet_count st) v
     \<and> s_block st = seqno (rollover xfer) (k + s_packet_count st)
     \<and> s_final st = (k + s_packet_count st = length bl)
     \<and> s_bytes st = of_nat (length (concat (take k bl)))
     \<and> s_packet_count st \<le> windowsize xfer"

lemma window_nth:
  "window_at roll bl k pc v \<Longrightarrow> n < pc \<Longrightarrow> n < length (held v) \<and> held v ! n = block_packet roll bl (k + n)"
  by (simp add: window_at_def)

lemma send_packets_spec:
  assumes "window_at (rollover xfer) bl k pc (vw w)" "\<forall>n \<in> set ns. n < pc" "x_ops xfer = xops"
    and "send_packets xfer xio ns w = (r, w')"
  shows "vw w' = vw w \<and> sends_only (block_packet (rollover xfer) bl ` {k..<k + pc}) w w'
    \<and> (r = None \<longrightarrow> sent w' = sent w @ map (\<lambda>n. block_packet (rollover xfer) bl (k + n)) ns)"
  using assms
proof (induction ns arbitrary: w)
  case Nil
  then show ?case by (simp add: sends_only_refl)
next
  case (Cons n ns)
  let ?b = "block_packet (rollover xfer) bl"
  have ok: "src_ok (vw w)" using Cons.prems by (simp add: window_at_def)
  have n: "n < length (held (vw w))" "held (vw w) ! n = ?b (k + n)" "n < pc"
    using window_nth [OF Cons.prems(1)] Cons.prems(2) by simp_all
  obtain dp where dp: "read_packet xio n w = (Some dp, w)"
      "take (length (?b (k + n))) (mload xio dp w) = ?b (k + n)"
    by (rule packet_heldE [OF ok n(1)]) (simp add: n(2))
  have len: "read_length xio n w = (int (length (?b (k + n))), w)"
    using length_held [OF ok n(1)] n(2) by simp
  obtain r1 w1 where s1: "xsend xops (?b (k + n)) w = (r1, w1)" by (metis surj_pair)
  have f1: "vw w1 = vw w" "sends_only (?b ` {k..<k + pc}) w w1"
      "0 \<le> r1 \<Longrightarrow> sent w1 = sent w @ [?b (k + n)]"
    using send_vw [of "?b (k + n)" w] send_subset [of "?b (k + n)" w]
      send_grows [of w "?b (k + n)"] send_done [of "?b (k + n)" w] s1 n(3)
    by (auto simp: sends_only_def)
  consider "length (?b (k + n)) > blocksize xfer + 4" | "r1 < 0" | "length (?b (k + n)) \<le> blocksize xfer + 4" "0 \<le> r1"
    by linarith
  then show ?case
  proof cases
    case 1
    with Cons.prems dp len have "r = Some TFTP_XFER_READ_ERROR" "w' = w" by simp_all
    then show ?thesis by (simp add: sends_only_refl)
  next
    case 2
    with Cons.prems dp len s1 have "r \<noteq> None" "w' = w \<or> w' = w1" by (auto split: if_splits)
    then show ?thesis using f1 by (auto simp: sends_only_refl)
  next
    case 3
    have "length (?b (k + n)) \<ge> 4" by (simp add: block_packet_def)
    with 3 Cons.prems dp len s1 have rest: "send_packets xfer xio ns w1 = (r, w')"
      by (simp add: not_less [symmetric])
    have "vw w' = vw w1 \<and> sends_only (?b ` {k..<k + pc}) w1 w'
        \<and> (r = None \<longrightarrow> sent w' = sent w1 @ map (\<lambda>n. ?b (k + n)) ns)"
      using Cons.IH [of w1] Cons.prems f1 rest by simp
    with f1 3 show ?thesis using sends_only_trans by auto
  qed
qed

definition send_out ::
  "'a world_scheme tftp_xfer \<Rightarrow> char list list \<Rightarrow> nat \<Rightarrow> send_state outcome \<Rightarrow> 'v \<Rightarrow> bool" where
  "send_out xfer bl k out v \<longleftrightarrow>
     (case out of
        Waiting st \<Rightarrow> send_inv xfer bl k st v
      | Finished r \<Rightarrow> status r \<noteq> TFTP_XFER_OK)"

abbreviation all_blocks :: "'a world_scheme tftp_xfer \<Rightarrow> char list list \<Rightarrow> packet set" where
  "all_blocks xfer bl \<equiv> block_packet (rollover xfer) bl ` {..<length bl}"

lemma send_packets_result:
  "send_packets xfer xio ns w = (Some e, w') \<Longrightarrow> e = TFTP_XFER_READ_ERROR \<or> e = TFTP_XFER_SEND_ERROR"
  by (induction xfer xio ns w rule: send_packets.induct) (auto split: if_splits prod.splits)

lemma resend_window_spec:
  assumes inv: "send_inv xfer bl k st (vw w)" and x: "x_ops xfer = xops"
    and run: "resend_window xfer xio st j w = (out, w')"
  shows "sends_only (all_blocks xfer bl) w w' \<and> send_out xfer bl k out (vw w')
     \<and> (\<forall>st'. out = Waiting st' \<longrightarrow> st' = st
          \<and> sent w' = sent w @ map (\<lambda>n. block_packet (rollover xfer) bl (k + n)) [j..<s_packet_count st])"
proof -
  have win: "window_at (rollover xfer) bl k (s_packet_count st) (vw w)"
    using inv by (simp add: send_inv_def)
  obtain r w1 where sp: "send_packets xfer xio [j..<s_packet_count st] w = (r, w1)" by (metis surj_pair)
  have lt: "\<forall>n \<in> set [j..<s_packet_count st]. n < s_packet_count st" by simp
  note s = send_packets_spec [OF win lt x sp]
  have "block_packet (rollover xfer) bl ` {k..<k + s_packet_count st} \<subseteq> all_blocks xfer bl"
    using win by (auto simp: window_at_def)
  then have only: "sends_only (all_blocks xfer bl) w w1"
    using s sends_only_mono by blast
  show ?thesis
  proof (cases r)
    case None
    then have res: "out = Waiting st" "w' = xwait_begin xops w1"
      using run sp x by (simp_all add: resend_window_def)
    have "sent w' = sent w1" "vw w' = vw w" using s res by simp_all
    with None s only inv res sends_only_same show ?thesis by (simp add: send_out_def)
  next
    case (Some e)
    with send_packets_result sp have "e = TFTP_XFER_READ_ERROR \<or> e = TFTP_XFER_SEND_ERROR" by blast
    with run sp Some have "xfail_eio xfer e (s_bytes st) w1 = (out, w') \<or> xfail xfer e (s_bytes st) w1 = (out, w')"
      and e: "e \<noteq> TFTP_XFER_OK"
      by (auto simp: resend_window_def)
    then have "sent w' = sent w1 \<and> (\<exists>r. out = Finished r \<and> status r = e)"
      using x xfail_eioD xfailD by blast
    with only e sends_only_same show ?thesis by (auto simp: send_out_def)
  qed
qed

text \<open>A window that was read is numbered without failure.\<close>

lemma window_numbered:
  assumes ok: "src_ok (vw w)" "left (vw w) = drop k bl" and rw: "read_window xio w = (Some (pc, fin), w1)"
    and pc: "0 < pc" "pc \<le> windowsize xfer"
  shows "\<exists>w2. number_packets xfer xio [0..<pc] (seqno (rollover xfer) k) w1
        = (Some (seqno (rollover xfer) (k + pc)), w2)
     \<and> sent w2 = sent w
     \<and> send_inv xfer bl k \<lparr>s_block = seqno (rollover xfer) (k + pc), s_bytes = of_nat (length (concat (take k bl))),
          s_packet_count = pc, s_final = fin\<rparr> (vw w2)"
proof -
  let ?r = "rollover xfer"
  note w1 = window_ok [OF ok(1) rw]
  have sent1: "sent w1 = sent w" using window_sent [of w] rw by simp
  have "length (take pc (drop k bl)) = pc" using w1 ok by (metis length_map)
  then have le: "k + pc \<le> length bl" using pc(1) by simp
  then have tk: "take pc (drop k bl) = map (\<lambda>n. bl ! (k + n)) [0..<pc]"
    by (intro nth_equalityI) simp_all
  have data: "th_data (held (vw w1) ! n) = bl ! (k + n)" if "n < pc" for n
  proof -
    have "n < length (held (vw w1))" using w1 that by simp
    then have "th_data (held (vw w1) ! n) = map th_data (held (vw w1)) ! n" by simp
    also have "\<dots> = map (\<lambda>n. bl ! (k + n)) [0..<pc] ! n" using w1 ok(2) tk by simp
    also have "\<dots> = bl ! (k + n)" using that by simp
    finally show ?thesis .
  qed
  obtain w2 where num: "number_packets xfer xio [0..<pc] (seqno ?r k) w1 = (Some (seqno ?r (k + pc)), w2)"
    "src_ok (vw w2)" "left (vw w2) = left (vw w1)" "sent w2 = sent w1"
    "held (vw w2) = map (\<lambda>n. data_packet (seqno ?r (k + n)) (th_data (held (vw w1) ! n))) [0..<pc]"
    using number_packets_spec [of w1 0 pc "seqno ?r k" xfer k] w1 by auto
  have "held (vw w2) = map (block_packet ?r bl) [k..<k + pc]"
    unfolding num(5) using data by (intro nth_equalityI) (simp_all add: block_packet_def)
  with num w1 ok le pc sent1 show ?thesis by (auto simp: send_inv_def window_at_def)
qed

lemma open_window_spec:
  assumes ok: "src_ok (vw w)" "left (vw w) = drop k bl" "k < length bl" and x: "x_ops xfer = xops"
    and run: "open_window xfer xio (seqno (rollover xfer) k) (of_nat (length (concat (take k bl)))) w = (out, w')"
  shows "sends_only (all_blocks xfer bl) w w' \<and> send_out xfer bl k out (vw w')"
proof -
  let ?byts = "of_nat (length (concat (take k bl))) :: u64"
  have fail: ?thesis if "xfail_eio xfer TFTP_XFER_READ_ERROR ?byts w1 = (out, w')" "sent w1 = sent w" for w1
    using xfail_eioD [OF that(1) x] that(2) by (auto simp: sends_only_def send_out_def)
  obtain q w1 where rw: "read_window xio w = (q, w1)" by (metis surj_pair)
  have sent1: "sent w1 = sent w" using window_sent [of w] rw by simp
  show ?thesis
  proof (cases q)
    case None
    then show ?thesis using run rw sent1 fail by (simp add: open_window_def)
  next
    case (Some pf)
    obtain pc fin where q: "q = Some (pc, fin)" using Some by (cases pf) simp
    show ?thesis
    proof (cases "pc = 0 \<or> pc > windowsize xfer")
      case True
      then show ?thesis using run rw sent1 fail q by (simp add: open_window_def)
    next
      case False
      define st where "st = \<lparr>s_block = seqno (rollover xfer) (k + pc), s_bytes = ?byts, s_packet_count = pc, s_final = fin\<rparr>"
      obtain w2 where num: "number_packets xfer xio [0..<pc] (seqno (rollover xfer) k) w1
            = (Some (seqno (rollover xfer) (k + pc)), w2)"
          "sent w2 = sent w" "send_inv xfer bl k st (vw w2)"
        using window_numbered [OF ok(1,2) rw [unfolded q], of xfer] False by (auto simp: st_def)
      let ?w = "xretry_enter xops False w2"
      have inv: "send_inv xfer bl k st (vw ?w)" using num(3) by simp
      have "resend_window xfer xio st 0 ?w = (out, w')"
        using run rw q False num(1) x by (simp add: open_window_def st_def)
      from resend_window_spec [OF inv x this] num(2) show ?thesis by (simp add: sends_only_def)
    qed
  qed
qed

lemma find_acked_spec:
  assumes "window_at roll bl k pc (vw w)" "\<forall>n \<in> set ns. n < pc"
  shows "\<exists>r. find_acked xio ns b w = (Inr r, w)
     \<and> (r = None \<longrightarrow> (\<forall>n \<in> set ns. b \<noteq> seqno roll (k + n)))
     \<and> (\<forall>n. r = Some n \<longrightarrow> n \<in> set ns \<and> b = seqno roll (k + n))"
  using assms(2)
proof (induction ns)
  case (Cons n ns)
  have ok: "src_ok (vw w)" using assms(1) by (simp add: window_at_def)
  have n: "n < length (held (vw w))" "held (vw w) ! n = block_packet roll bl (k + n)"
    using window_nth [OF assms(1)] Cons.prems by simp_all
  obtain dp where dp: "read_packet xio n w = (Some dp, w)" "th_block (mload xio dp w) = seqno roll (k + n)"
    by (rule packet_heldE [OF ok n(1)]) (simp add: n(2) block_packet_def)
  obtain r where "find_acked xio ns b w = (Inr r, w)"
      "r = None \<longrightarrow> (\<forall>n \<in> set ns. b \<noteq> seqno roll (k + n))"
      "\<forall>n. r = Some n \<longrightarrow> n \<in> set ns \<and> b = seqno roll (k + n)"
    using Cons by auto
  with dp show ?case by (cases "b = seqno roll (k + n)") auto
qed simp

lemma sum_lengths_spec:
  assumes "window_at roll bl k pc (vw w)" "j \<le> pc"
  shows "sum_lengths xio [j..<pc] byts w
     = (byts + of_nat (length (concat (take (pc - j) (drop (k + j) bl)))), w)"
  using assms(2)
proof (induction "pc - j" arbitrary: j byts)
  case 0
  then show ?case by simp
next
  case (Suc d)
  then have j: "j < pc" by simp
  have ok: "src_ok (vw w)" using assms(1) by (simp add: window_at_def)
  have len: "read_length xio j w = (int (length (block_packet roll bl (k + j))), w)"
    using length_held [OF ok] window_nth [OF assms(1) j] by simp
  have "k + j < length bl" using assms(1) j by (simp add: window_at_def)
  then have "take (pc - j) (drop (k + j) bl) = bl ! (k + j) # take (pc - Suc j) (drop (k + Suc j) bl)"
    using j by (simp add: Cons_nth_drop_Suc [symmetric] Suc_diff_Suc [symmetric])
  moreover have "[j..<pc] = j # [Suc j..<pc]" using j by (simp add: upt_conv_Cons)
  ultimately show ?case
    using Suc.hyps(1) [of "Suc j"] Suc.hyps(2) len j by (simp add: block_packet_def add.assoc)
qed

text \<open>
  After a step the window is the same one, or an ACK of its last block moved it; the
  transfer ends well only with the ACK of the last block of all.
\<close>

definition send_next ::
  "'a world_scheme tftp_xfer \<Rightarrow> char list list \<Rightarrow> nat \<Rightarrow> nat \<Rightarrow> recv_event \<Rightarrow> send_state outcome \<Rightarrow> 'v
     \<Rightarrow> bool" where
  "send_next xfer bl k pc ev out v \<longleftrightarrow>
     (case out of
        Waiting st \<Rightarrow>
          send_inv xfer bl k st v
          \<or> (is_packet ACK (seqno (rollover xfer) (k + pc - 1)) ev \<and> k + pc < length bl
              \<and> send_inv xfer bl (k + pc) st v)
      | Finished r \<Rightarrow>
          status r = TFTP_XFER_OK \<longrightarrow>
            is_packet ACK (seqno (rollover xfer) (length bl - 1)) ev \<and> k + pc = length bl
            \<and> res_bytes r = of_nat (length (concat bl)))"

lemma send_out_next: "send_out xfer bl k out v \<Longrightarrow> send_next xfer bl k pc ev out v"
  by (cases out) (simp_all add: send_out_def send_next_def)

lemma window_acked_spec:
  assumes inv: "send_inv xfer bl k st (vw w)" and x: "x_ops xfer = xops"
    and ev: "is_packet ACK (seqno (rollover xfer) (k + s_packet_count st - 1)) ev"
    and run: "window_acked xfer xio st w = (out, w')"
  shows "sends_only (all_blocks xfer bl) w w' \<and> send_next xfer bl k (s_packet_count st) ev out (vw w')"
proof -
  let ?pc = "s_packet_count st" and ?w = "read_release xio w"
  have win: "window_at (rollover xfer) bl k ?pc (vw w)" using inv by (simp add: send_inv_def)
  have bytes: "sum_lengths xio [0..<?pc] (s_bytes st) w = (of_nat (length (concat (take (k + ?pc) bl))), w)"
    using sum_lengths_spec [OF win, of 0] inv by (simp add: send_inv_def take_add)
  have rel: "src_ok (vw ?w)" "sent ?w = sent w" "left (vw ?w) = drop (k + ?pc) bl"
    using release_ok [of w] win by (simp_all add: window_at_def add.commute)
  show ?thesis
  proof (cases "k + ?pc = length bl")
    case True
    then have "xfinish xfer TFTP_XFER_OK 0 (of_nat (length (concat bl))) None 0 0 ?w = (out, w')"
      using run bytes inv by (simp add: window_acked_def send_inv_def)
    from xfinishD [OF this x] True ev rel show ?thesis
      by (auto simp: send_next_def sends_only_def)
  next
    case False
    then have lt: "k + ?pc < length bl" using win by (simp add: window_at_def)
    have "open_window xfer xio (seqno (rollover xfer) (k + ?pc))
        (of_nat (length (concat (take (k + ?pc) bl)))) ?w = (out, w')"
      using run bytes inv False by (simp add: window_acked_def send_inv_def)
    from open_window_spec [OF rel(1) rel(3) lt x this] ev lt rel(2) show ?thesis
      by (cases out) (auto simp: send_next_def send_out_def sends_only_def)
  qed
qed

lemma send_packet_in_spec:
  assumes inv: "send_inv xfer bl k st (vw w)" and x: "x_ops xfer = xops" and n: "4 \<le> n"
    and run: "send_packet_in xfer xio st n ap w = (out, w')"
  shows "sends_only (all_blocks xfer bl) w w'
     \<and> send_next xfer bl k (s_packet_count st) (RecvRet n ap) out (vw w')"
proof -
  let ?pc = "s_packet_count st"
  have win: "window_at (rollover xfer) bl k ?pc (vw w)" using inv by (simp add: send_inv_def)
  then have ok: "src_ok (vw w)" and pc: "0 < ?pc" by (simp_all add: window_at_def)
  then have last: "?pc - 1 < length (held (vw w))"
      "held (vw w) ! (?pc - 1) = block_packet (rollover xfer) bl (k + ?pc - 1)"
    using window_nth [OF win, of "?pc - 1"] by simp_all
  have tb: "th_block (held (vw w) ! (?pc - 1)) = seqno (rollover xfer) (k + ?pc - 1)"
    using last(2) by (simp add: block_packet_def)
  obtain dp where dp: "read_packet xio (?pc - 1) w = (Some dp, w)"
      "th_block (mload xio dp w) = seqno (rollover xfer) (k + ?pc - 1)"
    by (rule packet_heldE [OF ok last(1)]) (use tb in simp)
  have stay: ?thesis if "out = Waiting st" "w' = w"
    using that inv by (simp add: send_next_def sends_only_def)
  have again: ?thesis if "resend_window xfer xio st j w = (out, w')" for j
    using resend_window_spec [OF inv x that] send_out_next by blast
  consider (err) "th_opcode ap = ERROR" | (acked) "th_opcode ap = ACK" "th_block ap = seqno (rollover xfer) (k + ?pc - 1)"
    | (oack) "th_opcode ap = OACK" "resend_oack xfer"
    | (ack) "th_opcode ap = ACK" "th_block ap \<noteq> seqno (rollover xfer) (k + ?pc - 1)"
    | (other) "th_opcode ap \<noteq> ERROR" "th_opcode ap \<noteq> ACK" "\<not> (th_opcode ap = OACK \<and> resend_oack xfer)"
    by blast
  then show ?thesis
  proof cases
    case err
    then have "xfinish xfer TFTP_XFER_PEER_ERROR 0 (s_bytes st) (Some ap) n 0 w = (out, w')"
      using run by (simp add: send_packet_in_def)
    from xfinishD [OF this x] show ?thesis by (auto simp: send_next_def sends_only_def)
  next
    case acked
    then have "window_acked xfer xio st w = (out, w')" using run dp by (simp add: send_packet_in_def)
    then show ?thesis using acked n by (intro window_acked_spec [OF inv x]) simp_all
  next
    case oack
    then show ?thesis using run dp by (intro again) (simp add: send_packet_in_def)
  next
    case ack
    have "\<forall>n \<in> set [0..<?pc - 1]. n < ?pc" by auto
    from find_acked_spec [OF win this, of "th_block ap"] obtain r
      where r: "find_acked xio [0..<?pc - 1] (th_block ap) w = (Inr r, w)" by blast
    show ?thesis
    proof (cases r)
      case None
      then show ?thesis using run dp ack r by (intro stay) (simp_all add: send_packet_in_def)
    next
      case (Some j)
      then show ?thesis using run dp ack r by (intro again [of "j + 1"]) (simp add: send_packet_in_def)
    qed
  next
    case other
    then show ?thesis using run dp by (intro stay) (auto simp: send_packet_in_def)
  qed
qed

lemma send_step_spec:
  assumes inv: "send_inv xfer bl k st (vw w)" and x: "x_ops xfer = xops"
    and run: "send_step xfer xio st ev w = (out, w')"
  shows "sends_only (all_blocks xfer bl) w w' \<and> send_next xfer bl k (s_packet_count st) ev out (vw w')"
proof (cases ev)
  case (RecvRet n ap)
  show ?thesis
  proof (cases "n < 4")
    case True
    then show ?thesis using run RecvRet inv by (auto simp: send_step_def send_next_def sends_only_def)
  next
    case False
    let ?w = "xreceived xops ap n w"
    have run': "send_packet_in xfer xio st n ap ?w = (out, w')"
      using run RecvRet False x by (simp add: send_step_def)
    have inv': "send_inv xfer bl k st (vw ?w)" using inv by simp
    have "sends_only (all_blocks xfer bl) ?w w'
        \<and> send_next xfer bl k (s_packet_count st) (RecvRet n ap) out (vw w')"
      using send_packet_in_spec [OF inv' x _ run'] False by simp
    then show ?thesis using RecvRet by (simp add: sends_only_def)
  qed
next
  case (RecvFail e)
  then have "xfail xfer TFTP_XFER_RECV_ERROR (s_bytes st) (w\<lparr>errno := e\<rparr>) = (out, w')"
    using run by (simp add: send_step_def)
  from xfailD [OF this x] show ?thesis by (auto simp: send_next_def sends_only_def)
next
  case RecvTimeout
  let ?w = "xretry_enter xops True w"
  have "resend_window xfer xio st 0 ?w = (out, w')" using run RecvTimeout x by (simp add: send_step_def)
  moreover have "send_inv xfer bl k st (vw ?w)" using inv by simp
  ultimately have "sends_only (all_blocks xfer bl) ?w w' \<and> send_out xfer bl k out (vw w')"
    using resend_window_spec x by blast
  then show ?thesis using send_out_next by (simp add: sends_only_def)
qed

lemma tftp_xfer_send_spec:
  assumes ok: "src_ok (vw w)" "left (vw w) = bl" "bl \<noteq> []"
    and x: "x_ops xfer = xops" "x_io_ops xfer = Some xio"
    and run: "tftp_xfer_send xfer w = (out, w')"
  shows "sends_only (all_blocks xfer bl) w w' \<and> send_out xfer bl 0 out (vw w')"
  using open_window_spec [of w 0 bl xfer out w'] assms by (simp add: tftp_xfer_send_def)

end

subsection \<open>The receiving side\<close>

text \<open>
  The writing adapter: \<open>accepted v x\<close> says that the data published so far is \<open>x\<close>, and
  \<open>complete v x\<close> that all of \<open>x\<close> has been converted, written and flushed.
\<close>

locale xfer_sink =
  fixes xio :: "'a world_scheme tftp_xfer_io_ops"
    and vw :: "'a world_scheme \<Rightarrow> 'v"
    and sent :: "'a world_scheme \<Rightarrow> packet list"
    and snk_ok :: "'v \<Rightarrow> bool"
    and cap :: "'v \<Rightarrow> nat"
    and reserved :: "'v \<Rightarrow> nat \<Rightarrow> bool"
    and accepted :: "'v \<Rightarrow> char list \<Rightarrow> bool"
    and drained :: "'v \<Rightarrow> bool"
    and complete :: "'v \<Rightarrow> char list \<Rightarrow> bool"
  assumes reserve_ok: "snk_ok (vw w) \<Longrightarrow> write_reserve xio w = (Some dp, w') \<Longrightarrow>
          snk_ok (vw w') \<and> reserved (vw w') dp \<and> cap (vw w') = cap (vw w)
          \<and> (\<forall>x. accepted (vw w) x \<longrightarrow> accepted (vw w') x)"
    and reserve_sent: "sent (snd (write_reserve xio w)) = sent w"
    and publish_ok: "snk_ok (vw w) \<Longrightarrow> reserved (vw w) dp \<Longrightarrow> 4 \<le> length p \<Longrightarrow> length p \<le> cap (vw w) + 4 \<Longrightarrow>
          write_publish xio (int (length p) - 4) (mstore xio dp p w) = (r, w') \<Longrightarrow> 0 \<le> r \<Longrightarrow>
          snk_ok (vw w') \<and> cap (vw w') = cap (vw w)
          \<and> (\<forall>x. accepted (vw w) x \<longrightarrow> accepted (vw w') (x @ th_data p))"
    and publish_sent: "sent (snd (write_publish xio n (mstore xio dp p w))) = sent w"
    and drain_ok: "snk_ok (vw w) \<Longrightarrow> write_drain xio w = (r, w') \<Longrightarrow> 0 \<le> r \<Longrightarrow>
          snk_ok (vw w') \<and> cap (vw w') = cap (vw w) \<and> drained (vw w')
          \<and> (\<forall>x. accepted (vw w) x \<longrightarrow> accepted (vw w') x)"
    and drain_sent: "sent (snd (write_drain xio w)) = sent w"
    and finish_some: "write_finish xio \<noteq> None"
    and finish_ok: "snk_ok (vw w) \<Longrightarrow> drained (vw w) \<Longrightarrow> the (write_finish xio) w = (r, w') \<Longrightarrow> 0 \<le> r \<Longrightarrow>
          accepted (vw w) x \<Longrightarrow> complete (vw w') x"
    and finish_sent: "sent (snd (the (write_finish xio) w)) = sent w"

locale xfer_receiver =
  xfer_transport xops vw sent
  + xfer_sink xio vw sent snk_ok cap reserved accepted drained complete
  for xops :: "'a world_scheme tftp_xfer_ops"
    and xio :: "'a world_scheme tftp_xfer_io_ops"
    and vw :: "'a world_scheme \<Rightarrow> 'v"
    and sent :: "'a world_scheme \<Rightarrow> packet list"
    and snk_ok :: "'v \<Rightarrow> bool"
    and cap :: "'v \<Rightarrow> nat"
    and reserved :: "'v \<Rightarrow> nat \<Rightarrow> bool"
    and accepted :: "'v \<Rightarrow> char list \<Rightarrow> bool"
    and drained :: "'v \<Rightarrow> bool"
    and complete :: "'v \<Rightarrow> char list \<Rightarrow> bool"
begin

text \<open>The receiver has accepted the first \<open>m\<close> blocks, all full, with the data \<open>x\<close>.\<close>

definition recv_inv :: "'a world_scheme tftp_xfer \<Rightarrow> nat \<Rightarrow> char list \<Rightarrow> recv_state \<Rightarrow> 'v \<Rightarrow> bool" where
  "recv_inv xfer m x st v \<longleftrightarrow>
     snk_ok v \<and> cap v = blocksize xfer \<and> reserved v (r_dp st) \<and> accepted v x
     \<and> r_block st = seqno (rollover xfer) m
     \<and> r_last_received st \<in> insert 0 (seqno (rollover xfer) ` {..<m})
     \<and> r_last_acked st \<in> insert 0 (seqno (rollover xfer) ` {..<m})
     \<and> unat (r_bytes st) = length x \<and> r_bytes st \<le> max_bytes xfer
     \<and> blocksize xfer < 2 ^ 31"

text \<open>The packets the receiver may send before it has accepted block \<open>m\<close>.\<close>

definition acks_below :: "'a world_scheme tftp_xfer \<Rightarrow> recv_state \<Rightarrow> nat \<Rightarrow> packet set" where
  "acks_below xfer st m =
     ack_packet ` insert 0 (seqno (rollover xfer) ` {..<m}) \<union> set_option (r_reply st)"

lemma recv_wait_spec:
  assumes inv: "recv_inv xfer m x st (vw w)" and x: "x_ops xfer = xops"
    and run: "recv_wait xfer restarted st w = (out, w')"
  shows "sends_only (acks_below xfer st m) w w'
     \<and> (\<forall>st'. out = Waiting st' \<longrightarrow> st' = st \<and> vw w' = vw w)
     \<and> (\<forall>r. out = Finished r \<longrightarrow> status r \<noteq> TFTP_XFER_OK)"
proof -
  let ?w1 = "xretry_enter xops restarted w"
  let ?p = "case r_reply st of Some reply \<Rightarrow> reply | None \<Rightarrow> ack_packet (r_last_acked st)"
  have p: "?p \<in> acks_below xfer st m"
    using inv by (cases "r_reply st") (auto simp: acks_below_def recv_inv_def)
  obtain r w2 where snd: "xsend xops ?p ?w1 = (r, w2)" by (metis surj_pair)
  have w2: "vw w2 = vw w" "sends_only (acks_below xfer st m) w w2"
    using send_vw [of ?p ?w1] send_subset [of ?p ?w1] send_grows [of ?w1 ?p] snd p
    by (auto simp: sends_only_def)
  consider "r_reply st = None" "\<not> restarted" | "r_reply st \<noteq> None \<or> restarted" "0 \<le> r"
    | "r_reply st \<noteq> None \<or> restarted" "r < 0" by fastforce
  then show ?thesis
  proof cases
    case 1
    with run x have "out = Waiting st" "w' = xwait_begin xops ?w1"
      by (simp_all add: recv_wait_def recv_retry_def)
    then show ?thesis by (simp add: sends_only_def)
  next
    case 2
    with run x snd have "out = Waiting st" "w' = xwait_begin xops w2"
      by (auto simp: recv_wait_def recv_retry_def)
    then show ?thesis using w2 by (simp add: sends_only_def)
  next
    case 3
    with run x snd have "xfail xfer TFTP_XFER_SEND_ERROR (r_bytes st) w2 = (out, w')"
      by (auto simp: recv_wait_def recv_retry_def split: prod.splits)
    from xfailD [OF this x] w2 show ?thesis by (auto simp: sends_only_def)
  qed
qed

text \<open>An ACK of a window is sent only after it is drained, that of the last after the flush.\<close>

lemma recv_ack_window_spec:
  assumes ok: "snk_ok (vw w)" "accepted (vw w) y" and x: "x_ops xfer = xops"
    and run: "recv_ack_window xfer xio fin st w = (res, w')"
  shows "sends_only {ack_packet (r_last_acked st)} w w'
     \<and> (res = Inl () \<longrightarrow> \<not> fin \<and> snk_ok (vw w') \<and> accepted (vw w') y \<and> cap (vw w') = cap (vw w))
     \<and> (\<forall>out. res = Inr out \<longrightarrow> (\<exists>r. out = Finished r \<and> (status r = TFTP_XFER_OK \<longrightarrow> fin \<and> complete (vw w') y)))
     \<and> (fin \<longrightarrow> sent w' = sent w \<or> complete (vw w') y)"
proof -
  let ?a = "ack_packet (r_last_acked st)"
  have failed: ?thesis
    if h1: "(case f of (out, w'') \<Rightarrow> (Inr out, w'')) = (res, w')"
      and h2: "f = xfail_eio xfer e b v \<or> f = xfail xfer e b v" "e \<noteq> TFTP_XFER_OK"
      and h3: "sends_only {?a} w v" "fin \<longrightarrow> sent v = sent w \<or> complete (vw v) y"
    for f :: "recv_state outcome \<times> 'a world_scheme" and e b v
  proof -
    obtain out where res: "f = (out, w')" "res = Inr out" using h1 by (cases f) auto
    have "sent w' = sent v \<and> vw w' = vw v \<and> (\<exists>r. out = Finished r \<and> status r = e)"
      using h2(1) res(1) xfail_eioD [OF _ x] xfailD [OF _ x] by metis
    with h2 h3 res show ?thesis by (auto simp: sends_only_def)
  qed
  obtain r1 w1 where d: "write_drain xio w = (r1, w1)" by (metis surj_pair)
  have s1: "sent w1 = sent w" using drain_sent [of w] d by simp
  show ?thesis
  proof (cases "r1 < 0")
    case True
    then show ?thesis
      using run d s1 by (intro failed [of _ TFTP_XFER_WRITE_ERROR "r_bytes st" w1])
        (auto simp: recv_ack_window_def sends_only_def)
  next
    case r1: False
    note D = drain_ok [OF ok(1) d]
    obtain r2 w2 where f: "(if fin then the (write_finish xio) w1 else (0, w1)) = (r2, w2)"
      by (metis surj_pair)
    have s2: "sent w2 = sent w" using finish_sent [of w1] f s1 by (auto split: if_splits)
    show ?thesis
    proof (cases "r2 < 0")
      case True
      then show ?thesis
        using run d f r1 s2 by (intro failed [of _ TFTP_XFER_WRITE_ERROR "r_bytes st" w2])
          (auto simp: recv_ack_window_def sends_only_def)
    next
      case r2: False
      have c: "fin \<Longrightarrow> complete (vw w2) y" "\<not> fin \<Longrightarrow> w2 = w1"
        using finish_ok [of w1 r2 w2 y] D r1 r2 f ok(2) by (auto split: if_splits)
      obtain r3 w3 where sd: "xsend xops ?a w2 = (r3, w3)" by (metis surj_pair)
      have s3: "vw w3 = vw w2" "sends_only {?a} w w3"
        using send_vw [of ?a w2] send_subset [of ?a w2] send_grows [of w2 ?a] sd s2
        by (auto simp: sends_only_def)
      show ?thesis
      proof (cases "r3 < 0")
        case True
        then show ?thesis
          using run d f r1 r2 sd x s3 c by (intro failed [of _ TFTP_XFER_SEND_ERROR "r_bytes st" w3])
            (auto simp: recv_ack_window_def)
      next
        case r3: False
        show ?thesis
        proof (cases fin)
          case True
          obtain out where "xfinish xfer TFTP_XFER_OK 0 (r_bytes st) None 0 (r_last_acked st) w3 = (out, w')"
              "res = Inr out"
            using run d f r1 r2 r3 sd x True by (auto simp: recv_ack_window_def split: prod.splits)
          from xfinishD [OF this(1) x] this(2) s3 c True show ?thesis by (auto simp: sends_only_def)
        next
          case False
          then have "res = Inl ()" "w' = w3"
            using run d f r1 r2 r3 sd x by (auto simp: recv_ack_window_def)
          then show ?thesis using False s3 c D r1 ok(2) by auto
        qed
      qed
    qed
  qed
qed

text \<open>
  After an accepted packet with data \<open>d\<close>: the next block is awaited, or the transfer is
  over, well only after a short block whose data is all in the file.
\<close>

definition accept_next ::
  "'a world_scheme tftp_xfer \<Rightarrow> nat \<Rightarrow> char list \<Rightarrow> recv_state \<Rightarrow> char list \<Rightarrow> 'a world_scheme
     \<Rightarrow> recv_state outcome \<Rightarrow> 'a world_scheme \<Rightarrow> bool" where
  "accept_next xfer m x st d w out w' \<longleftrightarrow>
     (case out of
        Waiting st' \<Rightarrow>
          length d = blocksize xfer \<and> recv_inv xfer (Suc m) (x @ d) st' (vw w') \<and> r_reply st' = None
          \<and> sends_only (acks_below xfer st (Suc m)) w w'
      | Finished r \<Rightarrow>
          (status r = TFTP_XFER_OK \<longrightarrow> length d < blocksize xfer \<and> complete (vw w') (x @ d))
          \<and> (sends_only (acks_below xfer st m) w w'
             \<or> sends_only (acks_below xfer st (Suc m)) w w'
               \<and> (length d < blocksize xfer \<longrightarrow> complete (vw w') (x @ d))))"

lemma accept_next_stop:
  assumes "sent w' = sent w1" "sends_only (acks_below xfer st m) w w1" "status r \<noteq> TFTP_XFER_OK"
  shows "accept_next xfer m x st d w (Finished r) w'"
  using assms by (simp add: accept_next_def sends_only_def)

lemma acks_below_mono: "acks_below xfer st m \<subseteq> acks_below xfer st (Suc m)"
  by (auto simp: acks_below_def)

lemma accept_continue:
  assumes ok: "snk_ok (vw w2)" "cap (vw w2) = blocksize xfer" "accepted (vw w2) (x @ d)"
    and full: "length d = blocksize xfer" and x: "x_ops xfer = xops"
    and st2: "r_reply st2 = None" "r_block st2 = seqno (rollover xfer) (Suc m)"
      "r_last_received st2 = seqno (rollover xfer) m"
      "r_last_acked st2 \<in> insert 0 (seqno (rollover xfer) ` {..<Suc m})"
      "unat (r_bytes st2) = length (x @ d)" "r_bytes st2 \<le> max_bytes xfer" "blocksize xfer < 2 ^ 31"
    and sub: "sends_only (acks_below xfer st (Suc m)) w w2"
    and run: "recv_reserve xfer xio st2 w2 = (out, w')"
  shows "accept_next xfer m x st d w out w'"
proof -
  obtain q w3 where rs: "write_reserve xio w2 = (q, w3)" by (metis surj_pair)
  have s3: "sent w3 = sent w2" using reserve_sent [of w2] rs by simp
  show ?thesis
  proof (cases q)
    case None
    with run rs have "xfail_eio xfer TFTP_XFER_WRITE_ERROR (r_bytes st2) w3 = (out, w')"
      by (simp add: recv_reserve_def)
    from xfail_eioD [OF this x] s3 sub full show ?thesis
      by (auto simp: accept_next_def sends_only_def)
  next
    case (Some dp)
    let ?st = "st2\<lparr>r_dp := dp\<rparr>"
    have inv: "recv_inv xfer (Suc m) (x @ d) ?st (vw w3)"
      using reserve_ok [OF ok(1) rs [unfolded Some]] ok st2 by (auto simp: recv_inv_def)
    have run': "recv_wait xfer False ?st w3 = (out, w')"
      using run rs Some by (simp add: recv_reserve_def)
    have "acks_below xfer ?st (Suc m) \<subseteq> acks_below xfer st (Suc m)"
      using st2(1) by (auto simp: acks_below_def)
    with recv_wait_spec [OF inv x run'] s3 sub have "sends_only (acks_below xfer st (Suc m)) w w'"
      by (auto simp: sends_only_def)
    with recv_wait_spec [OF inv x run'] inv full st2(1) show ?thesis
      by (cases out) (auto simp: accept_next_def)
  qed
qed

lemma recv_published_spec:
  assumes inv: "recv_inv xfer m x st (vw w0)" and x: "x_ops xfer = xops"
    and P: "snk_ok (vw w)" "cap (vw w) = blocksize xfer" "accepted (vw w) (x @ d)"
    and d: "length d \<le> blocksize xfer" "\<not> (of_nat (length d) :: u64) > max_bytes xfer - r_bytes st"
    and fin: "fin = (length d \<noteq> blocksize xfer)"
    and run: "recv_published xfer xio fin (recv_advance xfer (int (length d)) (seqno (rollover xfer) m) fin st) w
               = (out, w')"
  shows "accept_next xfer m x st d w out w'"
proof -
  let ?r = "rollover xfer"
  have small: "length d < 2 ^ 64" using d(1) inv by (simp add: recv_inv_def)
  have R: "unat (r_bytes st + of_nat (length d)) = length (x @ d)"
      "r_bytes st + of_nat (length d) \<le> max_bytes xfer"
    using word_add_room [OF _ d(2) small] inv by (simp_all add: recv_inv_def)
  obtain at_end st2 where adv: "recv_advance xfer (int (length d)) (seqno ?r m) fin st = (at_end, st2)"
    by (metis surj_pair)
  have st2: "r_reply st2 = None" "r_block st2 = seqno ?r (Suc m)" "r_last_received st2 = seqno ?r m"
      "r_last_acked st2 \<in> insert 0 (seqno ?r ` {..<Suc m})" "unat (r_bytes st2) = length (x @ d)"
      "r_bytes st2 \<le> max_bytes xfer" "blocksize xfer < 2 ^ 31"
    using R inv adv by (auto simp: recv_advance_def recv_inv_def Let_def split: if_splits)
  have acked: "at_end \<Longrightarrow> r_last_acked st2 = seqno ?r m" and fin_end: "fin \<Longrightarrow> at_end"
    using adv by (auto simp: recv_advance_def Let_def split: if_splits)
  show ?thesis
  proof (cases at_end)
    case False
    then have "recv_reserve xfer xio st2 w = (out, w')"
      using run adv by (simp add: recv_published_def)
    moreover have "length d = blocksize xfer" using False fin_end fin by blast
    ultimately show ?thesis
      using accept_continue [OF P _ x st2] by (simp add: sends_only_def)
  next
    case True
    obtain res w1 where aw: "recv_ack_window xfer xio fin st2 w = (res, w1)" by (metis surj_pair)
    note A = recv_ack_window_spec [OF P(1) P(3) x aw]
    have "ack_packet (r_last_acked st2) \<in> acks_below xfer st (Suc m)"
      using acked [OF True] by (auto simp: acks_below_def)
    then have only: "sends_only (acks_below xfer st (Suc m)) w w1"
      using A by (auto simp: sends_only_def)
    show ?thesis
    proof (cases res)
      case (Inl u)
      then have run': "recv_reserve xfer xio st2 w1 = (out, w')"
        using run adv aw True by (simp add: recv_published_def)
      have full: "length d = blocksize xfer" using A Inl fin by simp
      show ?thesis
        using accept_continue [OF _ _ _ full x st2 only run'] A Inl P by simp
    next
      case (Inr o')
      then have "out = o'" "w' = w1" using run adv aw True by (simp_all add: recv_published_def)
      moreover obtain r where "o' = Finished r" "status r = TFTP_XFER_OK \<longrightarrow> fin \<and> complete (vw w1) (x @ d)"
        using A Inr by blast
      ultimately show ?thesis
        using A only d(1) fin by (auto simp: accept_next_def sends_only_def)
    qed
  qed
qed

lemma recv_accept_spec:
  assumes inv: "recv_inv xfer m x st (vw w)" and x: "x_ops xfer = xops"
    and n: "4 \<le> n" "n \<le> int (blocksize xfer) + 4 \<longrightarrow> int (length pkt) = n"
    and blk: "th_block pkt = seqno (rollover xfer) m"
    and run: "recv_accept xfer xio st n pkt w = (out, w')"
  shows "accept_next xfer m x st (th_data pkt) w out w'"
proof -
  let ?d = "th_data pkt" and ?bs = "blocksize xfer" and ?r = "rollover xfer"
  have same: "sends_only (acks_below xfer st m) w w" by (simp add: sends_only_def)
  have over: ?thesis
    if "xfinish xfer e 0 (r_bytes st) None 0 0 w = (out, w')" "e \<noteq> TFTP_XFER_OK" for e
    using xfinishD [OF that(1) x] that(2) accept_next_stop [OF _ same] by auto
  show ?thesis
  proof (cases "n - 4 > int ?bs")
    case True
    then show ?thesis using run by (intro over [of TFTP_XFER_BAD_DATA]) (simp_all add: recv_accept_def)
  next
    case fits: False
    then have len: "int (length pkt) = n" "n - 4 = int (length ?d)" "length ?d \<le> ?bs"
      using n by (simp_all add: th_data_def)
    show ?thesis
    proof (cases "(of_nat (length ?d) :: u64) > max_bytes xfer - r_bytes st")
      case True
      then show ?thesis
        using run fits len by (intro over [of TFTP_XFER_SIZE_EXCEEDED]) (simp_all add: recv_accept_def Let_def)
    next
      case room: False
      let ?w = "mstore xio (r_dp st) pkt w"
      obtain r w1 where pub: "write_publish xio (int (length pkt) - 4) ?w = (r, w1)" by (metis surj_pair)
      have s1: "sent w1 = sent w" using publish_sent pub by (metis snd_conv)
      have pub': "write_publish xio (int (length ?d)) (mstore xio (r_dp st) (take (nat n) pkt) w) = (r, w1)"
        using pub len by (metis nat_int order_refl take_all)
      show ?thesis
      proof (cases "r < 0")
        case True
        then have "xfail_eio xfer TFTP_XFER_WRITE_ERROR (r_bytes st) w1 = (out, w')"
          using run fits len(2) room pub' by (simp add: recv_accept_def Let_def)
        from xfail_eioD [OF this x] s1 accept_next_stop show ?thesis by (auto simp: sends_only_def)
      next
        case published: False
        have P: "snk_ok (vw w1)" "cap (vw w1) = ?bs" "accepted (vw w1) (x @ ?d)"
          using publish_ok [of w "r_dp st" pkt r w1] pub published inv len n
          by (auto simp: recv_inv_def)
        have "recv_published xfer xio (length ?d \<noteq> ?bs)
            (recv_advance xfer (int (length ?d)) (seqno ?r m) (length ?d \<noteq> ?bs) st) w1 = (out, w')"
          using run fits len(2) room pub' published blk by (simp add: recv_accept_def Let_def)
        from recv_published_spec [OF inv x P len(3) room refl this] show ?thesis
          using s1 by (cases out) (simp_all add: accept_next_def sends_only_def)
      qed
    qed
  qed
qed

text \<open>
  One step of the receiver: it stays at block \<open>m\<close>, or the event was block \<open>m\<close> and it was
  accepted.
\<close>

definition recv_next ::
  "'a world_scheme tftp_xfer \<Rightarrow> nat \<Rightarrow> char list \<Rightarrow> recv_state \<Rightarrow> recv_event \<Rightarrow> 'a world_scheme
     \<Rightarrow> recv_state outcome \<Rightarrow> 'a world_scheme \<Rightarrow> bool" where
  "recv_next xfer m x st ev w out w' \<longleftrightarrow>
     (sends_only (acks_below xfer st m) w w'
        \<and> (case out of
             Waiting st' \<Rightarrow> st' = st \<and> recv_inv xfer m x st (vw w')
           | Finished r \<Rightarrow> status r \<noteq> TFTP_XFER_OK))
     \<or> (\<exists>n pkt. ev = RecvRet n pkt \<and> is_packet DATA (seqno (rollover xfer) m) ev
          \<and> accept_next xfer m x st (th_data pkt) w out w')"

lemma recv_step_spec:
  assumes inv: "recv_inv xfer m x st (vw w)" and x: "x_ops xfer = xops"
    and n: "\<And>n pkt. ev = RecvRet n pkt \<Longrightarrow> n \<le> int (blocksize xfer) + 4 \<longrightarrow> int (length pkt) = n"
    and run: "recv_step xfer xio st ev w = (out, w')"
  shows "recv_next xfer m x st ev w out w'"
proof (cases ev)
  case RecvTimeout
  with run have "recv_wait xfer True st w = (out, w')" by (simp add: recv_step_def)
  from recv_wait_spec [OF inv x this] inv show ?thesis
    by (cases out) (auto simp: recv_next_def)
next
  case (RecvFail e)
  with run have "xfail xfer TFTP_XFER_RECV_ERROR (r_bytes st) (w\<lparr>errno := e\<rparr>) = (out, w')"
    by (simp add: recv_step_def)
  from xfailD [OF this x] show ?thesis by (auto simp: recv_next_def sends_only_def)
next
  case (RecvRet n pkt)
  let ?w = "xreceived xops pkt n w"
  have inv': "recv_inv xfer m x st (vw ?w)" using inv by simp
  consider "n < 4" | "4 \<le> n" "th_opcode pkt = ERROR" | "4 \<le> n" "th_opcode pkt \<noteq> ERROR" "th_opcode pkt \<noteq> DATA"
    | "4 \<le> n" "th_opcode pkt = DATA" "th_block pkt = r_block st"
    | "4 \<le> n" "th_opcode pkt = DATA" "th_block pkt \<noteq> r_block st" by fastforce
  then show ?thesis
  proof cases
    case 1
    with run RecvRet have "out = Waiting st" "w' = w" by (simp_all add: recv_step_def)
    then show ?thesis using inv by (simp add: recv_next_def sends_only_def)
  next
    case 2
    with run RecvRet x have "xfinish xfer TFTP_XFER_PEER_ERROR 0 (r_bytes st) (Some pkt) n 0 ?w = (out, w')"
      by (simp add: recv_step_def)
    from xfinishD [OF this x] show ?thesis by (auto simp: recv_next_def sends_only_def)
  next
    case 3
    with run RecvRet x have "out = Waiting st" "w' = ?w" by (simp_all add: recv_step_def)
    then show ?thesis using inv' by (simp add: recv_next_def sends_only_def)
  next
    case 4
    with run RecvRet x have run': "recv_accept xfer xio st n pkt ?w = (out, w')"
      by (simp add: recv_step_def)
    have blk: "th_block pkt = seqno (rollover xfer) m" using 4 inv by (simp add: recv_inv_def)
    have "accept_next xfer m x st (th_data pkt) ?w out w'"
      using recv_accept_spec [OF inv' x 4(1) _ blk run'] n [OF RecvRet] by simp
    then have "accept_next xfer m x st (th_data pkt) w out w'"
      by (cases out) (simp_all add: accept_next_def sends_only_def)
    then show ?thesis using RecvRet 4 blk by (simp add: recv_next_def)
  next
    case 5
    let ?p = "ack_packet (r_last_received st)"
    have "?p \<in> acks_below xfer st m" using inv by (auto simp: acks_below_def recv_inv_def)
    moreover have "out = Waiting st" "w' = snd (xsend xops ?p ?w)"
      using 5 run RecvRet x by (simp_all add: recv_step_def)
    ultimately show ?thesis
      using send_subset [of ?p ?w] send_grows [of ?w ?p] inv' by (auto simp: recv_next_def sends_only_def)
  qed
qed

lemma recv_start_inv:
  assumes "snk_ok (vw w)" "cap (vw w) = blocksize xfer" "accepted (vw w) []" "blocksize xfer < 2 ^ 31"
    and "write_reserve xio w = (Some dp, w1)"
  shows "recv_inv xfer 0 [] \<lparr>r_dp = dp, r_block = 1, r_last_received = 0, r_last_acked = 0, r_bytes = 0,
           r_in_window = 0, r_reply = rep\<rparr> (vw w1)"
  using reserve_ok [OF assms(1) assms(5)] assms by (simp add: recv_inv_def)

lemma tftp_xfer_recv_spec:
  assumes ok: "snk_ok (vw w)" "cap (vw w) = blocksize xfer" "accepted (vw w) []" "blocksize xfer < 2 ^ 31"
    and x: "x_ops xfer = xops" "x_io_ops xfer = Some xio"
    and run: "tftp_xfer_recv xfer isz rep None w = (out, w')"
  shows "sends_only (insert (ack_packet 0) (set_option rep)) w w'
     \<and> (case out of
          Waiting st \<Rightarrow> recv_inv xfer 0 [] st (vw w') \<and> set_option (r_reply st) \<subseteq> set_option rep
        | Finished r \<Rightarrow> status r \<noteq> TFTP_XFER_OK)"
proof -
  obtain q w1 where rs: "write_reserve xio w = (q, w1)" by (metis surj_pair)
  have s1: "sent w1 = sent w" using reserve_sent [of w] rs by simp
  consider "isz < int (blocksize xfer) + 4" | "\<not> isz < int (blocksize xfer) + 4" "q = None"
    | dp where "\<not> isz < int (blocksize xfer) + 4" "q = Some dp" by blast
  then show ?thesis
  proof cases
    case 1
    with run x have "xfail xfer TFTP_XFER_WRITE_ERROR 0 (w\<lparr>errno := EINVAL\<rparr>) = (out, w')"
      by (simp add: tftp_xfer_recv_def)
    from xfailD [OF this x(1)] show ?thesis by (auto simp: sends_only_def)
  next
    case 2
    with run x rs finish_some have "xfail_eio xfer TFTP_XFER_WRITE_ERROR 0 w1 = (out, w')"
      by (simp add: tftp_xfer_recv_def)
    from xfail_eioD [OF this x(1)] s1 show ?thesis by (auto simp: sends_only_def)
  next
    case 3
    define rep' where "rep' = (case rep of Some p \<Rightarrow> if length p \<ge> 4 then rep else None | None \<Rightarrow> None)"
    define st where "st = \<lparr>r_dp = dp, r_block = 1, r_last_received = 0, r_last_acked = 0, r_bytes = 0,
      r_in_window = 0, r_reply = rep'\<rparr>"
    have inv: "recv_inv xfer 0 [] st (vw w1)"
      unfolding st_def using rs 3 by (intro recv_start_inv [OF ok]) simp
    have run': "recv_wait xfer False st w1 = (out, w')"
      using run x rs 3 finish_some by (simp add: tftp_xfer_recv_def st_def rep'_def)
    have "set_option rep' \<subseteq> set_option rep" by (cases rep) (auto simp: rep'_def)
    then have "acks_below xfer st 0 \<subseteq> insert (ack_packet 0) (set_option rep)" "set_option (r_reply st) \<subseteq> set_option rep"
      by (auto simp: acks_below_def st_def)
    with recv_wait_spec [OF inv x(1) run'] inv s1 show ?thesis
      by (cases out) (auto simp: sends_only_def)
  qed
qed

end

end
