(* ===== verification/Tftp_io.thy ===== *)
theory Tftp_io
  imports Xfer
begin

text \<open>
  The file I/O adapter of \<open>common/tftp-io.c\<close>, run without its helper thread: octet and
  netascii conversion of one packet, and the ring of packet slots behind
  \<open>tftp_io_xfer_ops\<close>. A pointer to a packet is its slot number; \<open>io_packets\<close> holds the
  bytes of every slot. The unsigned fields are natural numbers: the ring invariant
  \<open>ring_ok\<close> bounds each of them by the number of slots.

  The lemmas relate a packet conversion to the stream codecs \<open>encode\<close> and \<open>decode\<close>
  (so that conversion state is carried correctly from packet to packet) and the ring to the
  queue of its packets.
\<close>

section \<open>Definitions\<close>

subsection \<open>State\<close>

datatype slot_state = SLOT_EMPTY | SLOT_RESERVED | SLOT_READY | SLOT_WRITING

datatype io_direction = IO_READ | IO_WRITE

datatype tftp_io_ops = octet_io_ops | netascii_io_ops

record tftp_io =
  io_file :: FILE
  io_ops :: tftp_io_ops
  io_packets :: "packet list"
  io_lengths :: "int list"
  io_states :: "slot_state list"
  io_slots :: nat
  io_window :: nat
  io_blocksize :: nat
  io_packetsize :: nat
  io_head :: nat
  io_tail :: nat
  io_count :: nat
  io_held :: nat
  io_err :: int
  io_eof :: bool
  io_stopped :: bool
  io_threaded :: bool
  io_newline :: bool
  io_prevchar :: int
  io_write_cr :: bool

record io_world = world +
  io :: tftp_io

abbreviation CR :: char where
  "CR \<equiv> CHR 0x0D"

abbreviation LF :: char where
  "LF \<equiv> CHR 0x0A"

definition io_next :: "tftp_io \<Rightarrow> nat \<Rightarrow> nat" where
  "io_next s n = (if n + 1 = io_slots s then 0 else n + 1)"

definition io_error :: "int \<Rightarrow> tftp_io \<Rightarrow> tftp_io" where
  "io_error e s =
     (let e' = (if e = 0 then EIO else e)
      in if io_err s = 0 then s\<lparr>io_err := e'\<rparr> else s)"

text \<open>Storing data bytes and reading the first data bytes of a slot.\<close>

definition put_data :: "nat \<Rightarrow> char list \<Rightarrow> tftp_io \<Rightarrow> tftp_io" where
  "put_data n d s =
     s\<lparr>io_packets := (io_packets s)
         [n := take 4 (io_packets s ! n) @ d @ drop (4 + length d) (io_packets s ! n)]\<rparr>"

definition slot_data :: "tftp_io \<Rightarrow> nat \<Rightarrow> nat \<Rightarrow> char list" where
  "slot_data s n len = take len (th_data (io_packets s ! n))"

subsection \<open>Conversion of one packet\<close>

definition octet_read_packet :: "nat \<Rightarrow> 'a io_world_scheme \<Rightarrow> int \<times> 'a io_world_scheme" where
  "octet_read_packet dp w =
     (case fread (io_blocksize (io w)) (io_file (io w)) of
        (d, f) \<Rightarrow>
          let s = put_data dp d ((io w)\<lparr>io_file := f\<rparr>)
          in if length d < io_blocksize (io w) \<and> f_ferror f
             then (-1, w\<lparr>io := s, errno := EIO\<rparr>)
             else (int (length d), w\<lparr>io := s\<rparr>))"

fun netascii_fill :: "nat \<Rightarrow> char list \<Rightarrow> tftp_io \<Rightarrow> bool \<times> char list \<times> tftp_io" where
  "netascii_fill 0 p s = (True, p, s)"
| "netascii_fill (Suc i) p s =
     (if io_newline s then
        netascii_fill i (p @ [if io_prevchar s = 10 then LF else NUL]) (s\<lparr>io_newline := False\<rparr>)
      else
        (case getc (io_file s) of
           (None, f) \<Rightarrow> (\<not> f_ferror f, p, s\<lparr>io_file := f\<rparr>)
         | (Some c, f) \<Rightarrow>
             if c = LF \<or> c = CR
             then netascii_fill i (p @ [CR])
                    (s\<lparr>io_file := f, io_prevchar := of_char c, io_newline := True\<rparr>)
             else netascii_fill i (p @ [c]) (s\<lparr>io_file := f\<rparr>)))"

definition netascii_read_packet :: "nat \<Rightarrow> 'a io_world_scheme \<Rightarrow> int \<times> 'a io_world_scheme" where
  "netascii_read_packet dp w =
     (case netascii_fill (io_blocksize (io w)) [] (io w) of
        (ok, p, s) \<Rightarrow>
          let s' = put_data dp p s
          in if ok then (int (length p), w\<lparr>io := s'\<rparr>)
             else (-1, w\<lparr>io := s', errno := EIO\<rparr>))"

definition octet_write_packet ::
  "nat \<Rightarrow> int \<Rightarrow> 'a io_world_scheme \<Rightarrow> int \<times> 'a io_world_scheme" where
  "octet_write_packet dp cnt w =
     (case fwrite (slot_data (io w) dp (nat cnt)) (io_file (io w)) of
        (n, f) \<Rightarrow>
          if n \<noteq> nat cnt then (-1, w\<lparr>io := (io w)\<lparr>io_file := f\<rparr>, errno := EIO\<rparr>)
          else (cnt, w\<lparr>io := (io w)\<lparr>io_file := f\<rparr>\<rparr>))"

fun netascii_put :: "char list \<Rightarrow> tftp_io \<Rightarrow> bool \<times> tftp_io" where
  "netascii_put [] s = (True, s)"
| "netascii_put (c # p) s =
     (if io_write_cr s then
        (let (ok, f) = (if c = LF \<or> c = NUL then (True, io_file s) else putc CR (io_file s));
             c' = (if c = NUL then CR else c)
         in if \<not> ok then (False, s\<lparr>io_file := f\<rparr>)
            else (case putc c' f of
                    (ok', f') \<Rightarrow>
                      let s' = s\<lparr>io_write_cr := False, io_file := f'\<rparr>
                      in if ok' then netascii_put p s' else (False, s')))
      else if c = CR then netascii_put p (s\<lparr>io_write_cr := True\<rparr>)
      else (case putc c (io_file s) of
              (ok, f) \<Rightarrow>
                if ok then netascii_put p (s\<lparr>io_file := f\<rparr>)
                else (False, s\<lparr>io_file := f\<rparr>)))"

definition netascii_write_packet ::
  "nat \<Rightarrow> int \<Rightarrow> 'a io_world_scheme \<Rightarrow> int \<times> 'a io_world_scheme" where
  "netascii_write_packet dp cnt w =
     (case netascii_put (slot_data (io w) dp (nat cnt)) (io w) of
        (ok, s) \<Rightarrow> if ok then (cnt, w\<lparr>io := s\<rparr>) else (-1, w\<lparr>io := s, errno := EIO\<rparr>))"

definition octet_write_finish :: "'a io_world_scheme \<Rightarrow> int \<times> 'a io_world_scheme" where
  "octet_write_finish w =
     (case fflush (io_file (io w)) (w\<lparr>errno := 0\<rparr>) of
        (r, w') \<Rightarrow>
          if r \<noteq> 0 then (-1, if errno w' = 0 then w'\<lparr>errno := EIO\<rparr> else w')
          else (0, w'))"

definition netascii_write_finish :: "'a io_world_scheme \<Rightarrow> int \<times> 'a io_world_scheme" where
  "netascii_write_finish w =
     (let (ok, s) =
        (if io_write_cr (io w) then
           (case putc CR (io_file (io w)) of
              (ok, f) \<Rightarrow> if ok then (True, (io w)\<lparr>io_file := f, io_write_cr := False\<rparr>)
                         else (False, (io w)\<lparr>io_file := f\<rparr>))
         else (True, io w))
      in if \<not> ok then (-1, w\<lparr>io := s, errno := EIO\<rparr>)
         else (case fflush (io_file s) (w\<lparr>io := s, errno := 0\<rparr>) of
                 (r, w') \<Rightarrow>
                   if r \<noteq> 0 then (-1, if errno w' = 0 then w'\<lparr>errno := EIO\<rparr> else w')
                   else (0, w')))"

definition ops_read_packet :: "nat \<Rightarrow> 'a io_world_scheme \<Rightarrow> int \<times> 'a io_world_scheme" where
  "ops_read_packet dp w =
     (case io_ops (io w) of
        octet_io_ops \<Rightarrow> octet_read_packet dp w
      | netascii_io_ops \<Rightarrow> netascii_read_packet dp w)"

definition ops_write_packet ::
  "nat \<Rightarrow> int \<Rightarrow> 'a io_world_scheme \<Rightarrow> int \<times> 'a io_world_scheme" where
  "ops_write_packet dp cnt w =
     (case io_ops (io w) of
        octet_io_ops \<Rightarrow> octet_write_packet dp cnt w
      | netascii_io_ops \<Rightarrow> netascii_write_packet dp cnt w)"

definition ops_write_finish :: "'a io_world_scheme \<Rightarrow> int \<times> 'a io_world_scheme" where
  "ops_write_finish w =
     (case io_ops (io w) of
        octet_io_ops \<Rightarrow> octet_write_finish w
      | netascii_io_ops \<Rightarrow> netascii_write_finish w)"

subsection \<open>The ring of packets\<close>

definition packet_size :: "nat \<Rightarrow> nat" where
  "packet_size bs = unat ((of_nat bs + 5 :: u64) AND NOT 1)"

text \<open>
  \<open>thread_error\<close> stands for the result of the pthread calls that create the helper thread.
\<close>

definition io_start ::
  "FILE \<Rightarrow> bool \<Rightarrow> nat \<Rightarrow> nat \<Rightarrow> nat \<Rightarrow> io_direction \<Rightarrow> bool \<Rightarrow> int \<Rightarrow> 'a world_scheme
     \<Rightarrow> tftp_io option \<times> 'a world_scheme" where
  "io_start f convert nslots wnd bs direction threaded thread_error w =
     (if nslots = 0 \<or> bs = 0 \<or> (direction = IO_READ \<and> nslots < wnd)
      then (None, w\<lparr>errno := EINVAL\<rparr>)
      else if threaded \<and> thread_error \<noteq> 0 then (None, w\<lparr>errno := thread_error\<rparr>)
      else (Some \<lparr>io_file = f,
              io_ops = (if convert then netascii_io_ops else octet_io_ops),
              io_packets = replicate nslots (replicate (packet_size bs) NUL),
              io_lengths = replicate nslots 0,
              io_states = (if direction = IO_WRITE then replicate nslots SLOT_EMPTY else []),
              io_slots = nslots, io_window = wnd, io_blocksize = bs,
              io_packetsize = packet_size bs,
              io_head = 0, io_tail = 0, io_count = 0, io_held = 0, io_err = 0,
              io_eof = False, io_stopped = False, io_threaded = threaded,
              io_newline = False, io_prevchar = -1, io_write_cr = False\<rparr>, w))"

definition tftp_io_reader_start ::
  "FILE \<Rightarrow> bool \<Rightarrow> nat \<Rightarrow> nat \<Rightarrow> nat \<Rightarrow> bool \<Rightarrow> int \<Rightarrow> 'a world_scheme
     \<Rightarrow> tftp_io option \<times> 'a world_scheme" where
  "tftp_io_reader_start f convert wnd nslots bs threaded thread_error w =
     io_start f convert nslots wnd bs IO_READ threaded thread_error w"

definition tftp_io_writer_start ::
  "FILE \<Rightarrow> bool \<Rightarrow> nat \<Rightarrow> nat \<Rightarrow> bool \<Rightarrow> int \<Rightarrow> 'a world_scheme
     \<Rightarrow> tftp_io option \<times> 'a world_scheme" where
  "tftp_io_writer_start f convert nslots bs threaded thread_error w =
     io_start f convert nslots 0 bs IO_WRITE threaded thread_error w"

text \<open>One turn of the read loop: a packet is read into the tail slot, or the error is kept.\<close>

definition push_read :: "int \<Rightarrow> tftp_io \<Rightarrow> tftp_io" where
  "push_read len s =
     s\<lparr>io_lengths := (io_lengths s)[io_tail s := len + 4],
       io_tail := io_next s (io_tail s),
       io_count := io_count s + 1,
       io_eof := io_eof s \<or> len \<noteq> int (io_blocksize s)\<rparr>"

definition wants_packet :: "tftp_io \<Rightarrow> bool" where
  "wants_packet s \<longleftrightarrow> io_count s < io_window s \<and> \<not> io_eof s \<and> io_err s = 0"

lemma fill_frame:
  "netascii_fill i p s = (ok, p', s') \<Longrightarrow>
     io_count s' = io_count s \<and> io_window s' = io_window s \<and> io_slots s' = io_slots s
     \<and> io_packets s' = io_packets s \<and> io_lengths s' = io_lengths s \<and> io_head s' = io_head s
     \<and> io_tail s' = io_tail s \<and> io_blocksize s' = io_blocksize s
     \<and> io_packetsize s' = io_packetsize s \<and> io_held s' = io_held s \<and> io_err s' = io_err s
     \<and> io_eof s' = io_eof s \<and> io_ops s' = io_ops s \<and> io_states s' = io_states s
     \<and> io_threaded s' = io_threaded s"
  by (induction i p s arbitrary: ok p' s' rule: netascii_fill.induct)
     (auto split: if_splits prod.splits option.splits)

lemma ops_read_packet_frame:
  assumes "ops_read_packet dp w = (r, w')"
  shows "io_count (io w') = io_count (io w) \<and> io_window (io w') = io_window (io w)
     \<and> io_slots (io w') = io_slots (io w) \<and> io_lengths (io w') = io_lengths (io w)
     \<and> io_head (io w') = io_head (io w) \<and> io_tail (io w') = io_tail (io w)
     \<and> io_blocksize (io w') = io_blocksize (io w) \<and> io_packetsize (io w') = io_packetsize (io w)
     \<and> io_held (io w') = io_held (io w) \<and> io_err (io w') = io_err (io w)
     \<and> io_eof (io w') = io_eof (io w) \<and> io_ops (io w') = io_ops (io w)
     \<and> io_states (io w') = io_states (io w) \<and> io_threaded (io w') = io_threaded (io w)"
proof (cases "io_ops (io w)")
  case octet_io_ops
  with assms show ?thesis
    by (auto simp: ops_read_packet_def octet_read_packet_def put_data_def Let_def
             split: prod.splits if_splits)
next
  case netascii_io_ops
  obtain ok p s where f: "netascii_fill (io_blocksize (io w)) [] (io w) = (ok, p, s)"
    by (metis prod_cases3)
  from fill_frame [OF f] f assms netascii_io_ops show ?thesis
    by (auto simp: ops_read_packet_def netascii_read_packet_def put_data_def Let_def
             split: if_splits)
qed

lemma read_fill_decreases:
  assumes "wants_packet (io w)" "(len, w') = ops_read_packet dp w"
  shows "io_window (push_read len (io w')) - io_count (push_read len (io w'))
           < io_window (io w) - io_count (io w)"
  using assms ops_read_packet_frame [of dp w len w']
  by (simp add: wants_packet_def push_read_def diff_less_mono2)

function read_fill :: "'a io_world_scheme \<Rightarrow> 'a io_world_scheme" where
  "read_fill w =
     (if wants_packet (io w) then
        (case ops_read_packet (io_tail (io w)) w of
           (len, w') \<Rightarrow>
             if len < 0 then w'\<lparr>io := io_error (errno w') (io w')\<rparr>
             else read_fill (w'\<lparr>io := push_read len (io w')\<rparr>))
      else w)"
  by pat_completeness auto
termination
  by (relation "measure (\<lambda>w. io_window (io w) - io_count (io w))") (auto intro: read_fill_decreases)

declare read_fill.simps [simp del]

definition tftp_io_read_window :: "'a io_world_scheme \<Rightarrow> (nat \<times> bool) option \<times> 'a io_world_scheme" where
  "tftp_io_read_window w =
     (let w1 = read_fill w; s = io w1
      in if io_err s \<noteq> 0 then (None, w1\<lparr>errno := io_err s\<rparr>)
         else let h = (if io_count s < io_window s then io_count s else io_window s)
              in (Some (h, io_eof s \<and> h = io_count s), w1\<lparr>io := s\<lparr>io_held := h\<rparr>\<rparr>))"

definition tftp_io_read_packet :: "nat \<Rightarrow> 'a io_world_scheme \<Rightarrow> nat option \<times> 'a io_world_scheme" where
  "tftp_io_read_packet n w =
     (if n \<ge> io_held (io w) then (None, w\<lparr>errno := EINVAL\<rparr>)
      else (Some ((io_head (io w) + n) mod io_slots (io w)), w))"

definition tftp_io_read_length :: "nat \<Rightarrow> 'a io_world_scheme \<Rightarrow> int \<times> 'a io_world_scheme" where
  "tftp_io_read_length n w =
     (if n \<ge> io_held (io w) then (-1, w\<lparr>errno := EINVAL\<rparr>)
      else (io_lengths (io w) ! ((io_head (io w) + n) mod io_slots (io w)), w))"

fun release_loop :: "nat \<Rightarrow> tftp_io \<Rightarrow> tftp_io" where
  "release_loop 0 s = s"
| "release_loop (Suc k) s =
     release_loop k (s\<lparr>io_head := io_next s (io_head s), io_count := io_count s - 1, io_held := k\<rparr>)"

definition tftp_io_read_release :: "'a io_world_scheme \<Rightarrow> 'a io_world_scheme" where
  "tftp_io_read_release w = w\<lparr>io := release_loop (io_held (io w)) (io w)\<rparr>"

definition tftp_io_writer_reserve :: "'a io_world_scheme \<Rightarrow> nat option \<times> 'a io_world_scheme" where
  "tftp_io_writer_reserve w =
     (let s = io w
      in if io_states s ! io_tail s \<noteq> SLOT_EMPTY \<and> io_err s = 0 then (None, w\<lparr>errno := EIO\<rparr>)
         else if io_err s \<noteq> 0 then (None, w\<lparr>errno := io_err s\<rparr>)
         else (Some (io_tail s), w\<lparr>io := s\<lparr>io_states := (io_states s)[io_tail s := SLOT_RESERVED]\<rparr>\<rparr>))"

definition tftp_io_write_publish :: "int \<Rightarrow> 'a io_world_scheme \<Rightarrow> int \<times> 'a io_world_scheme" where
  "tftp_io_write_publish len w =
     (let s = io w
      in if len < 0 \<or> len > int (io_blocksize s) then (-1, w\<lparr>errno := EINVAL\<rparr>)
         else if io_states s ! io_tail s \<noteq> SLOT_RESERVED then (-1, w\<lparr>errno := EIO\<rparr>)
         else (0, w\<lparr>io := s\<lparr>io_lengths := (io_lengths s)[io_tail s := len],
                            io_states := (io_states s)[io_tail s := SLOT_READY],
                            io_tail := io_next s (io_tail s),
                            io_count := io_count s + 1\<rparr>\<rparr>))"

text \<open>One turn of the drain loop writes the head slot and frees it.\<close>

definition pop_written :: "tftp_io \<Rightarrow> tftp_io" where
  "pop_written s =
     s\<lparr>io_states := (io_states s)[io_head s := SLOT_EMPTY],
       io_head := io_next s (io_head s),
       io_count := io_count s - 1\<rparr>"

lemma put_frame:
  "netascii_put p s = (ok, s') \<Longrightarrow>
     io_count s' = io_count s \<and> io_window s' = io_window s \<and> io_slots s' = io_slots s
     \<and> io_packets s' = io_packets s \<and> io_lengths s' = io_lengths s \<and> io_head s' = io_head s
     \<and> io_tail s' = io_tail s \<and> io_blocksize s' = io_blocksize s
     \<and> io_packetsize s' = io_packetsize s \<and> io_err s' = io_err s \<and> io_held s' = io_held s
     \<and> io_ops s' = io_ops s \<and> io_states s' = io_states s
     \<and> io_threaded s' = io_threaded s"
  by (induction p s arbitrary: ok s' rule: netascii_put.induct)
     (auto simp: Let_def split: if_splits prod.splits)

lemma ops_write_packet_frame:
  assumes "ops_write_packet dp cnt w = (r, w')"
  shows "io_count (io w') = io_count (io w) \<and> io_window (io w') = io_window (io w)
     \<and> io_slots (io w') = io_slots (io w) \<and> io_packets (io w') = io_packets (io w)
     \<and> io_lengths (io w') = io_lengths (io w)
     \<and> io_head (io w') = io_head (io w) \<and> io_tail (io w') = io_tail (io w)
     \<and> io_blocksize (io w') = io_blocksize (io w) \<and> io_packetsize (io w') = io_packetsize (io w)
     \<and> io_err (io w') = io_err (io w) \<and> io_ops (io w') = io_ops (io w) \<and> io_held (io w') = io_held (io w)
     \<and> io_states (io w') = io_states (io w) \<and> io_threaded (io w') = io_threaded (io w)"
proof (cases "io_ops (io w)")
  case octet_io_ops
  with assms show ?thesis
    by (auto simp: ops_write_packet_def octet_write_packet_def split: prod.splits if_splits)
next
  case netascii_io_ops
  obtain ok s where f: "netascii_put (slot_data (io w) dp (nat cnt)) (io w) = (ok, s)"
    by (metis surj_pair)
  from put_frame [OF f] f assms netascii_io_ops show ?thesis
    by (auto simp: ops_write_packet_def netascii_write_packet_def split: if_splits)
qed

definition mark_writing :: "tftp_io \<Rightarrow> tftp_io" where
  "mark_writing s = s\<lparr>io_states := (io_states s)[io_head s := SLOT_WRITING]\<rparr>"

lemma drain_decreases:
  assumes "io_count (io w) \<noteq> 0"
    and "(r, w') = ops_write_packet dp len (w\<lparr>io := mark_writing (io w)\<rparr>)"
  shows "io_count (pop_written (io w')) < io_count (io w)"
  using assms ops_write_packet_frame [of dp len "w\<lparr>io := mark_writing (io w)\<rparr>" r w']
  by (simp add: mark_writing_def pop_written_def)

function drain_loop :: "'a io_world_scheme \<Rightarrow> 'a io_world_scheme" where
  "drain_loop w =
     (if io_count (io w) \<noteq> 0 \<and> io_err (io w) = 0 then
        (if io_states (io w) ! io_head (io w) \<noteq> SLOT_READY
         then w\<lparr>io := io_error EIO (io w)\<rparr>
         else let len = io_lengths (io w) ! io_head (io w)
              in (case ops_write_packet (io_head (io w)) len (w\<lparr>io := mark_writing (io w)\<rparr>) of
                    (r, w') \<Rightarrow>
                      if r \<noteq> len then w'\<lparr>io := io_error (errno w') (io w')\<rparr>
                      else drain_loop (w'\<lparr>io := pop_written (io w')\<rparr>)))
      else w)"
  by pat_completeness auto
termination
  by (relation "measure (\<lambda>w. io_count (io w))") (auto intro: drain_decreases)

declare drain_loop.simps [simp del]

definition tftp_io_write_drain :: "'a io_world_scheme \<Rightarrow> int \<times> 'a io_world_scheme" where
  "tftp_io_write_drain w =
     (let w1 = drain_loop w
      in if io_err (io w1) \<noteq> 0 then (-1, w1\<lparr>errno := io_err (io w1)\<rparr>)
         else (case fflush (io_file (io w1)) w1 of
                 (r, w2) \<Rightarrow>
                   if r = 0 then (0, w2)
                   else let e = (if errno w2 \<noteq> 0 then errno w2 else EIO)
                        in (-1, w2\<lparr>io := io_error e (io w2), errno := e\<rparr>)))"

definition tftp_io_write_finish :: "'a io_world_scheme \<Rightarrow> int \<times> 'a io_world_scheme" where
  "tftp_io_write_finish w =
     (case ops_write_finish w of
        (r, w1) \<Rightarrow>
          if r < 0 then
            let s = io_error (errno w1) (io w1)
            in (-1, w1\<lparr>io := s, errno := io_err s\<rparr>)
          else (0, w1))"

text \<open>
  The engine's accesses to packet memory: the bytes of a slot, and a copy of bytes to its
  start.
\<close>

definition mem_load :: "nat \<Rightarrow> 'a io_world_scheme \<Rightarrow> packet" where
  "mem_load dp w = io_packets (io w) ! dp"

definition mem_store :: "nat \<Rightarrow> packet \<Rightarrow> 'a io_world_scheme \<Rightarrow> 'a io_world_scheme" where
  "mem_store dp p w =
     w\<lparr>io := (io w)\<lparr>io_packets := (io_packets (io w))
        [dp := p @ drop (length p) (io_packets (io w) ! dp)]\<rparr>\<rparr>"

definition tftp_io_xfer_ops :: "'a io_world_scheme tftp_xfer_io_ops" where
  "tftp_io_xfer_ops =
     \<lparr>read_window = tftp_io_read_window,
      read_packet = tftp_io_read_packet,
      read_length = tftp_io_read_length,
      read_release = tftp_io_read_release,
      write_reserve = tftp_io_writer_reserve,
      write_publish = tftp_io_write_publish,
      write_drain = tftp_io_write_drain,
      write_finish = Some tftp_io_write_finish,
      mload = mem_load,
      mstore = mem_store\<rparr>"

subsection \<open>Stream codecs, chunks and queues\<close>

definition encode_char :: "char \<Rightarrow> char list" where
  "encode_char c = (if c = LF then [CR, LF] else if c = CR then [CR, NUL] else [c])"

definition encode :: "tftp_io_ops \<Rightarrow> char list \<Rightarrow> char list" where
  "encode m s = (case m of octet_io_ops \<Rightarrow> s | netascii_io_ops \<Rightarrow> concat (map encode_char s))"

text \<open>The netascii decoder with its pending carriage return, and its end of file.\<close>

fun decode_netascii :: "bool \<Rightarrow> char list \<Rightarrow> char list \<times> bool" where
  "decode_netascii cr [] = ([], cr)"
| "decode_netascii cr (c # s) =
     (if cr then
        (case decode_netascii False s of
           (t, b) \<Rightarrow> ((if c = LF then [LF] else if c = NUL then [CR] else [CR, c]) @ t, b))
      else if c = CR then decode_netascii True s
      else (case decode_netascii False s of (t, b) \<Rightarrow> (c # t, b)))"

definition decode :: "tftp_io_ops \<Rightarrow> char list \<Rightarrow> char list" where
  "decode m s =
     (case m of
        octet_io_ops \<Rightarrow> s
      | netascii_io_ops \<Rightarrow>
          (case decode_netascii False s of (t, b) \<Rightarrow> if b then t @ [CR] else t))"

text \<open>The blocks of a transfer: full ones and a last one that is shorter, perhaps empty.\<close>

function chunks :: "nat \<Rightarrow> char list \<Rightarrow> char list list" where
  "chunks b s = (if b = 0 \<or> length s < b then [s] else take b s # chunks b (drop b s))"
  by pat_completeness auto
termination
  by (relation "measure (\<lambda>(b, s). length s)") auto

declare chunks.simps [simp del]

text \<open>What a reader has still to deliver, and what a writer has accepted.\<close>

definition unread :: "tftp_io \<Rightarrow> char list" where
  "unread s =
     (if io_ops s = netascii_io_ops \<and> io_newline s
      then [if io_prevchar s = 10 then LF else NUL] else [])
     @ encode (io_ops s) (f_in (io_file s))"

fun decode_run :: "tftp_io_ops \<Rightarrow> bool \<Rightarrow> char list \<Rightarrow> char list \<times> bool" where
  "decode_run octet_io_ops cr s = (s, cr)"
| "decode_run netascii_io_ops cr s = decode_netascii cr s"

definition slot :: "tftp_io \<Rightarrow> nat \<Rightarrow> nat" where
  "slot s i = (io_head s + i) mod io_slots s"

definition ring_ok :: "tftp_io \<Rightarrow> bool" where
  "ring_ok s \<longleftrightarrow>
     0 < io_slots s \<and> io_head s < io_slots s \<and> io_count s \<le> io_slots s
     \<and> io_tail s = slot s (io_count s) \<and> io_held s \<le> io_count s
     \<and> length (io_packets s) = io_slots s \<and> length (io_lengths s) = io_slots s
     \<and> (\<forall>p \<in> set (io_packets s). length p = io_packetsize s)
     \<and> 0 < io_blocksize s \<and> io_blocksize s + 4 \<le> io_packetsize s"

definition read_ok :: "tftp_io \<Rightarrow> bool" where
  "read_ok s \<longleftrightarrow>
     ring_ok s \<and> io_window s \<le> io_slots s \<and> \<not> f_ferror (io_file s) \<and> io_err s = 0
     \<and> (\<forall>i < io_count s. 4 \<le> io_lengths s ! slot s i
          \<and> io_lengths s ! slot s i \<le> int (io_blocksize s) + 4)"

text \<open>The bytes of the i-th queued packet of a reader, header included.\<close>

definition queued :: "tftp_io \<Rightarrow> nat \<Rightarrow> packet" where
  "queued s i = take (nat (io_lengths s ! slot s i)) (io_packets s ! slot s i)"

definition held_packets :: "tftp_io \<Rightarrow> packet list" where
  "held_packets s = map (queued s) [0..<io_held s]"

definition read_queue :: "tftp_io \<Rightarrow> char list list" where
  "read_queue s = map (\<lambda>i. th_data (queued s i)) [0..<io_count s]"

definition blocks_left :: "tftp_io \<Rightarrow> char list list" where
  "blocks_left s =
     read_queue s @ (if io_eof s then [] else chunks (io_blocksize s) (unread s))"

definition write_ok :: "tftp_io \<Rightarrow> bool" where
  "write_ok s \<longleftrightarrow>
     ring_ok s \<and> length (io_states s) = io_slots s \<and> io_err s = 0 \<and> io_held s = 0
     \<and> (\<forall>i < io_count s. io_states s ! slot s i = SLOT_READY
          \<and> 0 \<le> io_lengths s ! slot s i \<and> io_lengths s ! slot s i \<le> int (io_blocksize s))
     \<and> (\<forall>i < io_slots s. io_count s < i \<longrightarrow> io_states s ! slot s i = SLOT_EMPTY)
     \<and> (io_count s < io_slots s \<longrightarrow>
          io_states s ! io_tail s = SLOT_EMPTY \<or> io_states s ! io_tail s = SLOT_RESERVED)"

definition write_block :: "tftp_io \<Rightarrow> nat \<Rightarrow> char list" where
  "write_block s i = slot_data s (slot s i) (nat (io_lengths s ! slot s i))"

definition write_queue :: "tftp_io \<Rightarrow> char list" where
  "write_queue s = concat (map (write_block s) [0..<io_count s])"

definition absorbed :: "tftp_io \<Rightarrow> char list \<times> bool" where
  "absorbed s =
     (case decode_run (io_ops s) (io_write_cr s) (write_queue s) of
        (t, b) \<Rightarrow> (f_out (io_file s) @ t, b))"

definition slot_reserved :: "tftp_io \<Rightarrow> nat \<Rightarrow> bool" where
  "slot_reserved s dp \<longleftrightarrow> dp = io_tail s \<and> io_states s ! io_tail s = SLOT_RESERVED"

definition data_accepted :: "tftp_io_ops \<Rightarrow> tftp_io \<Rightarrow> char list \<Rightarrow> bool" where
  "data_accepted m s x \<longleftrightarrow> io_ops s = m \<and> absorbed s = decode_run m False x"

definition data_complete :: "tftp_io_ops \<Rightarrow> tftp_io \<Rightarrow> char list \<Rightarrow> bool" where
  "data_complete m s x \<longleftrightarrow> io_ops s = m \<and> f_out (io_file s) = decode m x"

definition popped :: "tftp_io \<Rightarrow> tftp_io \<Rightarrow> bool" where
  "popped s s' \<longleftrightarrow>
     io_states s' = (io_states s)[io_head s := SLOT_EMPTY] \<and> io_lengths s' = io_lengths s
     \<and> io_packets s' = io_packets s \<and> io_slots s' = io_slots s \<and> io_count s' = io_count s - 1
     \<and> io_tail s' = io_tail s \<and> io_blocksize s' = io_blocksize s
     \<and> io_packetsize s' = io_packetsize s \<and> io_ops s' = io_ops s \<and> io_err s' = io_err s
     \<and> io_held s' = 0 \<and> io_head s' = io_next s (io_head s)"

section \<open>Lemmas\<close>

subsection \<open>Codecs and chunks\<close>

lemma decode_netascii_append:
  "decode_netascii cr (s @ t) =
     (case decode_netascii cr s of (u, b) \<Rightarrow>
        case decode_netascii b t of (v, b') \<Rightarrow> (u @ v, b'))"
  by (induction cr s rule: decode_netascii.induct) (auto split: prod.splits)

lemma decode_encode_char:
  "decode_netascii False (encode_char c @ s) =
     (case decode_netascii False s of (t, b) \<Rightarrow> (c # t, b))"
  by (auto simp: encode_char_def split: prod.splits)

lemma decode_encode_netascii:
  "decode_netascii False (concat (map encode_char s)) = (s, False)"
  by (induction s) (simp_all add: decode_encode_char)

lemma decode_encode: "decode m (encode m s) = s"
  by (cases m) (simp_all add: decode_def encode_def decode_encode_netascii)

lemma decode_run_append:
  "decode_run m cr (s @ t) =
     (if m = octet_io_ops then (s @ t, cr) else
      case decode_run m cr s of (u, b) \<Rightarrow>
        case decode_run m b t of (v, b') \<Rightarrow> (u @ v, b'))"
  by (cases m) (simp_all add: decode_netascii_append)

lemma chunks_short: "length s < b \<Longrightarrow> chunks b s = [s]"
  by (simp add: chunks.simps)

lemma chunks_full: "0 < b \<Longrightarrow> b \<le> length s \<Longrightarrow> chunks b s = take b s # chunks b (drop b s)"
  by (subst chunks.simps) simp

lemma concat_chunks: "concat (chunks b s) = s"
proof (induction b s rule: chunks.induct)
  case (1 b s)
  show ?case
  proof (cases "b = 0 \<or> length s < b")
    case True
    then have "chunks b s = [s]" by (subst chunks.simps) simp
    then show ?thesis by simp
  next
    case False
    with 1 show ?thesis by (simp add: chunks_full)
  qed
qed

lemma chunks_neq_Nil [simp]: "chunks b s \<noteq> []"
  by (subst chunks.simps) simp

lemma chunks_butlast: "0 < b \<Longrightarrow> c \<in> set (butlast (chunks b s)) \<Longrightarrow> length c = b"
proof (induction b s rule: chunks.induct)
  case (1 b s)
  show ?case
  proof (cases "length s < b")
    case True
    with "1.prems" show ?thesis by (simp add: chunks_short)
  next
    case False
    then have nb: "\<not> (b = 0 \<or> length s < b)" using "1.prems" by simp
    have "butlast (chunks b s) = take b s # butlast (chunks b (drop b s))"
      using False "1.prems"(1) by (simp add: chunks_full)
    then have "c = take b s \<or> c \<in> set (butlast (chunks b (drop b s)))" using "1.prems"(2) by simp
    with "1.IH" [OF nb "1.prems"(1)] False show ?thesis by (elim disjE) simp_all
  qed
qed

lemma chunks_last: "0 < b \<Longrightarrow> length (last (chunks b s)) < b"
proof (induction b s rule: chunks.induct)
  case (1 b s)
  show ?case
  proof (cases "length s < b")
    case True
    then show ?thesis by (simp add: chunks_short)
  next
    case False
    then have nb: "\<not> (b = 0 \<or> length s < b)" using "1.prems" by simp
    have "last (chunks b s) = last (chunks b (drop b s))"
      using False "1.prems"(1) by (simp add: chunks_full)
    with "1.IH" [OF nb "1.prems"(1)] show ?thesis by simp
  qed
qed

lemma length_chunks: "0 < b \<Longrightarrow> length (chunks b s) = length s div b + 1"
proof (induction b s rule: chunks.induct)
  case (1 b s)
  show ?case
  proof (cases "length s < b")
    case True
    then show ?thesis by (simp add: chunks_short)
  next
    case False
    then have nb: "\<not> (b = 0 \<or> length s < b)" using "1.prems" by simp
    have "chunks b s = take b s # chunks b (drop b s)"
      using False "1.prems" by (simp add: chunks_full)
    then show ?thesis using False "1.IH" [OF nb "1.prems"] "1.prems" by (simp add: le_div_geq)
  qed
qed

subsection \<open>Reading one packet\<close>

lemma unread_netascii:
  assumes "io_ops s = netascii_io_ops"
  shows "io_newline s \<Longrightarrow>
           unread s = (if io_prevchar s = 10 then LF else NUL) # unread (s\<lparr>io_newline := False\<rparr>)"
    and "\<not> io_newline s \<Longrightarrow> f_in (io_file s) = [] \<Longrightarrow> unread s = []"
    and "\<not> io_newline s \<Longrightarrow> f_in (io_file s) = c # r \<Longrightarrow> c = LF \<or> c = CR \<Longrightarrow> f_in f = r \<Longrightarrow>
           unread s = CR # unread (s\<lparr>io_file := f, io_prevchar := of_char c, io_newline := True\<rparr>)"
    and "\<not> io_newline s \<Longrightarrow> f_in (io_file s) = c # r \<Longrightarrow> \<not> (c = LF \<or> c = CR) \<Longrightarrow> f_in f = r \<Longrightarrow>
           unread s = c # unread (s\<lparr>io_file := f\<rparr>)"
  using assms by (auto simp: unread_def encode_def encode_char_def)

definition fill_post :: "nat \<Rightarrow> char list \<Rightarrow> tftp_io \<Rightarrow> bool \<times> char list \<times> tftp_io \<Rightarrow> bool" where
  "fill_post i p s r \<longleftrightarrow>
     (case r of (ok, p', s') \<Rightarrow>
        p' = p @ take i (unread s) \<and> unread s' = drop i (unread s)
        \<and> ok = (\<not> (length (unread s) < i \<and> f_in_error (io_file s)))
        \<and> f_in_error (io_file s') = f_in_error (io_file s) \<and> f_ferror (io_file s') = (\<not> ok))"

lemma fill_post_step:
  assumes "unread s = c # unread s1" "f_in_error (io_file s1) = f_in_error (io_file s)"
    and "fill_post i (p @ [c]) s1 r"
  shows "fill_post (Suc i) p s r"
  using assms by (cases r) (simp add: fill_post_def)

lemma netascii_fill_spec:
  assumes "io_ops s = netascii_io_ops" "\<not> f_ferror (io_file s)"
  shows "fill_post i p s (netascii_fill i p s)"
  using assms
proof (induction i p s rule: netascii_fill.induct)
  case (1 p s)
  then show ?case by (simp add: fill_post_def)
next
  case (2 i p s)
  show ?case
  proof (cases "io_newline s")
    case True
    let ?s = "s\<lparr>io_newline := False\<rparr>"
    have "fill_post i (p @ [if io_prevchar s = 10 then LF else NUL]) ?s
        (netascii_fill i (p @ [if io_prevchar s = 10 then LF else NUL]) ?s)"
      using 2 True by simp
    then have "fill_post (Suc i) p s
        (netascii_fill i (p @ [if io_prevchar s = 10 then LF else NUL]) ?s)"
      using unread_netascii(1) [OF 2(4) True] by (intro fill_post_step) simp_all
    with True show ?thesis by simp
  next
    case nl: False
    show ?thesis
    proof (cases "f_in (io_file s)")
      case Nil
      with 2 nl show ?thesis
        by (simp add: fill_post_def getc_def unread_netascii(2))
    next
      case (Cons c r)
      define f where "f = (io_file s)\<lparr>f_in := r\<rparr>"
      have g: "getc (io_file s) = (Some c, f)" by (simp add: getc_def Cons f_def)
      show ?thesis
      proof (cases "c = LF \<or> c = CR")
        case True
        let ?s = "s\<lparr>io_file := f, io_prevchar := of_char c, io_newline := True\<rparr>"
        have "fill_post i (p @ [CR]) ?s (netascii_fill i (p @ [CR]) ?s)"
          by (rule 2(2) [OF nl g [symmetric] refl True]) (simp_all add: 2 f_def)
        then have "fill_post (Suc i) p s (netascii_fill i (p @ [CR]) ?s)"
          using unread_netascii(3) [OF 2(4) nl Cons True, of f]
          by (intro fill_post_step) (simp_all add: f_def)
        with True nl g show ?thesis by simp
      next
        case False
        let ?s = "s\<lparr>io_file := f\<rparr>"
        have "fill_post i (p @ [c]) ?s (netascii_fill i (p @ [c]) ?s)"
          by (rule 2(3) [OF nl g [symmetric] refl False]) (simp_all add: 2 f_def)
        then have "fill_post (Suc i) p s (netascii_fill i (p @ [c]) ?s)"
          using unread_netascii(4) [OF 2(4) nl Cons False, of f]
          by (intro fill_post_step) (simp_all add: f_def)
        with False nl g show ?thesis by simp
      qed
    qed
  qed
qed

lemma unread_put_data [simp]: "unread (put_data n d s) = unread s"
  by (simp add: unread_def put_data_def)

lemma put_data_sel [simp]:
  "io_file (put_data n d s) = io_file s"
  "io_packets (put_data n d s) = (io_packets s)
     [n := take 4 (io_packets s ! n) @ d @ drop (4 + length d) (io_packets s ! n)]"
  by (simp_all add: put_data_def)

lemma ops_read_packet_spec:
  assumes "\<not> f_ferror (io_file (io w))" "ops_read_packet dp w = (r, w')"
  defines "u \<equiv> unread (io w)" and "b \<equiv> io_blocksize (io w)"
  shows "unread (io w') = drop b u"
    and "io_packets (io w') =
           (io_packets (io w))[dp := take 4 (io_packets (io w) ! dp) @ take b u
              @ drop (4 + length (take b u)) (io_packets (io w) ! dp)]"
    and "r = (if length u < b \<and> f_in_error (io_file (io w)) then -1 else int (length (take b u)))"
    and "0 \<le> r \<Longrightarrow> \<not> f_ferror (io_file (io w'))"
    and "f_in_error (io_file (io w')) = f_in_error (io_file (io w))"
proof -
  have "unread (io w') = drop b u
    \<and> io_packets (io w') =
           (io_packets (io w))[dp := take 4 (io_packets (io w) ! dp) @ take b u
              @ drop (4 + length (take b u)) (io_packets (io w) ! dp)]
    \<and> r = (if length u < b \<and> f_in_error (io_file (io w)) then -1 else int (length (take b u)))
    \<and> (0 \<le> r \<longrightarrow> \<not> f_ferror (io_file (io w')))
    \<and> f_in_error (io_file (io w')) = f_in_error (io_file (io w))" (is ?all)
  proof (cases "io_ops (io w)")
    case octet_io_ops
    with assms show ?thesis
      by (auto simp: ops_read_packet_def octet_read_packet_def fread_def put_data_def unread_def
            encode_def Let_def split: if_splits)
  next
    case netascii_io_ops
    obtain ok p s where f: "netascii_fill b [] (io w) = (ok, p, s)"
      by (metis prod_cases3)
    have "fill_post b [] (io w) (ok, p, s)"
      using netascii_fill_spec [OF netascii_io_ops assms(1), of b "[]"] f by simp
    then have post: "p = take b u" "unread s = drop b u"
        "ok = (\<not> (length u < b \<and> f_in_error (io_file (io w))))"
        "f_in_error (io_file s) = f_in_error (io_file (io w))" "f_ferror (io_file s) = (\<not> ok)"
      by (simp_all add: fill_post_def u_def)
    have "(r, w') = (if ok then (int (length p), w\<lparr>io := put_data dp p s\<rparr>)
        else (-1, w\<lparr>io := put_data dp p s, errno := EIO\<rparr>))"
      using assms(2) f netascii_io_ops
      by (simp add: ops_read_packet_def netascii_read_packet_def Let_def b_def)
    with post fill_frame [OF f] show ?thesis by (cases ok) auto
  qed
  then show "unread (io w') = drop b u"
    and "io_packets (io w') =
           (io_packets (io w))[dp := take 4 (io_packets (io w) ! dp) @ take b u
              @ drop (4 + length (take b u)) (io_packets (io w) ! dp)]"
    and "r = (if length u < b \<and> f_in_error (io_file (io w)) then -1 else int (length (take b u)))"
    and "0 \<le> r \<Longrightarrow> \<not> f_ferror (io_file (io w'))"
    and "f_in_error (io_file (io w')) = f_in_error (io_file (io w))"
    by blast+
qed

subsection \<open>The reader ring\<close>

lemma slot_less: "ring_ok s \<Longrightarrow> slot s i < io_slots s"
  by (simp add: ring_ok_def slot_def)

lemma slot_inj: "i < io_slots s \<Longrightarrow> j < io_slots s \<Longrightarrow> slot s i = slot s j \<Longrightarrow> i = j"
  unfolding slot_def by (rule ring_index_inj)

lemma io_next_slot: "ring_ok s \<Longrightarrow> io_next s (slot s i) = slot s (Suc i)"
  using slot_less [of s i] by (simp add: io_next_def slot_def mod_Suc)

lemma io_next_head: "ring_ok s \<Longrightarrow> io_next s (io_head s) = slot s 1"
  using io_next_slot [of s 0] by (simp add: slot_def ring_ok_def)

lemma queued_length:
  assumes "read_ok s" "i < io_count s"
  shows "int (length (queued s i)) = io_lengths s ! slot s i"
    and "length (queued s i) = 4 + length (th_data (queued s i))"
proof -
  have "slot s i < length (io_packets s)" using assms slot_less by (simp add: read_ok_def ring_ok_def)
  then have "length (io_packets s ! slot s i) = io_packetsize s"
    using assms by (simp add: read_ok_def ring_ok_def)
  moreover have "4 \<le> io_lengths s ! slot s i" "io_lengths s ! slot s i \<le> int (io_packetsize s)"
    using assms by (force simp: read_ok_def ring_ok_def)+
  ultimately show "int (length (queued s i)) = io_lengths s ! slot s i"
    by (simp add: queued_def)
  with \<open>4 \<le> _\<close> show "length (queued s i) = 4 + length (th_data (queued s i))"
    by (simp add: th_data_def)
qed

text \<open>Counting the packet in the tail slot appends its data to the queue.\<close>

lemma push_append:
  assumes ring: "ring_ok s" and cnt: "io_count s < io_slots s" and len: "0 \<le> len" "len \<le> int (io_blocksize s)"
  shows "ring_ok (push_read len s)"
    and "read_queue (push_read len s) = read_queue s @ [take (nat len) (th_data (io_packets s ! io_tail s))]"
    and "\<forall>i < io_count s. 4 \<le> io_lengths s ! slot s i \<and> io_lengths s ! slot s i \<le> int (io_blocksize s) + 4 \<Longrightarrow>
      \<forall>i < io_count (push_read len s). 4 \<le> io_lengths (push_read len s) ! slot (push_read len s) i
        \<and> io_lengths (push_read len s) ! slot (push_read len s) i \<le> int (io_blocksize (push_read len s)) + 4"
proof -
  let ?s = "push_read len s" and ?t = "slot s (io_count s)"
  have tail: "io_tail s = ?t" "?t < io_slots s" using ring slot_less by (simp_all add: ring_ok_def)
  have sl: "slot ?s i = slot s i" for i by (simp add: slot_def push_read_def)
  have pk: "io_packets ?s = io_packets s" by (simp add: push_read_def)
  have other: "slot s i \<noteq> ?t" if "i < io_count s" for i
    using slot_inj [of i s "io_count s"] that cnt by auto
  have old: "queued ?s i = queued s i" "io_lengths ?s ! slot s i = io_lengths s ! slot s i" if "i < io_count s" for i
    using other [OF that] tail by (simp_all add: queued_def sl) (simp_all add: push_read_def)
  have lt: "io_lengths ?s ! ?t = len + 4" using tail ring by (simp add: push_read_def ring_ok_def)
  have "length (io_packets s ! ?t) = io_packetsize s" using tail ring by (simp add: ring_ok_def)
  then have new: "th_data (queued ?s (io_count s)) = take (nat len) (th_data (io_packets s ! io_tail s))"
    using tail lt len pk by (simp add: queued_def sl th_data_def nat_add_distrib drop_take)
  show "read_queue ?s = read_queue s @ [take (nat len) (th_data (io_packets s ! io_tail s))]"
    using new old(1) by (simp add: read_queue_def) (simp add: push_read_def)
  have "io_tail ?s = slot s (Suc (io_count s))"
    using io_next_slot [OF ring] tail by (simp add: push_read_def)
  then show "ring_ok ?s" using ring cnt by (simp add: ring_ok_def sl) (simp add: push_read_def)
  show "\<forall>i < io_count ?s. 4 \<le> io_lengths ?s ! slot ?s i \<and> io_lengths ?s ! slot ?s i \<le> int (io_blocksize ?s) + 4"
    if "\<forall>i < io_count s. 4 \<le> io_lengths s ! slot s i \<and> io_lengths s ! slot s i \<le> int (io_blocksize s) + 4"
  proof (intro allI impI)
    fix i assume "i < io_count ?s"
    then consider "i < io_count s" | "i = io_count s" by (fastforce simp: push_read_def)
    then show "4 \<le> io_lengths ?s ! slot ?s i \<and> io_lengths ?s ! slot ?s i \<le> int (io_blocksize ?s) + 4"
      by cases (use that old(2) lt len in \<open>simp_all add: sl, simp_all add: push_read_def\<close>)
  qed
qed

text \<open>A packet that is read goes to the slot and leaves the ring alone.\<close>

lemma read_into_tail:
  assumes ring: "ring_ok (io w)" and cnt: "io_count (io w) < io_slots (io w)" and ferr: "\<not> f_ferror (io_file (io w))"
    and rd: "ops_read_packet (io_tail (io w)) w = (r, w')"
  shows "ring_ok (io w')" "read_queue (io w') = read_queue (io w)" "held_packets (io w') = held_packets (io w)"
    "slot (io w') i = slot (io w) i"
    "0 \<le> r \<Longrightarrow> r \<le> int (io_blocksize (io w))
       \<and> take (nat r) (th_data (io_packets (io w') ! io_tail (io w))) = take (io_blocksize (io w)) (unread (io w))"
proof -
  define s s' where "s = io w" and "s' = io w'"
  note fr = ops_read_packet_frame [OF rd, folded s_def s'_def]
  note sp = ops_read_packet_spec [OF ferr rd, folded s_def s'_def]
  let ?t = "slot s (io_count s)" and ?d = "take (io_blocksize s) (unread s)"
  have tail: "io_tail s = ?t" "?t < length (io_packets s)"
    using ring slot_less [OF ring] by (simp_all add: ring_ok_def s_def)
  have plen: "length (io_packets s ! ?t) = io_packetsize s" "io_blocksize s + 4 \<le> io_packetsize s"
    using tail ring by (simp_all add: ring_ok_def s_def)
  have pk: "io_packets s' = (io_packets s)[?t := take 4 (io_packets s ! ?t) @ ?d @ drop (4 + length ?d) (io_packets s ! ?t)]"
    using sp(2) tail by simp
  have sl: "slot s' i = slot s i" for i by (simp add: slot_def fr)
  then show "slot (io w') i = slot (io w) i" by (simp add: s_def s'_def)
  have old: "queued s' i = queued s i" if "i < io_count s" for i
  proof -
    have "?t \<noteq> slot s i" using slot_inj [of i s "io_count s"] that cnt by (auto simp: s_def)
    then show ?thesis by (simp add: queued_def sl pk fr)
  qed
  then show "read_queue (io w') = read_queue (io w)"
    by (simp add: read_queue_def fr s_def [symmetric] s'_def [symmetric])
  show "held_packets (io w') = held_packets (io w)"
    using old ring by (auto simp: held_packets_def fr ring_ok_def s_def [symmetric] s'_def [symmetric])
  have "\<forall>p \<in> set (io_packets s'). length p = io_packetsize s"
    using ring plen by (auto simp: pk ring_ok_def s_def [symmetric] dest!: subsetD [OF set_update_subset_insert])
  moreover have "ring_ok s" "length (io_packets s') = length (io_packets s)" using ring by (simp_all add: s_def pk)
  ultimately have "ring_ok s'" using fr sl [of "io_count s"] by (simp add: ring_ok_def)
  then show "ring_ok (io w')" by (simp add: s'_def)
  show "0 \<le> r \<Longrightarrow> r \<le> int (io_blocksize (io w))
       \<and> take (nat r) (th_data (io_packets (io w') ! io_tail (io w))) = take (io_blocksize (io w)) (unread (io w))"
    using sp(3) tail plen by (auto simp: s_def [symmetric] s'_def [symmetric] pk th_data_def min_def split: if_splits)
qed

lemma push_read_spec:
  assumes ok: "read_ok (io w)" and want: "wants_packet (io w)"
    and rd: "ops_read_packet (io_tail (io w)) w = (r, w')" "0 \<le> r"
  defines "s' \<equiv> push_read r (io w')"
  shows "read_ok s' \<and> blocks_left s' = blocks_left (io w)"
proof -
  let ?b = "io_blocksize (io w)" and ?u = "unread (io w)"
  note fr = ops_read_packet_frame [OF rd(1)]
  have R: "ring_ok (io w)" "io_count (io w) < io_slots (io w)" "\<not> f_ferror (io_file (io w))" "\<not> io_eof (io w)"
    using ok want by (auto simp: read_ok_def wants_packet_def)
  note sp = ops_read_packet_spec [OF R(3) rd(1)] and T = read_into_tail [OF R(1-3) rd(1)]
  have c: "io_count (io w') < io_slots (io w')" "r \<le> int (io_blocksize (io w'))" using R(2) T(5) rd(2) fr by simp_all
  note P = push_append [OF T(1) c(1) rd(2) c(2), folded s'_def]
  have r: "r = int (length (take ?b ?u))" using sp(3) rd(2) by (auto split: if_splits)
  have "0 < ?b" using R(1) by (simp add: ring_ok_def)
  moreover have "io_eof s' = (length ?u < ?b)" "unread s' = drop ?b ?u" "io_blocksize s' = ?b"
    using R(4) r fr sp(1) by (auto simp: s'_def push_read_def unread_def)
  moreover have "read_queue s' = read_queue (io w) @ [take ?b ?u]" using P(2) T(2,5) rd(2) fr by simp
  ultimately have "blocks_left s' = blocks_left (io w)"
    using R(4) by (simp add: blocks_left_def chunks_short chunks_full)
  moreover have "\<forall>i < io_count s'. 4 \<le> io_lengths s' ! slot s' i \<and> io_lengths s' ! slot s' i \<le> int (io_blocksize s') + 4"
    by (rule P(3)) (use ok fr T(4) in \<open>simp add: read_ok_def\<close>)
  moreover have "io_window s' \<le> io_slots s'" "\<not> f_ferror (io_file s')" "io_err s' = 0"
    using fr sp(4) rd(2) ok by (simp_all add: s'_def push_read_def read_ok_def)
  ultimately show ?thesis using P(1) by (simp add: read_ok_def)
qed

lemma read_fill_induct:
  assumes "\<And>w. (\<And>r w'. wants_packet (io w) \<Longrightarrow> ops_read_packet (io_tail (io w)) w = (r, w') \<Longrightarrow>
             0 \<le> r \<Longrightarrow> P (w'\<lparr>io := push_read r (io w')\<rparr>)) \<Longrightarrow> P w"
  shows "P w"
  by (induction w rule: read_fill.induct) (rule assms, simp)

lemma read_fill_spec:
  assumes "read_ok (io w)"
  shows "let s = io (read_fill w) in
           io_err s \<noteq> 0 \<or>
           (read_ok s \<and> blocks_left s = blocks_left (io w) \<and> (io_eof s \<or> io_window s \<le> io_count s))"
  using assms
proof (induction w rule: read_fill_induct)
  case (1 w)
  show ?case
  proof (cases "wants_packet (io w)")
    case False
    then show ?thesis
      using 1(2) by (subst read_fill.simps) (auto simp: wants_packet_def Let_def)
  next
    case True
    obtain r w' where rd: "ops_read_packet (io_tail (io w)) w = (r, w')" by (metis surj_pair)
    show ?thesis
    proof (cases "0 \<le> r")
      case r: True
      note step = push_read_spec [OF 1(2) True rd r]
      have "read_fill w = read_fill (w'\<lparr>io := push_read r (io w')\<rparr>)"
        using True rd r by (subst read_fill.simps) simp
      with 1(1) [OF True rd r] step show ?thesis by (simp add: Let_def)
    next
      case False
      then have "read_fill w = w'\<lparr>io := io_error (errno w') (io w')\<rparr>"
        using True rd by (subst read_fill.simps) simp
      then show ?thesis by (simp add: io_error_def EIO_def Let_def)
    qed
  qed
qed


subsection \<open>The writer ring\<close>

lemma netascii_put_spec:
  "netascii_put p s = (True, s') \<Longrightarrow>
     decode_netascii (io_write_cr s) p = (t, b) \<Longrightarrow>
     f_out (io_file s') = f_out (io_file s) @ t \<and> io_write_cr s' = b"
proof (induction p arbitrary: s t b)
  case (Cons c p)
  obtain t1 b1 where d1: "decode_netascii False p = (t1, b1)" by (metis surj_pair)
  obtain t2 b2 where d2: "decode_netascii True p = (t2, b2)" by (metis surj_pair)
  show ?case
  proof (cases "io_write_cr s")
    case True
    define pre where "pre = (if c = LF \<or> c = NUL then (True, io_file s) else putc CR (io_file s))"
    define c' where "c' = (if c = NUL then CR else c)"
    obtain f where pre: "pre = (True, f)"
      using Cons.prems(1) True by (cases pre) (auto simp: pre_def Let_def split: if_splits)
    obtain f' where put: "putc c' f = (True, f')"
      using Cons.prems(1) True pre
      by (cases "putc c' f") (auto simp: pre_def [symmetric] c'_def Let_def split: if_splits)
    let ?s = "s\<lparr>io_write_cr := False, io_file := f'\<rparr>"
    have run: "netascii_put p ?s = (True, s')"
      using Cons.prems(1) True pre put by (simp add: pre_def [symmetric] c'_def [symmetric])
    have "f_out (io_file s') = f_out (io_file ?s) @ t1 \<and> io_write_cr s' = b1"
      using Cons.IH [OF run] d1 by simp
    moreover have "f_out f' = f_out f @ [c']" using putc_True [OF put] .
    moreover have "f_out f = f_out (io_file s) @ (if c = LF \<or> c = NUL then [] else [CR])"
      using pre putc_True [of CR "io_file s" f] by (auto simp: pre_def split: if_splits)
    ultimately show ?thesis
      using Cons.prems(2) True d1 by (auto simp: c'_def split: if_splits)
  next
    case False
    show ?thesis
    proof (cases "c = CR")
      case True
      with Cons.prems Cons.IH [of "s\<lparr>io_write_cr := True\<rparr>"] False d2 show ?thesis by simp
    next
      case c: False
      obtain f where put: "putc c (io_file s) = (True, f)"
        using Cons.prems(1) False c by (cases "putc c (io_file s)") (auto split: if_splits)
      have run: "netascii_put p (s\<lparr>io_file := f\<rparr>) = (True, s')"
        using Cons.prems(1) False c put by simp
      have "f_out (io_file s') = f_out f @ t1 \<and> io_write_cr s' = b1"
        using Cons.IH [OF run] d1 False by simp
      with putc_True [OF put] Cons.prems(2) False c d1 show ?thesis by simp
    qed
  qed
qed simp

lemma slot_data_length:
  assumes "ring_ok s" "dp < io_slots s" "0 \<le> n" "n \<le> int (io_blocksize s)"
  shows "length (slot_data s dp (nat n)) = nat n"
proof -
  have "length (io_packets s ! dp) = io_packetsize s"
    using assms by (simp add: ring_ok_def)
  moreover have "nat n \<le> io_packetsize s - 4" using assms by (auto simp: ring_ok_def)
  ultimately show ?thesis by (simp add: slot_data_def th_data_def)
qed

lemma ops_write_packet_spec:
  assumes "ring_ok (io w)" "dp < io_slots (io w)" "0 \<le> n" "n \<le> int (io_blocksize (io w))"
    and "ops_write_packet dp n w = (n, w')"
    and "decode_run (io_ops (io w)) (io_write_cr (io w)) (slot_data (io w) dp (nat n)) = (t, b)"
  shows "f_out (io_file (io w')) = f_out (io_file (io w)) @ t \<and> io_write_cr (io w') = b"
proof (cases "io_ops (io w)")
  case octet_io_ops
  let ?d = "slot_data (io w) dp (nat n)"
  obtain k f where fw: "fwrite ?d (io_file (io w)) = (k, f)" by (metis surj_pair)
  then have "k = nat n" "w' = w\<lparr>io := (io w)\<lparr>io_file := f\<rparr>\<rparr>"
    using assms(3,5) octet_io_ops
    by (auto simp: ops_write_packet_def octet_write_packet_def split: if_splits)
  moreover have "length ?d = nat n" using assms by (simp add: slot_data_length)
  ultimately show ?thesis
    using fwrite_all [OF fw] assms(6) octet_io_ops by simp
next
  case netascii_io_ops
  let ?d = "slot_data (io w) dp (nat n)"
  obtain ok s where "netascii_put ?d (io w) = (ok, s)" by (metis surj_pair)
  moreover from this have "ok" "w' = w\<lparr>io := s\<rparr>"
    using assms(3,5) netascii_io_ops
    by (auto simp: ops_write_packet_def netascii_write_packet_def split: if_splits)
  ultimately show ?thesis
    using netascii_put_spec [of ?d "io w" s t b] assms(6) netascii_io_ops by simp
qed

lemma slot_0: "ring_ok s \<Longrightarrow> slot s 0 = io_head s"
  by (simp add: slot_def ring_ok_def)

lemma slot_all: "ring_ok s \<Longrightarrow> slot s (io_slots s) = io_head s"
  by (simp add: slot_def ring_ok_def)

lemma slot_neq_head: "ring_ok s \<Longrightarrow> i < io_slots s \<Longrightarrow> 0 < i \<Longrightarrow> slot s i \<noteq> io_head s"
  using slot_inj [of i s 0] slot_0 [of s] by (auto simp: ring_ok_def)

lemma pop_written_slot:
  assumes "ring_ok s" "io_head s' = io_next s (io_head s)" "io_slots s' = io_slots s"
  shows "slot s' i = slot s (Suc i)"
  using assms io_next_head [OF assms(1)]
  by (simp add: slot_def mod_add_left_eq)

lemma drain_step_absorbed:
  assumes "decode_run m cr x = (t, b)"
  shows "(case decode_run m cr (x @ y) of (u, c) \<Rightarrow> (out @ u, c))
       = (case decode_run m b y of (u, c) \<Rightarrow> ((out @ t) @ u, c))"
  using assms by (cases m) (auto simp: decode_run_append split: prod.splits)

lemma popped_slot: "ring_ok s \<Longrightarrow> popped s s' \<Longrightarrow> slot s' i = slot s (Suc i)"
  by (rule pop_written_slot) (simp_all add: popped_def)

lemma popped_queue:
  assumes "ring_ok s" "popped s s'" "io_count s \<noteq> 0"
  shows "write_queue s = write_block s 0 @ write_queue s'"
proof -
  have "write_block s' i = write_block s (Suc i)" for i
    using assms by (simp add: write_block_def popped_slot slot_data_def) (simp add: popped_def)
  then have "map (write_block s') [0..<io_count s - 1] = map (write_block s) [1..<io_count s]"
    using assms(3) by (cases "io_count s") (simp_all add: map_Suc_upt [symmetric] del: upt_Suc)
  moreover have "[0..<io_count s] = 0 # [1..<io_count s]"
    using assms(3) by (simp add: upt_conv_Cons)
  ultimately show ?thesis using assms(2) by (simp add: write_queue_def popped_def)
qed

lemma popped_ring: "ring_ok s \<Longrightarrow> popped s s' \<Longrightarrow> io_count s \<noteq> 0 \<Longrightarrow> io_held s' = 0 \<Longrightarrow> ring_ok s'"
  using popped_slot [of s s' "io_count s - 1"] slot_less [of s 1] io_next_head [of s]
  by (auto simp: ring_ok_def popped_def)

lemma popped_states:
  assumes "write_ok s" "popped s s'" "i < io_slots s"
  shows "io_states s' ! slot s' i =
           (if Suc i = io_slots s then SLOT_EMPTY else io_states s ! slot s (Suc i))"
proof (cases "Suc i = io_slots s")
  case True
  with assms slot_all [of s] popped_slot [of s s' i] show ?thesis
    by (simp add: popped_def write_ok_def ring_ok_def)
next
  case False
  with assms slot_neq_head [of s "Suc i"] popped_slot [of s s' i] show ?thesis
    by (simp add: popped_def write_ok_def)
qed

lemma popped_ok:
  assumes ok: "write_ok s" and pop: "popped s s'" and cnt: "io_count s \<noteq> 0"
  shows "write_ok s'"
proof -
  have ring: "ring_ok s" using ok by (simp add: write_ok_def)
  have held: "io_held s' = 0" using ok pop by (simp add: write_ok_def popped_def)
  have ring': "ring_ok s'" by (rule popped_ring [OF ring pop cnt held])
  have c: "io_count s' = io_count s - 1" "io_count s \<le> io_slots s" "io_slots s' = io_slots s"
    using pop ring by (simp_all add: popped_def ring_ok_def)
  note st = popped_states [OF ok pop]
  have old: "\<And>i. i < io_count s \<Longrightarrow> io_states s ! slot s i = SLOT_READY
          \<and> 0 \<le> io_lengths s ! slot s i \<and> io_lengths s ! slot s i \<le> int (io_blocksize s)"
    and free: "\<And>i. i < io_slots s \<Longrightarrow> io_count s < i \<Longrightarrow> io_states s ! slot s i = SLOT_EMPTY"
    and tail: "io_count s < io_slots s \<Longrightarrow>
          io_states s ! slot s (io_count s) = SLOT_EMPTY \<or> io_states s ! slot s (io_count s) = SLOT_RESERVED"
    using ok ring unfolding write_ok_def ring_ok_def by auto
  have "io_states s' ! slot s' i = SLOT_READY \<and> 0 \<le> io_lengths s' ! slot s' i
      \<and> io_lengths s' ! slot s' i \<le> int (io_blocksize s')" if "i < io_count s'" for i
    using st [of i] old [of "Suc i"] that c popped_slot [OF ring pop, of i] pop
    by (simp add: popped_def)
  moreover have "io_states s' ! slot s' i = SLOT_EMPTY" if "i < io_slots s'" "io_count s' < i" for i
    using st [of i] free [of "Suc i"] that c cnt by (cases "Suc i = io_slots s") simp_all
  moreover have "io_states s' ! io_tail s' = SLOT_EMPTY \<or> io_states s' ! io_tail s' = SLOT_RESERVED"
  proof -
    have "io_tail s' = slot s' (io_count s - 1)" using ring' c by (simp add: ring_ok_def)
    then show ?thesis
      using st [of "io_count s - 1"] tail c cnt by (cases "io_count s = io_slots s") simp_all
  qed
  moreover have "length (io_states s') = io_slots s'" "io_err s' = 0"
    using ok pop by (simp_all add: write_ok_def popped_def)
  ultimately show ?thesis using ring' held unfolding write_ok_def by blast
qed

lemma drain_step_spec:
  assumes ok: "write_ok (io w)" and cnt: "io_count (io w) \<noteq> 0"
    and wr: "ops_write_packet (io_head (io w)) len (w\<lparr>io := mark_writing (io w)\<rparr>) = (len, w')"
    and len: "len = io_lengths (io w) ! io_head (io w)"
  shows "write_ok (pop_written (io w')) \<and> absorbed (pop_written (io w')) = absorbed (io w)"
proof -
  let ?w = "w\<lparr>io := mark_writing (io w)\<rparr>"
  have ring: "ring_ok (io w)" using ok by (simp add: write_ok_def)
  have mark: "ring_ok (io ?w)" using ring by (simp add: ring_ok_def mark_writing_def slot_def)
  have pop: "popped (io w) (pop_written (io w'))"
    using ops_write_packet_frame [OF wr] ok
    by (simp add: popped_def pop_written_def mark_writing_def io_next_def write_ok_def)
  have len_ok: "0 \<le> len" "len \<le> int (io_blocksize (io w))" "io_head (io w) < io_slots (io w)"
    using ok cnt slot_0 [OF ring] ring by (auto simp: write_ok_def len ring_ok_def)
  obtain t b where dr: "decode_run (io_ops (io w)) (io_write_cr (io w)) (write_block (io w) 0) = (t, b)"
    by (metis surj_pair)
  have blk: "slot_data (io ?w) (io_head (io w)) (nat len) = write_block (io w) 0"
    by (simp add: mark_writing_def slot_data_def write_block_def len slot_0 [OF ring])
  have "f_out (io_file (io w')) = f_out (io_file (io ?w)) @ t \<and> io_write_cr (io w') = b"
    by (rule ops_write_packet_spec [OF mark _ len_ok(1) _ wr])
       (use len_ok dr in \<open>simp_all only: blk\<close>, simp_all add: mark_writing_def)
  then have "absorbed (pop_written (io w')) = absorbed (io w)"
    using drain_step_absorbed [OF dr, where y = "write_queue (pop_written (io w'))" and out = "f_out (io_file (io w))"]
      popped_queue [OF ring pop cnt] pop
    by (simp add: absorbed_def) (simp add: popped_def pop_written_def mark_writing_def)
  with popped_ok [OF ok pop cnt] show ?thesis by simp
qed

lemma drain_loop_spec:
  assumes "write_ok (io w)"
  shows "let s = io (drain_loop w) in
           io_err s \<noteq> 0 \<or> (write_ok s \<and> io_count s = 0 \<and> absorbed s = absorbed (io w))"
  using assms
proof (induction w rule: drain_loop.induct)
  case (1 w)
  have err: "io_err (io w) = 0" using 1(2) by (simp add: write_ok_def)
  show ?case
  proof (cases "io_count (io w) = 0")
    case True
    then show ?thesis using 1(2) by (subst drain_loop.simps) (simp add: Let_def)
  next
    case cnt: False
    let ?len = "io_lengths (io w) ! io_head (io w)" and ?w = "w\<lparr>io := mark_writing (io w)\<rparr>"
    have ready: "io_states (io w) ! io_head (io w) = SLOT_READY"
      using 1(2) cnt slot_0 [of "io w"] by (auto simp: write_ok_def)
    obtain r w' where wr: "ops_write_packet (io_head (io w)) ?len ?w = (r, w')" by (metis surj_pair)
    show ?thesis
    proof (cases "r = ?len")
      case True
      note step = drain_step_spec [OF 1(2) cnt wr [unfolded True] refl]
      have "drain_loop w = drain_loop (w'\<lparr>io := pop_written (io w')\<rparr>)"
        using err cnt ready wr True by (subst drain_loop.simps) (simp add: Let_def)
      with 1(1) [OF _ _ refl wr [symmetric]] step err cnt ready True show ?thesis
        by (simp add: Let_def)
    next
      case False
      then have "drain_loop w = w'\<lparr>io := io_error (errno w') (io w')\<rparr>"
        using err cnt ready wr by (subst drain_loop.simps) (simp add: Let_def)
      then show ?thesis by (simp add: io_error_def EIO_def Let_def)
    qed
  qed
qed

lemma write_okI:
  assumes "ring_ok s" "length (io_states s) = io_slots s" "io_err s = 0" "io_held s = 0"
    and "\<And>i. i < io_count s \<Longrightarrow> io_states s ! slot s i = SLOT_READY
          \<and> 0 \<le> io_lengths s ! slot s i \<and> io_lengths s ! slot s i \<le> int (io_blocksize s)"
    and "\<And>i. i < io_slots s \<Longrightarrow> io_count s < i \<Longrightarrow> io_states s ! slot s i = SLOT_EMPTY"
    and "io_count s < io_slots s \<Longrightarrow>
          io_states s ! io_tail s = SLOT_EMPTY \<or> io_states s ! io_tail s = SLOT_RESERVED"
  shows "write_ok s"
  using assms by (simp add: write_ok_def)

lemma write_okD:
  assumes "write_ok s"
  shows "ring_ok s" "length (io_states s) = io_slots s" "io_err s = 0" "io_held s = 0"
    and "i < io_count s \<Longrightarrow> io_states s ! slot s i = SLOT_READY
          \<and> 0 \<le> io_lengths s ! slot s i \<and> io_lengths s ! slot s i \<le> int (io_blocksize s)"
    and "i < io_slots s \<Longrightarrow> io_count s < i \<Longrightarrow> io_states s ! slot s i = SLOT_EMPTY"
  using assms by (auto simp: write_ok_def)

lemma slot_count_full: "ring_ok s \<Longrightarrow> io_count s = io_slots s \<Longrightarrow> io_tail s = io_head s"
  using slot_all [of s] by (simp add: ring_ok_def)

lemma write_ok_not_full:
  assumes "write_ok s" "io_states s ! io_tail s \<noteq> SLOT_READY"
  shows "io_count s < io_slots s"
proof (rule ccontr)
  assume "\<not> ?thesis"
  moreover have ring: "ring_ok s" using assms by (simp add: write_ok_def)
  ultimately have "io_count s = io_slots s" by (simp add: ring_ok_def)
  with slot_count_full [OF ring] slot_0 [OF ring] ring assms show False
    by (auto simp: write_ok_def ring_ok_def)
qed

lemma reserve_spec:
  assumes "write_ok (io w)" "tftp_io_writer_reserve w = (Some dp, w')"
  shows "write_ok (io w') \<and> absorbed (io w') = absorbed (io w) \<and> dp = io_tail (io w')
    \<and> io_states (io w') ! io_tail (io w') = SLOT_RESERVED \<and> io_blocksize (io w') = io_blocksize (io w)
    \<and> io_ops (io w') = io_ops (io w)"
proof -
  define s where "s = io w"
  define s' where "s' = s\<lparr>io_states := (io_states s)[io_tail s := SLOT_RESERVED]\<rparr>"
  have ring: "ring_ok s" using assms(1) by (simp add: s_def write_ok_def)
  have w': "io w' = s'" "dp = io_tail s" "io_states s ! io_tail s = SLOT_EMPTY"
    using assms(2) by (auto simp: tftp_io_writer_reserve_def Let_def s_def s'_def split: if_splits)
  have full: "io_count s < io_slots s"
    using write_ok_not_full [of s] assms(1) w'(3) by (simp add: s_def)
  have sl: "slot s' i = slot s i" for i by (simp add: slot_def s'_def)
  have tl: "io_tail s = slot s (io_count s)" "io_tail s < io_slots s"
    using ring slot_less [OF ring] by (simp_all add: ring_ok_def)
  have neq: "slot s i \<noteq> io_tail s" if "i < io_slots s" "i \<noteq> io_count s" for i
    using slot_inj [of i s "io_count s"] that full tl by auto
  have "ring_ok s'" using ring by (simp add: ring_ok_def s'_def slot_def)
  then have "write_ok s'"
  proof (rule write_okI)
    note D = write_okD [OF assms(1), folded s_def]
    show "length (io_states s') = io_slots s'" "io_err s' = 0" "io_held s' = 0"
      using D by (simp_all add: s'_def)
    show "io_states s' ! slot s' i = SLOT_READY \<and> 0 \<le> io_lengths s' ! slot s' i
        \<and> io_lengths s' ! slot s' i \<le> int (io_blocksize s')" if "i < io_count s'" for i
      using D(5) [of i] neq [of i] that full by (simp add: sl) (simp add: s'_def)
    show "io_states s' ! slot s' i = SLOT_EMPTY" if "i < io_slots s'" "io_count s' < i" for i
      using D(6) [of i] neq [of i] that by (simp add: sl) (simp add: s'_def)
    show "io_states s' ! io_tail s' = SLOT_EMPTY \<or> io_states s' ! io_tail s' = SLOT_RESERVED"
      using D(2) tl by (simp add: s'_def)
  qed
  moreover have "write_block s' = write_block s"
    by (rule ext) (simp add: write_block_def slot_data_def s'_def slot_def)
  then have "absorbed s' = absorbed s" by (simp add: absorbed_def write_queue_def) (simp add: s'_def)
  ultimately show ?thesis
    using w' tl assms(1) by (simp add: s'_def s_def [symmetric] write_ok_def)
qed

text \<open>Copying a packet to the reserved slot and publishing it appends its data.\<close>

lemma publish_spec:
  assumes ok: "write_ok (io w)" and rsv: "io_states (io w) ! io_tail (io w) = SLOT_RESERVED"
    and p: "4 \<le> length p" "length p \<le> io_blocksize (io w) + 4"
    and pub: "tftp_io_write_publish (int (length p) - 4) (mem_store (io_tail (io w)) p w) = (r, w')"
  shows "r = 0 \<and> write_ok (io w') \<and> io_blocksize (io w') = io_blocksize (io w)
    \<and> io_ops (io w') = io_ops (io w)
    \<and> absorbed (io w') =
        (case absorbed (io w) of (out, b) \<Rightarrow>
           case decode_run (io_ops (io w)) b (th_data p) of (t, b') \<Rightarrow> (out @ t, b'))"
proof -
  define s where "s = io w"
  define n where "n = io_tail s"
  define q where "q = p @ drop (length p) (io_packets s ! n)"
  define s' where "s' = s\<lparr>io_packets := (io_packets s)[n := q],
     io_lengths := (io_lengths s)[n := int (length p) - 4],
     io_states := (io_states s)[n := SLOT_READY], io_tail := io_next s n, io_count := io_count s + 1\<rparr>"
  have ring: "ring_ok s" using ok by (simp add: write_ok_def s_def)
  have res: "r = 0" "io w' = s'"
    using pub p rsv
    by (auto simp: tftp_io_write_publish_def mem_store_def Let_def s'_def s_def n_def q_def
          io_next_def split: if_splits)
  have full: "io_count s < io_slots s"
    using write_ok_not_full [of s] ok rsv by (simp add: s_def)
  have sl: "slot s' i = slot s i" for i by (simp add: slot_def s'_def)
  have tl: "n = slot s (io_count s)" "n < io_slots s"
    using ring slot_less [OF ring] by (simp_all add: ring_ok_def n_def)
  have neq: "slot s i \<noteq> n" if "i < io_slots s" "i \<noteq> io_count s" for i
    using slot_inj [of i s "io_count s"] that full tl by auto
  have plen: "length (io_packets s ! n) = io_packetsize s" using ring tl by (simp add: ring_ok_def)
  have q: "length q = io_packetsize s"
    using plen p ring by (simp add: q_def s_def [symmetric] ring_ok_def)
  have ring': "ring_ok s'"
  proof -
    have "io_tail s' = slot s' (io_count s')"
      using io_next_slot [OF ring, of "io_count s"] by (simp add: sl tl(1)) (simp add: s'_def tl(1))
    moreover have "\<forall>p \<in> set (io_packets s'). length p = io_packetsize s"
      using ring q by (auto simp: s'_def ring_ok_def dest!: subsetD [OF set_update_subset_insert])
    ultimately show ?thesis using ring full by (simp add: ring_ok_def s'_def)
  qed
  have "write_ok s'"
  proof -
    have "io_states s' ! slot s' i = SLOT_READY \<and> 0 \<le> io_lengths s' ! slot s' i
        \<and> io_lengths s' ! slot s' i \<le> int (io_blocksize s')" if "i < io_count s'" for i
    proof (cases "i = io_count s")
      case True
      with ok ring tl p show ?thesis
        by (simp add: sl) (simp add: s'_def s_def [symmetric] write_ok_def ring_ok_def)
    next
      case False
      with that have "i < io_count s" by (simp add: s'_def)
      with neq [of i] full ok show ?thesis
        by (simp add: sl) (simp add: s'_def s_def [symmetric] write_ok_def)
    qed
    moreover have free: "io_states s' ! slot s' i = SLOT_EMPTY" if "i < io_slots s" "io_count s < i" for i
      using neq [of i] that write_okD(6) [OF ok, folded s_def, of i] by (simp add: sl) (simp add: s'_def)
    moreover have "io_tail s' = slot s' (io_count s')" using ring' by (simp add: ring_ok_def)
    then have "io_count s' < io_slots s' \<Longrightarrow> io_states s' ! io_tail s' = SLOT_EMPTY"
      using free [of "io_count s'"] by (simp add: s'_def)
    moreover have "length (io_states s') = io_slots s'" "io_err s' = 0" "io_held s' = 0"
      using write_okD(2-4) [OF ok] by (simp_all add: s'_def s_def)
    ultimately show ?thesis
      using ring' by (intro write_okI) (simp_all add: s'_def)
  qed
  moreover have "absorbed s' =
        (case absorbed s of (out, b) \<Rightarrow>
           case decode_run (io_ops s) b (th_data p) of (t, b') \<Rightarrow> (out @ t, b'))"
  proof -
    have "write_block s' i = write_block s i" if "i < io_count s" for i
      using neq [of i] that full by (simp add: write_block_def slot_data_def sl) (simp add: s'_def)
    then have "concat (map (write_block s') [0..<io_count s]) = write_queue s"
      unfolding write_queue_def by (intro arg_cong [of _ _ concat] map_cong) simp_all
    moreover have "write_block s' (io_count s) = th_data p"
      using tl ring p plen
      by (simp add: write_block_def slot_data_def sl) (simp add: s'_def ring_ok_def th_data_def q_def)
    moreover have "io_count s' = Suc (io_count s)" by (simp add: s'_def)
    ultimately have "write_queue s' = write_queue s @ th_data p"
      by (simp add: write_queue_def [of s'])
    moreover have "io_ops s' = io_ops s" "io_write_cr s' = io_write_cr s" "io_file s' = io_file s"
      by (simp_all add: s'_def)
    ultimately show ?thesis
      by (cases "io_ops s") (simp_all add: absorbed_def decode_netascii_append split: prod.splits)
  qed
  ultimately show ?thesis using res by (simp add: s_def s'_def)
qed

lemma drain_spec:
  assumes "write_ok (io w)" "tftp_io_write_drain w = (r, w')" "0 \<le> r"
  shows "write_ok (io w') \<and> io_count (io w') = 0 \<and> absorbed (io w') = absorbed (io w)"
proof -
  have err: "io_err (io (drain_loop w)) = 0" and "io w' = io (drain_loop w)"
    using assms(2,3)
    by (auto simp: tftp_io_write_drain_def fflush_def Let_def split: if_splits option.splits)
  with drain_loop_spec [OF assms(1)] show ?thesis by (simp add: Let_def)
qed

lemma finish_spec:
  assumes "write_ok (io w)" "io_count (io w) = 0" "tftp_io_write_finish w = (r, w')" "0 \<le> r"
    and "absorbed (io w) = decode_run (io_ops (io w)) False x"
  shows "f_out (io_file (io w')) = decode (io_ops (io w)) x"
proof -
  obtain t b where dec: "decode_run (io_ops (io w)) False x = (t, b)" by (metis surj_pair)
  have q: "write_queue (io w) = []" using assms(2) by (simp add: write_queue_def)
  show ?thesis
  proof (cases "io_ops (io w)")
    case octet_io_ops
    with assms dec q show ?thesis
      by (auto simp: tftp_io_write_finish_def ops_write_finish_def octet_write_finish_def fflush_def
            absorbed_def decode_def Let_def split: if_splits option.splits)
  next
    case netascii_io_ops
    have out: "f_out (io_file (io w)) = t" "io_write_cr (io w) = b"
      using assms(5) dec q netascii_io_ops by (simp_all add: absorbed_def)
    show ?thesis
    proof (cases b)
      case False
      with assms(3,4) out dec netascii_io_ops show ?thesis
        by (auto simp: tftp_io_write_finish_def ops_write_finish_def netascii_write_finish_def
              fflush_def decode_def Let_def split: if_splits option.splits)
    next
      case True
      obtain k f where put: "putc CR (io_file (io w)) = (k, f)" by (metis surj_pair)
      with assms(3,4) out True netascii_io_ops have "k" "f_out (io_file (io w')) = f_out f"
        by (auto simp: tftp_io_write_finish_def ops_write_finish_def netascii_write_finish_def
              fflush_def Let_def split: if_splits option.splits)
      with putc_True [of CR "io_file (io w)" f] put out dec netascii_io_ops True show ?thesis
        by (simp add: decode_def)
    qed
  qed
qed

subsection \<open>The adapter keeps its contract with the engine\<close>

lemma release_loop_spec:
  assumes "read_ok s" "k = io_held s"
  shows "read_ok (release_loop k s) \<and> io_held (release_loop k s) = 0
     \<and> blocks_left (release_loop k s) = drop k (blocks_left s)"
  using assms
proof (induction k arbitrary: s)
  case (Suc k)
  define s1 where "s1 = s\<lparr>io_head := io_next s (io_head s), io_count := io_count s - 1, io_held := k\<rparr>"
  have sel: "io_count s1 = io_count s - 1" "io_held s1 = k" "io_head s1 = io_next s (io_head s)"
    "io_slots s1 = io_slots s" "io_tail s1 = io_tail s" "io_packets s1 = io_packets s"
    "io_lengths s1 = io_lengths s" "io_packetsize s1 = io_packetsize s" "io_blocksize s1 = io_blocksize s"
    "io_window s1 = io_window s" "io_file s1 = io_file s" "io_err s1 = io_err s" "io_eof s1 = io_eof s"
    "unread s1 = unread s"
    by (simp_all add: s1_def unread_def)
  have ring: "ring_ok s" and c: "0 < io_count s" "k < io_count s"
    using Suc.prems by (auto simp: read_ok_def ring_ok_def)
  have sl: "slot s1 i = slot s (Suc i)" for i
    by (rule pop_written_slot [OF ring]) (simp_all add: sel)
  have ring': "ring_ok s1"
    using ring c sl [of "io_count s - 1"] slot_less [OF ring, of 1] io_next_head [OF ring]
    by (auto simp: ring_ok_def sel)
  have ok: "read_ok s1"
    using Suc.prems ring' c by (auto simp: read_ok_def sl sel)
  have "queued s1 i = queued s (Suc i)" for i by (simp add: queued_def sl sel)
  then have "read_queue s1 = map (\<lambda>i. th_data (queued s i)) [1..<io_count s]"
    using c by (cases "io_count s") (simp_all add: read_queue_def map_Suc_upt [symmetric] sel del: upt_Suc)
  moreover have "[0..<io_count s] = 0 # [1..<io_count s]" using c by (simp add: upt_conv_Cons)
  ultimately have "blocks_left s1 = tl (blocks_left s)"
    by (simp add: blocks_left_def read_queue_def sel)
  moreover have "release_loop (Suc k) s = release_loop k s1" by (simp add: s1_def)
  ultimately show ?case using Suc.IH [OF ok] by (simp add: drop_Suc sel del: release_loop.simps)
qed simp

lemma read_window_spec:
  assumes "read_ok (io w)" "tftp_io_read_window w = (Some (pc, fin), w')"
  shows "read_ok (io w') \<and> blocks_left (io w') = blocks_left (io w) \<and> length (held_packets (io w')) = pc
     \<and> map th_data (held_packets (io w')) = take pc (blocks_left (io w))
     \<and> (fin \<longleftrightarrow> pc = length (blocks_left (io w)))"
proof -
  define s where "s = io (read_fill w)"
  define h where "h = (if io_count s < io_window s then io_count s else io_window s)"
  have r: "io_err s = 0" "pc = h" "fin = (io_eof s \<and> h = io_count s)" "io w' = s\<lparr>io_held := h\<rparr>"
    using assms(2) by (auto simp: tftp_io_read_window_def Let_def s_def h_def split: if_splits)
  have sp: "read_ok s" "blocks_left s = blocks_left (io w)"
    using read_fill_spec [OF assms(1)] r(1) by (simp_all add: s_def Let_def)
  have h: "h \<le> io_count s" by (simp add: h_def)
  have ok: "read_ok (io w')" using sp(1) h by (simp add: r read_ok_def ring_ok_def slot_def)
  have q: "queued (s\<lparr>io_held := h\<rparr>) = queued s" by (rule ext) (simp add: queued_def slot_def)
  have left: "blocks_left (s\<lparr>io_held := h\<rparr>) = blocks_left s"
    by (simp add: blocks_left_def read_queue_def q unread_def)
  have "map th_data (held_packets (s\<lparr>io_held := h\<rparr>)) = take h (blocks_left s)"
    using h by (simp add: held_packets_def q blocks_left_def read_queue_def take_map comp_def)
  moreover have "(io_eof s \<and> h = io_count s) = (h = length (blocks_left s))"
    using h by (auto simp: blocks_left_def read_queue_def)
  ultimately show ?thesis using ok left sp by (simp add: r held_packets_def)
qed

lemma store_header_spec:
  assumes ok: "read_ok (io w)" and n: "n < length (held_packets (io w))" and h: "length h = 4"
  defines "w' \<equiv> mem_store (slot (io w) n) h w"
  shows "read_ok (io w') \<and> blocks_left (io w') = blocks_left (io w)
     \<and> held_packets (io w') = (held_packets (io w))[n := h @ drop 4 (held_packets (io w) ! n)]"
proof -
  define s where "s = io w"
  define s' where "s' = s\<lparr>io_packets := (io_packets s)[slot s n := h @ drop 4 (io_packets s ! slot s n)]\<rparr>"
  have w': "io w' = s'" by (simp add: w'_def mem_store_def s'_def s_def h)
  have ring: "ring_ok s" using ok by (simp add: read_ok_def s_def)
  have held: "n < io_held s" "io_held s \<le> io_count s" "io_count s \<le> io_slots s"
    using n ring by (simp_all add: held_packets_def s_def ring_ok_def)
  have sl: "slot s' i = slot s i" for i by (simp add: slot_def s'_def)
  have len: "slot s n < length (io_packets s)" "length (io_packets s ! slot s n) = io_packetsize s"
    using ring slot_less [OF ring, of n] by (simp_all add: ring_ok_def)
  have big: "4 \<le> io_packetsize s" using ring by (simp add: ring_ok_def)
  have "\<forall>p \<in> set (io_packets s'). length p = io_packetsize s"
    using ring len h big by (auto simp: s'_def ring_ok_def dest!: subsetD [OF set_update_subset_insert])
  then have ring': "ring_ok s'" using ring by (simp add: ring_ok_def s'_def slot_def)
  then have ok': "read_ok s'" using ok by (simp add: read_ok_def s_def [symmetric] sl) (simp add: s'_def)
  have l4: "4 \<le> io_lengths s ! slot s n" using ok held by (simp add: read_ok_def s_def)
  have qn: "queued s' n = h @ drop 4 (queued s n)"
    using len l4 h by (simp add: queued_def sl) (simp add: s'_def drop_take nat_diff_distrib)
  have qi: "queued s' i = queued s i" if "i < io_slots s" "i \<noteq> n" for i
  proof -
    have "slot s n \<noteq> slot s i" using slot_inj [of i s n] that held by auto
    then show ?thesis by (simp add: queued_def sl) (simp add: s'_def)
  qed
  have hp: "held_packets s' = (held_packets s)[n := h @ drop 4 (held_packets s ! n)]"
    using held qn qi by (intro nth_equalityI)
      (auto simp: held_packets_def nth_list_update s'_def [THEN arg_cong [of _ _ io_held]])
  have "th_data (queued s' i) = th_data (queued s i)" if "i < io_count s" for i
    using qn qi [of i] that held h by (cases "i = n") (simp_all add: th_data_def)
  then have "read_queue s' = read_queue s"
    by (simp add: read_queue_def s'_def [THEN arg_cong [of _ _ io_count]])
  then have "blocks_left s' = blocks_left s" by (simp add: blocks_left_def) (simp add: s'_def unread_def)
  with ok' hp show ?thesis by (simp add: w' s_def)
qed

text \<open>The adapter leaves the fields that extend \<open>io_world\<close> alone.\<close>

lemma ops_packet_more:
  "io_world.more (snd (ops_read_packet dp w)) = io_world.more w"
  "io_world.more (snd (ops_write_packet dp n w)) = io_world.more w"
  by (auto simp: ops_read_packet_def octet_read_packet_def netascii_read_packet_def Let_def
        ops_write_packet_def octet_write_packet_def netascii_write_packet_def
        split: tftp_io_ops.splits prod.splits)

lemma read_fill_more: "io_world.more (read_fill w) = io_world.more w"
proof (induction w rule: read_fill.induct)
  case (1 w)
  show ?case
  proof (cases "wants_packet (io w)")
    case True
    obtain r w' where rd: "ops_read_packet (io_tail (io w)) w = (r, w')" by (metis surj_pair)
    have "io_world.more w' = io_world.more w" using ops_packet_more(1) rd by (metis snd_conv)
    with 1 [OF True rd [symmetric]] True rd show ?thesis by (subst read_fill.simps) simp
  next
    case False
    then show ?thesis by (subst read_fill.simps) simp
  qed
qed

lemma drain_loop_more: "io_world.more (drain_loop w) = io_world.more w"
proof (induction w rule: drain_loop.induct)
  case (1 w)
  let ?len = "io_lengths (io w) ! io_head (io w)" and ?w = "w\<lparr>io := mark_writing (io w)\<rparr>"
  obtain r w' where wr: "ops_write_packet (io_head (io w)) ?len ?w = (r, w')" by (metis surj_pair)
  have m: "io_world.more w' = io_world.more w"
    using ops_packet_more(2) [of "io_head (io w)" ?len ?w] wr by simp
  show ?case
  proof (cases "io_count (io w) \<noteq> 0 \<and> io_err (io w) = 0 \<and> io_states (io w) ! io_head (io w) = SLOT_READY \<and> r = ?len")
    case True
    with 1 [OF _ _ refl wr [symmetric]] wr m show ?thesis
      by (subst drain_loop.simps) (simp add: Let_def)
  next
    case False
    with wr m show ?thesis by (subst drain_loop.simps) (auto simp: Let_def)
  qed
qed

lemma fflush_more: "io_world.more (snd (fflush f w)) = io_world.more w"
  by (simp add: fflush_def split: option.splits)

lemma adapter_more:
  "io_world.more (snd (tftp_io_read_window w)) = io_world.more w"
  "io_world.more (mem_store dp p w) = io_world.more w"
  "io_world.more (tftp_io_read_release w) = io_world.more w"
  "io_world.more (snd (tftp_io_writer_reserve w)) = io_world.more w"
  "io_world.more (snd (tftp_io_write_publish n w)) = io_world.more w"
  "io_world.more (snd (tftp_io_write_drain w)) = io_world.more w"
  "io_world.more (snd (tftp_io_write_finish w)) = io_world.more w"
  by (simp_all add: tftp_io_read_window_def mem_store_def tftp_io_read_release_def
        tftp_io_writer_reserve_def tftp_io_write_publish_def tftp_io_write_drain_def
        tftp_io_write_finish_def ops_write_finish_def octet_write_finish_def netascii_write_finish_def
        fflush_def Let_def read_fill_more drain_loop_more
        split: option.splits tftp_io_ops.splits prod.splits)

interpretation tio_source:
  xfer_source tftp_io_xfer_ops io "\<lambda>w. f (io_world.more w)" read_ok held_packets blocks_left
  for f :: "'a \<Rightarrow> packet list"
proof (unfold_locales, goal_cases)
  case (1 w)
  then show ?case by (simp add: tftp_io_xfer_ops_def adapter_more)
next
  case (2 w pc fin w')
  then show ?case using read_window_spec [of w pc fin w'] by (simp add: tftp_io_xfer_ops_def)
next
  case (3 v p)
  then obtain i where "i < io_held v" "p = queued v i" by (auto simp: held_packets_def)
  with 3 queued_length(2) [of v i] show ?case by (simp add: read_ok_def ring_ok_def)
next
  case (4 w n)
  then have n: "n < io_held (io w)" "n < io_count (io w)"
    by (simp_all add: held_packets_def read_ok_def ring_ok_def)
  have "length (held_packets (io w) ! n) = nat (io_lengths (io w) ! slot (io w) n)"
    using queued_length(1) [OF 4(1) n(2)] n by (simp add: held_packets_def)
  then show ?case
    using store_header_spec [OF 4] n
    by (intro exI [of _ "slot (io w) n"])
       (simp add: tftp_io_xfer_ops_def tftp_io_read_packet_def slot_def [symmetric] mem_load_def
          held_packets_def queued_def adapter_more)
next
  case (5 w n)
  then have n: "n < io_held (io w)" "n < io_count (io w)"
    by (simp_all add: held_packets_def read_ok_def ring_ok_def)
  with queued_length(1) [OF 5(1) n(2)] show ?case
    by (simp add: tftp_io_xfer_ops_def tftp_io_read_length_def slot_def [symmetric] held_packets_def)
next
  case (6 w)
  with release_loop_spec [of "io w" "io_held (io w)"] show ?case
    by (simp add: tftp_io_xfer_ops_def adapter_more) (simp add: tftp_io_read_release_def held_packets_def)
qed

lemma drain_loop_const:
  "io_ops (io (drain_loop w)) = io_ops (io w) \<and> io_blocksize (io (drain_loop w)) = io_blocksize (io w)"
proof (induction w rule: drain_loop.induct)
  case (1 w)
  let ?len = "io_lengths (io w) ! io_head (io w)" and ?w = "w\<lparr>io := mark_writing (io w)\<rparr>"
  obtain r w' where wr: "ops_write_packet (io_head (io w)) ?len ?w = (r, w')" by (metis surj_pair)
  have m: "io_ops (io w') = io_ops (io w)" "io_blocksize (io w') = io_blocksize (io w)"
    using ops_write_packet_frame [OF wr] by (simp_all add: mark_writing_def)
  show ?case
  proof (cases "io_count (io w) \<noteq> 0 \<and> io_err (io w) = 0 \<and> io_states (io w) ! io_head (io w) = SLOT_READY \<and> r = ?len")
    case True
    with 1 [OF _ _ refl wr [symmetric]] wr m show ?thesis
      by (subst (1 2) drain_loop.simps) (simp add: Let_def pop_written_def)
  next
    case False
    with wr m show ?thesis by (subst (1 2) drain_loop.simps) (auto simp: Let_def io_error_def)
  qed
qed

lemma drain_const:
  "tftp_io_write_drain w = (r, w') \<Longrightarrow>
     io_ops (io w') = io_ops (io w) \<and> io_blocksize (io w') = io_blocksize (io w)"
  using drain_loop_const [of w]
  by (auto simp: tftp_io_write_drain_def fflush_def io_error_def Let_def
        split: if_splits option.splits)

lemma finish_const: "tftp_io_write_finish w = (r, w') \<Longrightarrow> io_ops (io w') = io_ops (io w)"
  by (auto simp: tftp_io_write_finish_def ops_write_finish_def octet_write_finish_def
        netascii_write_finish_def fflush_def io_error_def Let_def
        split: if_splits option.splits tftp_io_ops.splits prod.splits)

interpretation tio_sink:
  xfer_sink tftp_io_xfer_ops io "\<lambda>w. f (io_world.more w)" write_ok io_blocksize slot_reserved
    "data_accepted m" "\<lambda>s. io_count s = 0" "data_complete m"
  for f :: "'a \<Rightarrow> packet list" and m
proof (unfold_locales, goal_cases)
  case (1 w dp w')
  then show ?case
    using reserve_spec [of w dp w']
    by (simp add: tftp_io_xfer_ops_def slot_reserved_def data_accepted_def)
next
  case (2 w)
  then show ?case by (simp add: tftp_io_xfer_ops_def adapter_more)
next
  case (3 w dp p r w')
  then have dp: "dp = io_tail (io w)" "io_states (io w) ! io_tail (io w) = SLOT_RESERVED"
    by (simp_all add: slot_reserved_def)
  have "tftp_io_write_publish (int (length p) - 4) (mem_store (io_tail (io w)) p w) = (r, w')"
    using 3(5) dp by (simp add: tftp_io_xfer_ops_def)
  from publish_spec [OF 3(1) dp(2) 3(3,4) this] show ?case
    by (cases "io_ops (io w)") (auto simp: data_accepted_def decode_netascii_append)
next
  case (4 n dp p w)
  then show ?case by (simp add: tftp_io_xfer_ops_def adapter_more)
next
  case (5 w r w')
  then show ?case
    using drain_spec [of w r w'] drain_const [of w r w']
    by (simp add: tftp_io_xfer_ops_def data_accepted_def)
next
  case (6 w)
  then show ?case by (simp add: tftp_io_xfer_ops_def adapter_more)
next
  case 7
  then show ?case by (simp add: tftp_io_xfer_ops_def)
next
  case (8 w r w' x)
  then show ?case
    using finish_spec [of w r w' x] finish_const [of w r w']
    by (simp add: tftp_io_xfer_ops_def data_accepted_def data_complete_def)
next
  case (9 w)
  then show ?case by (simp add: tftp_io_xfer_ops_def adapter_more)
qed

subsection \<open>Starting\<close>

lemma packet_size_bounds:
  assumes "b < 2 ^ 32"
  shows "b + 4 \<le> packet_size b" "packet_size b \<le> b + 5"
proof -
  have "unat (of_nat b + 5 :: u64) = b + 5"
    using assms by (simp add: unat_word_ariths unat_of_nat)
  with and_not_one [of "of_nat b + 5"]
  show "b + 4 \<le> packet_size b" "packet_size b \<le> b + 5" by (simp_all add: packet_size_def)
qed

lemma io_start_ring:
  assumes "io_start f conv n wnd b dir thr te w = (Some s, w')" "b < 2 ^ 32"
  shows "ring_ok s \<and> io_err s = 0 \<and> io_held s = 0 \<and> io_count s = 0 \<and> io_blocksize s = b
     \<and> io_file s = f \<and> \<not> io_eof s \<and> \<not> io_newline s \<and> \<not> io_write_cr s \<and> io_slots s = n \<and> io_window s = wnd
     \<and> io_ops s = (if conv then netascii_io_ops else octet_io_ops)
     \<and> (dir = IO_WRITE \<longrightarrow> io_states s = replicate n SLOT_EMPTY)"
  using assms packet_size_bounds(1) [OF assms(2)]
  by (auto simp: io_start_def ring_ok_def slot_def split: if_splits)

lemma reader_start_spec:
  assumes "tftp_io_reader_start f conv wnd n b thr te w = (Some s, w')" "b < 2 ^ 32" "\<not> f_ferror f"
  shows "read_ok s" "blocks_left s = chunks b (encode (io_ops s) (f_in f))"
    "io_ops s = (if conv then netascii_io_ops else octet_io_ops)"
proof -
  have st: "io_start f conv n wnd b IO_READ thr te w = (Some s, w')"
    using assms(1) by (simp add: tftp_io_reader_start_def)
  note R = io_start_ring [OF st assms(2)]
  have "wnd \<le> n" using st by (auto simp: io_start_def split: if_splits)
  with R assms(3) show "read_ok s" by (simp add: read_ok_def)
  from R show "blocks_left s = chunks b (encode (io_ops s) (f_in f))"
    by (simp add: blocks_left_def read_queue_def unread_def)
  from R show "io_ops s = (if conv then netascii_io_ops else octet_io_ops)" by simp
qed

lemma writer_start_spec:
  assumes "tftp_io_writer_start f conv n b thr te w = (Some s, w')" "b < 2 ^ 32" "f_out f = []"
  shows "write_ok s" "io_blocksize s = b" "data_accepted (io_ops s) s []"
    "io_ops s = (if conv then netascii_io_ops else octet_io_ops)"
proof -
  have st: "io_start f conv n 0 b IO_WRITE thr te w = (Some s, w')"
    using assms(1) by (simp add: tftp_io_writer_start_def)
  note R = io_start_ring [OF st assms(2)]
  have states: "io_states s = replicate (io_slots s) SLOT_EMPTY"
    using R by simp
  have "slot s i < io_slots s" for i using R slot_less by blast
  with R states show "write_ok s" by (simp add: write_ok_def ring_ok_def)
  from R show "io_blocksize s = b" by simp
  from R assms(3) show "data_accepted (io_ops s) s []"
    by (cases "io_ops s") (simp_all add: data_accepted_def absorbed_def write_queue_def)
  from R show "io_ops s = (if conv then netascii_io_ops else octet_io_ops)" by simp
qed

end
