(* ===== verification/Transport.thy ===== *)
theory Transport
  imports Tftp_io
begin

text \<open>
  The transport callbacks of the daemon (\<open>daemon_xfer_ops\<close> in \<open>tftpd/tftpd.c\<close>) and of
  the client (\<open>client_xfer_ops\<close> in \<open>tftp/tftp.c\<close>) with the retransmission timers of
  both programs. \<open>sent_packets\<close> records the packets handed to the network;
  \<open>send_plan\<close> says how the coming system calls end: 0 for success, else the error number,
  and all succeed once it is empty. Tracing output is not part of the state. The callbacks
  interpret the engine's \<open>xfer_transport\<close>, with the I/O adapter \<open>xfer_sender\<close> and
  \<open>xfer_receiver\<close>.
\<close>

section \<open>Definitions\<close>

definition TIMEOUT_LIMIT :: u64 where
  "TIMEOUT_LIMIT = push_bit 6 1 - 1"

definition USEC_PER_SEC :: u64 where
  "USEC_PER_SEC = 1000000"

definition MIN_TIMEOUT :: u64 where
  "MIN_TIMEOUT = 10000"

definition MAX_TIMEOUT :: u64 where
  "MAX_TIMEOUT = 255 * USEC_PER_SEC"

record xfer_world = io_world +
  timeout :: u64
  rexmtval :: u64
  maxtimeout :: u64
  timeout_quit :: bool
  ctx_timeout :: u64
  retry_active :: bool
  sent_packets :: "packet list"
  send_plan :: "int list"

definition socket_send :: "packet \<Rightarrow> 'a xfer_world_scheme \<Rightarrow> int \<times> 'a xfer_world_scheme" where
  "socket_send p w =
     (case send_plan w of
        [] \<Rightarrow> (0, w\<lparr>sent_packets := sent_packets w @ [p]\<rparr>)
      | e # es \<Rightarrow>
          if e = 0 then (0, w\<lparr>sent_packets := sent_packets w @ [p], send_plan := es\<rparr>)
          else (-1, w\<lparr>send_plan := es, errno := e\<rparr>))"

subsection \<open>The daemon\<close>

text \<open>\<open>None\<close> is the daemon's exit; otherwise control jumps to the retry buffer.\<close>

definition daemon_timer :: "'a xfer_world_scheme \<Rightarrow> 'a xfer_world_scheme option" where
  "daemon_timer w =
     (let t = push_bit 1 (timeout w)
      in if t \<ge> maxtimeout w \<or> timeout_quit w then None else Some (w\<lparr>timeout := t\<rparr>))"

definition daemon_xfer_send :: "packet \<Rightarrow> 'a xfer_world_scheme \<Rightarrow> int \<times> 'a xfer_world_scheme" where
  "daemon_xfer_send p w = socket_send p w"

definition daemon_xfer_received :: "packet \<Rightarrow> int \<Rightarrow> 'a xfer_world_scheme \<Rightarrow> 'a xfer_world_scheme" where
  "daemon_xfer_received p n w = w"

definition daemon_xfer_retry_enter :: "bool \<Rightarrow> 'a xfer_world_scheme \<Rightarrow> 'a xfer_world_scheme" where
  "daemon_xfer_retry_enter restarted w =
     (let w1 = w\<lparr>retry_active := True\<rparr>
      in if restarted then w1 else w1\<lparr>timeout := rexmtval w\<rparr>)"

definition daemon_xfer_retry_leave :: "'a xfer_world_scheme \<Rightarrow> 'a xfer_world_scheme" where
  "daemon_xfer_retry_leave w = w\<lparr>retry_active := False\<rparr>"

definition daemon_xfer_wait_begin :: "'a xfer_world_scheme \<Rightarrow> 'a xfer_world_scheme" where
  "daemon_xfer_wait_begin w = w\<lparr>ctx_timeout := timeout w\<rparr>"

text \<open>
  After the last ACK of an upload the daemon waits once more and repeats the ACK when the
  last DATA comes again. The argument is what \<open>recv_time\<close> returned: \<open>None\<close> is the
  timeout, on which the daemon exits.
\<close>

definition daemon_xfer_dally ::
  "u16 \<Rightarrow> (int \<times> packet) option \<Rightarrow> 'a xfer_world_scheme \<Rightarrow> 'a xfer_world_scheme option" where
  "daemon_xfer_dally last_acked ev w =
     (let w1 = w\<lparr>timeout_quit := True\<rparr>
      in case ev of
           None \<Rightarrow> daemon_timer w1
         | Some (n, hdr) \<Rightarrow>
             let w2 = w1\<lparr>timeout_quit := False\<rparr>
             in if n \<ge> 4 \<and> th_opcode hdr = DATA \<and> th_block hdr = last_acked
                then Some (snd (socket_send (put16 ACK @ take 2 (drop 2 hdr)) w2))
                else Some w2)"

definition daemon_xfer_ops :: "'a xfer_world_scheme tftp_xfer_ops" where
  "daemon_xfer_ops =
     \<lparr>xsend = daemon_xfer_send, xreceived = daemon_xfer_received,
      xretry_enter = daemon_xfer_retry_enter, xretry_leave = daemon_xfer_retry_leave,
      xwait_begin = daemon_xfer_wait_begin\<rparr>"

subsection \<open>The client\<close>

text \<open>\<open>None\<close> is the jump to the command loop that gives the transfer up.\<close>

definition client_timer :: "'a xfer_world_scheme \<Rightarrow> 'a xfer_world_scheme option" where
  "client_timer w =
     (let t = push_bit 1 (timeout w)
      in if t > maxtimeout w then None else Some (w\<lparr>timeout := t\<rparr>))"

definition client_xfer_send :: "packet \<Rightarrow> 'a xfer_world_scheme \<Rightarrow> int \<times> 'a xfer_world_scheme" where
  "client_xfer_send p w = socket_send p w"

definition client_xfer_received :: "packet \<Rightarrow> int \<Rightarrow> 'a xfer_world_scheme \<Rightarrow> 'a xfer_world_scheme" where
  "client_xfer_received p n w = w"

definition client_xfer_retry_enter :: "bool \<Rightarrow> 'a xfer_world_scheme \<Rightarrow> 'a xfer_world_scheme" where
  "client_xfer_retry_enter restarted w =
     (let w1 = w\<lparr>retry_active := True\<rparr>
      in if restarted then w1 else w1\<lparr>timeout := rexmtval w\<rparr>)"

definition client_xfer_retry_leave :: "'a xfer_world_scheme \<Rightarrow> 'a xfer_world_scheme" where
  "client_xfer_retry_leave w = w\<lparr>retry_active := False\<rparr>"

definition client_xfer_wait_begin :: "'a xfer_world_scheme \<Rightarrow> 'a xfer_world_scheme" where
  "client_xfer_wait_begin w = w\<lparr>ctx_timeout := timeout w\<rparr>"

definition client_xfer_ops :: "'a xfer_world_scheme tftp_xfer_ops" where
  "client_xfer_ops =
     \<lparr>xsend = client_xfer_send, xreceived = client_xfer_received,
      xretry_enter = client_xfer_retry_enter, xretry_leave = client_xfer_retry_leave,
      xwait_begin = client_xfer_wait_begin\<rparr>"

subsection \<open>Giving up\<close>

text \<open>A number of timeouts in a row; \<open>None\<close> when the daemon has exited.\<close>

fun daemon_timeouts :: "nat \<Rightarrow> 'a xfer_world_scheme \<Rightarrow> 'a xfer_world_scheme option" where
  "daemon_timeouts 0 w = Some w"
| "daemon_timeouts (Suc n) w =
     (case daemon_timeouts n w of
        None \<Rightarrow> None
      | Some w' \<Rightarrow> map_option (daemon_xfer_retry_enter True) (daemon_timer w'))"

fun client_timeouts :: "nat \<Rightarrow> 'a xfer_world_scheme \<Rightarrow> 'a xfer_world_scheme option" where
  "client_timeouts 0 w = Some w"
| "client_timeouts (Suc n) w =
     (case client_timeouts n w of
        None \<Rightarrow> None
      | Some w' \<Rightarrow> map_option (client_xfer_retry_enter True) (client_timer w'))"

subsection \<open>A world to run examples in\<close>

definition file_of :: "char list \<Rightarrow> FILE" where
  "file_of s = \<lparr>f_in = s, f_in_error = False, f_ferror = False, f_out = [], f_room = None, f_flush = None\<rparr>"

definition world_of :: "tftp_io \<Rightarrow> u64 \<Rightarrow> xfer_world" where
  "world_of s rexmt =
     \<lparr>errno = 0, io = s, timeout = rexmt, rexmtval = rexmt, maxtimeout = rexmt * TIMEOUT_LIMIT,
      timeout_quit = False, ctx_timeout = 0, retry_active = False, sent_packets = [], send_plan = []\<rparr>"

definition reader_of :: "bool \<Rightarrow> nat \<Rightarrow> nat \<Rightarrow> char list \<Rightarrow> tftp_io" where
  "reader_of conv wnd bs s =
     the (fst (tftp_io_reader_start (file_of s) conv wnd wnd bs False 0 \<lparr>errno = 0\<rparr>))"

definition writer_of :: "bool \<Rightarrow> nat \<Rightarrow> nat \<Rightarrow> tftp_io" where
  "writer_of conv wnd bs =
     the (fst (tftp_io_writer_start (file_of []) conv wnd bs False 0 \<lparr>errno = 0\<rparr>))"

section \<open>Lemmas\<close>

lemma socket_send_frame:
  "io (snd (socket_send p w)) = io w"
  "sent_packets (snd (socket_send p w)) = sent_packets w
     \<or> sent_packets (snd (socket_send p w)) = sent_packets w @ [p]"
  "0 \<le> fst (socket_send p w) \<Longrightarrow> sent_packets (snd (socket_send p w)) = sent_packets w @ [p]"
  by (auto simp: socket_send_def split: list.splits)

interpretation daemon_transport: xfer_transport daemon_xfer_ops io sent_packets
  by unfold_locales
     (auto simp: daemon_xfer_ops_def daemon_xfer_send_def daemon_xfer_received_def socket_send_frame
        daemon_xfer_retry_enter_def daemon_xfer_retry_leave_def daemon_xfer_wait_begin_def Let_def)

interpretation client_transport: xfer_transport client_xfer_ops io sent_packets
  by unfold_locales
     (auto simp: client_xfer_ops_def client_xfer_send_def client_xfer_received_def socket_send_frame
        client_xfer_retry_enter_def client_xfer_retry_leave_def client_xfer_wait_begin_def Let_def)

lemma sent_packets_more:
  "(\<lambda>w. sent_packets (io_world.extend (io_world.make 0 undefined) (io_world.more w))) = sent_packets"
proof
  fix w :: "'a xfer_world_scheme"
  show "sent_packets (io_world.extend (io_world.make 0 undefined) (io_world.more w)) = sent_packets w"
    by (cases w) (simp add: io_world.defs)
qed

lemma adapter_source: "xfer_source tftp_io_xfer_ops io sent_packets read_ok held_packets blocks_left"
  using tio_source.xfer_source_axioms
    [where f = "\<lambda>m. sent_packets (io_world.extend (io_world.make 0 undefined) m)"]
  by (simp add: sent_packets_more)

lemma adapter_sink:
  "xfer_sink tftp_io_xfer_ops io sent_packets write_ok io_blocksize slot_reserved (data_accepted m)
     (\<lambda>s. io_count s = 0) (data_complete m)"
  using tio_sink.xfer_sink_axioms
    [where m = m and f = "\<lambda>m. sent_packets (io_world.extend (io_world.make 0 undefined) m)"]
  by (simp add: sent_packets_more)

interpretation daemon_sender:
  xfer_sender daemon_xfer_ops tftp_io_xfer_ops io sent_packets read_ok held_packets blocks_left
  by (intro xfer_sender.intro adapter_source daemon_transport.xfer_transport_axioms)

interpretation client_sender:
  xfer_sender client_xfer_ops tftp_io_xfer_ops io sent_packets read_ok held_packets blocks_left
  by (intro xfer_sender.intro adapter_source client_transport.xfer_transport_axioms)

interpretation daemon_receiver:
  xfer_receiver daemon_xfer_ops tftp_io_xfer_ops io sent_packets write_ok io_blocksize slot_reserved
    "data_accepted m" "\<lambda>s. io_count s = 0" "data_complete m" for m
  by (intro xfer_receiver.intro adapter_sink daemon_transport.xfer_transport_axioms)

interpretation client_receiver:
  xfer_receiver client_xfer_ops tftp_io_xfer_ops io sent_packets write_ok io_blocksize slot_reserved
    "data_accepted m" "\<lambda>s. io_count s = 0" "data_complete m" for m
  by (intro xfer_receiver.intro adapter_sink client_transport.xfer_transport_axioms)

lemma unat_scale:
  assumes "k \<le> 64" "r \<le> MAX_TIMEOUT"
  shows "unat (of_nat k * r) = k * unat r"
proof -
  have r: "unat r \<le> 255000000"
    using assms(2) by (simp add: MAX_TIMEOUT_def USEC_PER_SEC_def word_le_nat_alt)
  then have "k * unat r \<le> 64 * 255000000" using assms(1) by (intro mult_le_mono)
  moreover have "unat (of_nat k :: u64) = k" using assms(1) by (simp add: unat_of_nat)
  ultimately show ?thesis by (simp add: unat_word_ariths)
qed

lemma timeout_below_limit:
  assumes "k \<le> 64" "MIN_TIMEOUT \<le> r" "r \<le> MAX_TIMEOUT"
  shows "r * TIMEOUT_LIMIT \<le> of_nat k * r \<longleftrightarrow> 63 \<le> k" "r * TIMEOUT_LIMIT < of_nat k * r \<longleftrightarrow> 63 < k"
proof -
  have "0 < unat r" using assms(2) by (auto simp: MIN_TIMEOUT_def word_le_nat_alt)
  moreover have "unat (r * TIMEOUT_LIMIT) = 63 * unat r"
    using unat_scale [of 63 r] assms(3) by (simp add: TIMEOUT_LIMIT_def mult.commute)
  ultimately show "r * TIMEOUT_LIMIT \<le> of_nat k * r \<longleftrightarrow> 63 \<le> k" "r * TIMEOUT_LIMIT < of_nat k * r \<longleftrightarrow> 63 < k"
    using unat_scale [OF assms(1,3)] by (simp_all add: word_le_nat_alt word_less_nat_alt)
qed

lemma daemon_timeouts_Some:
  assumes "n \<le> 5" "MIN_TIMEOUT \<le> rexmtval w" "rexmtval w \<le> MAX_TIMEOUT"
    and "maxtimeout w = rexmtval w * TIMEOUT_LIMIT" "timeout w = rexmtval w" "\<not> timeout_quit w"
  shows "\<exists>w'. daemon_timeouts n w = Some w' \<and> timeout w' = of_nat (2 ^ n) * rexmtval w
     \<and> maxtimeout w' = maxtimeout w \<and> timeout_quit w' = timeout_quit w"
  using assms(1)
proof (induction n)
  case (Suc n)
  then obtain w' where w': "daemon_timeouts n w = Some w'" "timeout w' = of_nat (2 ^ n) * rexmtval w"
      "maxtimeout w' = maxtimeout w" "timeout_quit w' = timeout_quit w" by auto
  have "push_bit 1 (timeout w') = of_nat (2 ^ Suc n) * rexmtval w"
    by (simp add: w' push_bit_eq_mult)
  moreover have "2 ^ Suc n \<le> (32 :: nat)"
    using Suc.prems power_increasing [of "Suc n" 5 "2::nat"] by simp
  then have "\<not> maxtimeout w \<le> of_nat (2 ^ Suc n) * rexmtval w"
    using timeout_below_limit(1) [of "2 ^ Suc n" "rexmtval w"] assms by simp
  ultimately show ?case
    using w' assms by (simp add: daemon_timer_def daemon_xfer_retry_enter_def Let_def mult_ac)
qed (use assms in simp)

lemma client_timeouts_Some:
  assumes "n \<le> 5" "MIN_TIMEOUT \<le> rexmtval w" "rexmtval w \<le> MAX_TIMEOUT"
    and "maxtimeout w = rexmtval w * TIMEOUT_LIMIT" "timeout w = rexmtval w"
  shows "\<exists>w'. client_timeouts n w = Some w' \<and> timeout w' = of_nat (2 ^ n) * rexmtval w
     \<and> maxtimeout w' = maxtimeout w"
  using assms(1)
proof (induction n)
  case (Suc n)
  then obtain w' where w': "client_timeouts n w = Some w'" "timeout w' = of_nat (2 ^ n) * rexmtval w"
      "maxtimeout w' = maxtimeout w" by auto
  have "push_bit 1 (timeout w') = of_nat (2 ^ Suc n) * rexmtval w"
    by (simp add: w' push_bit_eq_mult)
  moreover have "2 ^ Suc n \<le> (32 :: nat)"
    using Suc.prems power_increasing [of "Suc n" 5 "2::nat"] by simp
  then have "\<not> maxtimeout w < of_nat (2 ^ Suc n) * rexmtval w"
    using timeout_below_limit(2) [of "2 ^ Suc n" "rexmtval w"] assms by simp
  ultimately show ?case
    using w' assms by (simp add: client_timer_def client_xfer_retry_enter_def Let_def mult_ac)
qed (use assms in simp)

section \<open>Properties\<close>



end
