(* ===== verification/File_Transfer.thy ===== *)
theory File_Transfer
  imports Transport
begin

text \<open>
  Two engines of \<open>common/tftp-xfer.c\<close> joined by a network that may lose, delay, duplicate
  and reorder packets: any packet ever sent may arrive at the other side, any number of
  times or never. Either side may also time out or see its socket fail at any moment, and
  its timers may change between two steps. \<open>link_step\<close> is the resulting step relation.

  The locale \<open>xfer_link\<close> joins a sender and a receiver; its invariant follows how many
  blocks the receiver has and which acknowledgements are on the network. It is interpreted
  for downloads (daemon to client) and uploads (client to daemon). A transfer of fewer than
  65536 blocks is assumed, so that block numbers do not repeat: beyond that a delayed
  duplicate of an old block cannot be told from a new one.
\<close>

section \<open>Definitions\<close>

record ('s, 'r) link =
  snd_out :: "send_state outcome"
  snd_world :: 's
  rcv_out :: "recv_state outcome"
  rcv_world :: 'r

inductive link_step ::
  "'a world_scheme tftp_xfer \<Rightarrow> 'a world_scheme tftp_xfer_io_ops \<Rightarrow> ('a world_scheme \<Rightarrow> 'v) \<Rightarrow>
   ('a world_scheme \<Rightarrow> packet list) \<Rightarrow>
   'b world_scheme tftp_xfer \<Rightarrow> 'b world_scheme tftp_xfer_io_ops \<Rightarrow> ('b world_scheme \<Rightarrow> 'u) \<Rightarrow>
   ('b world_scheme \<Rightarrow> packet list) \<Rightarrow>
   ('a world_scheme, 'b world_scheme) link \<Rightarrow> ('a world_scheme, 'b world_scheme) link \<Rightarrow> bool"
  for xs sio svw ssent xr rio rvw rsent
where
  snd_packet: "snd_out l = Waiting st \<Longrightarrow> p \<in> set (rsent (rcv_world l)) \<Longrightarrow>
     send_step xs sio st (RecvRet (int (length p)) p) (snd_world l) = (out, w') \<Longrightarrow>
     link_step xs sio svw ssent xr rio rvw rsent l (l\<lparr>snd_out := out, snd_world := w'\<rparr>)"
| snd_local: "snd_out l = Waiting st \<Longrightarrow> ev = RecvTimeout \<or> ev = RecvFail e \<Longrightarrow>
     send_step xs sio st ev (snd_world l) = (out, w') \<Longrightarrow>
     link_step xs sio svw ssent xr rio rvw rsent l (l\<lparr>snd_out := out, snd_world := w'\<rparr>)"
| snd_env: "svw w' = svw (snd_world l) \<Longrightarrow> ssent w' = ssent (snd_world l) \<Longrightarrow>
     link_step xs sio svw ssent xr rio rvw rsent l (l\<lparr>snd_world := w'\<rparr>)"
| rcv_packet: "rcv_out l = Waiting st' \<Longrightarrow> p \<in> set (ssent (snd_world l)) \<Longrightarrow>
     recv_step xr rio st' (RecvRet (int (length p)) p) (rcv_world l) = (out', v') \<Longrightarrow>
     link_step xs sio svw ssent xr rio rvw rsent l (l\<lparr>rcv_out := out', rcv_world := v'\<rparr>)"
| rcv_local: "rcv_out l = Waiting st' \<Longrightarrow> ev = RecvTimeout \<or> ev = RecvFail e \<Longrightarrow>
     recv_step xr rio st' ev (rcv_world l) = (out', v') \<Longrightarrow>
     link_step xs sio svw ssent xr rio rvw rsent l (l\<lparr>rcv_out := out', rcv_world := v'\<rparr>)"
| rcv_env: "rvw v' = rvw (rcv_world l) \<Longrightarrow> rsent v' = rsent (rcv_world l) \<Longrightarrow>
     link_step xs sio svw ssent xr rio rvw rsent l (l\<lparr>rcv_world := v'\<rparr>)"

text \<open>The blocks of a file: full ones, then a last one that is shorter.\<close>

definition proper_blocks :: "nat \<Rightarrow> char list list \<Rightarrow> bool" where
  "proper_blocks b bl \<longleftrightarrow>
     bl \<noteq> [] \<and> length bl \<le> 65535 \<and> (\<forall>i < length bl. length (bl ! i) = b \<longleftrightarrow> Suc i < length bl)
     \<and> length (last bl) < b"

text \<open>An initial reply is an OACK or an ACK of block 0, never an ACK of data.\<close>

definition harmless_reply :: "packet option \<Rightarrow> bool" where
  "harmless_reply rep \<longleftrightarrow> (\<forall>p \<in> set_option rep. th_opcode p = ACK \<longrightarrow> th_block p = 0)"

definition start_transfer ::
  "'a world_scheme tftp_xfer \<Rightarrow> 'b world_scheme tftp_xfer \<Rightarrow> int \<Rightarrow> packet option \<Rightarrow> 'a world_scheme \<Rightarrow> 'b world_scheme
     \<Rightarrow> ('a world_scheme, 'b world_scheme) link" where
  "start_transfer xs xr isz rep sw rw =
     (case tftp_xfer_send xs sw of (sout, sw') \<Rightarrow>
        case tftp_xfer_recv xr isz rep None rw of (rout, rw') \<Rightarrow>
          \<lparr>snd_out = sout, snd_world = sw', rcv_out = rout, rcv_world = rw'\<rparr>)"

definition transfer_step ::
  "xfer_world tftp_xfer \<Rightarrow> xfer_world tftp_xfer \<Rightarrow> (xfer_world, xfer_world) link
     \<Rightarrow> (xfer_world, xfer_world) link \<Rightarrow> bool" where
  "transfer_step xs xr =
     link_step xs tftp_io_xfer_ops io sent_packets xr tftp_io_xfer_ops io sent_packets"

text \<open>
  The schedule of a network that loses nothing: the next undelivered packet goes to the
  receiver, and when there is none, the next undelivered reply goes to the sender. \<open>i\<close> and
  \<open>j\<close> count the packets that were delivered in each direction.
\<close>

definition lossless_step ::
  "'a world_scheme tftp_xfer \<Rightarrow> 'a world_scheme tftp_xfer_io_ops \<Rightarrow> ('a world_scheme \<Rightarrow> packet list) \<Rightarrow>
   'b world_scheme tftp_xfer \<Rightarrow> 'b world_scheme tftp_xfer_io_ops \<Rightarrow> ('b world_scheme \<Rightarrow> packet list) \<Rightarrow>
   nat \<times> nat \<times> ('a world_scheme, 'b world_scheme) link \<Rightarrow> nat \<times> nat \<times> ('a world_scheme, 'b world_scheme) link" where
  "lossless_step xs sio ssent xr rio rsent c =
     (case c of (i, j, l) \<Rightarrow>
        let reply =
          (case snd_out l of
             Waiting st \<Rightarrow>
               if j < length (rsent (rcv_world l)) then
                 let p = rsent (rcv_world l) ! j
                 in case send_step xs sio st (RecvRet (int (length p)) p) (snd_world l) of
                      (out, w) \<Rightarrow> (i, Suc j, l\<lparr>snd_out := out, snd_world := w\<rparr>)
               else c
           | Finished _ \<Rightarrow> c)
        in (case rcv_out l of
              Waiting st \<Rightarrow>
                if i < length (ssent (snd_world l)) then
                  let p = ssent (snd_world l) ! i
                  in case recv_step xr rio st (RecvRet (int (length p)) p) (rcv_world l) of
                       (out, v) \<Rightarrow> (Suc i, j, l\<lparr>rcv_out := out, rcv_world := v\<rparr>)
                else reply
            | Finished _ \<Rightarrow> reply))"

definition lossless ::
  "xfer_world tftp_xfer \<Rightarrow> xfer_world tftp_xfer \<Rightarrow> nat \<Rightarrow> nat \<Rightarrow> nat \<Rightarrow> (xfer_world, xfer_world) link
     \<Rightarrow> (xfer_world, xfer_world) link" where
  "lossless xs xr n i j l =
     snd (snd ((lossless_step xs tftp_io_xfer_ops sent_packets xr tftp_io_xfer_ops sent_packets ^^ n) (i, j, l)))"

text \<open>A sender that has just opened the file \<open>f\<close>, and a receiver that has just created its file.\<close>

definition fresh_sender :: "xfer_world tftp_xfer \<Rightarrow> bool \<Rightarrow> FILE \<Rightarrow> xfer_world \<Rightarrow> bool" where
  "fresh_sender xs conv f sw \<longleftrightarrow>
     (\<exists>wnd n thr w w'. tftp_io_reader_start f conv wnd n (blocksize xs) thr 0 w = (Some (io sw), w' :: world))
     \<and> \<not> f_ferror f \<and> sent_packets sw = [] \<and> blocksize xs < 2 ^ 31
     \<and> x_io_ops xs = Some tftp_io_xfer_ops"

definition fresh_receiver :: "xfer_world tftp_xfer \<Rightarrow> bool \<Rightarrow> xfer_world \<Rightarrow> bool" where
  "fresh_receiver xr conv rw \<longleftrightarrow>
     (\<exists>f n thr w w'. tftp_io_writer_start f conv n (blocksize xr) thr 0 w = (Some (io rw), w' :: world) \<and> f_out f = [])
     \<and> sent_packets rw = [] \<and> blocksize xr < 2 ^ 31 \<and> x_io_ops xr = Some tftp_io_xfer_ops"

definition mode_of :: "bool \<Rightarrow> tftp_io_ops" where
  "mode_of conv = (if conv then netascii_io_ops else octet_io_ops)"

definition file_blocks :: "'a world_scheme tftp_xfer \<Rightarrow> bool \<Rightarrow> FILE \<Rightarrow> char list list" where
  "file_blocks xs conv f = chunks (blocksize xs) (encode (mode_of conv) (f_in f))"

section \<open>The invariant\<close>

locale xfer_link =
  snd: xfer_sender sops sio svw ssent src_ok held left
  + rcv: xfer_receiver rops rio rvw rsent snk_ok cap reserved accepted drained complete
  for sops :: "'a world_scheme tftp_xfer_ops"
    and sio :: "'a world_scheme tftp_xfer_io_ops"
    and svw :: "'a world_scheme \<Rightarrow> 'v"
    and ssent :: "'a world_scheme \<Rightarrow> packet list"
    and src_ok :: "'v \<Rightarrow> bool"
    and held :: "'v \<Rightarrow> packet list"
    and left :: "'v \<Rightarrow> char list list"
    and rops :: "'b world_scheme tftp_xfer_ops"
    and rio :: "'b world_scheme tftp_xfer_io_ops"
    and rvw :: "'b world_scheme \<Rightarrow> 'u"
    and rsent :: "'b world_scheme \<Rightarrow> packet list"
    and snk_ok :: "'u \<Rightarrow> bool"
    and cap :: "'u \<Rightarrow> nat"
    and reserved :: "'u \<Rightarrow> nat \<Rightarrow> bool"
    and accepted :: "'u \<Rightarrow> char list \<Rightarrow> bool"
    and drained :: "'u \<Rightarrow> bool"
    and complete :: "'u \<Rightarrow> char list \<Rightarrow> bool"
begin

definition acks :: "u16 \<Rightarrow> packet option \<Rightarrow> nat \<Rightarrow> packet set" where
  "acks roll rep m = ack_packet ` insert 0 (seqno roll ` {..<m}) \<union> set_option rep"

definition delivered :: "char list list \<Rightarrow> ('a world_scheme, 'b world_scheme) link \<Rightarrow> bool" where
  "delivered bl l \<longleftrightarrow> (\<exists>r. rcv_out l = Finished r) \<and> complete (rvw (rcv_world l)) (concat bl)"

definition sender_ok :: "'a world_scheme tftp_xfer \<Rightarrow> char list list \<Rightarrow> ('a world_scheme, 'b world_scheme) link \<Rightarrow> bool" where
  "sender_ok xs bl l \<longleftrightarrow>
     set (ssent (snd_world l)) \<subseteq> block_packet (rollover xs) bl ` {..<length bl}
     \<and> (case snd_out l of
          Waiting st \<Rightarrow> \<exists>k. snd.send_inv xs bl k st (svw (snd_world l))
        | Finished r \<Rightarrow>
            status r = TFTP_XFER_OK \<longrightarrow>
              delivered bl l \<and> res_bytes r = of_nat (length (concat bl)))"

definition receiver_ok ::
  "'b world_scheme tftp_xfer \<Rightarrow> packet option \<Rightarrow> char list list \<Rightarrow> ('a world_scheme, 'b world_scheme) link \<Rightarrow> bool" where
  "receiver_ok xr rep bl l \<longleftrightarrow>
     (case rcv_out l of
        Waiting st \<Rightarrow>
          (\<exists>m < length bl. rcv.recv_inv xr m (concat (take m bl)) st (rvw (rcv_world l))
             \<and> set_option (r_reply st) \<subseteq> set_option rep
             \<and> set (rsent (rcv_world l)) \<subseteq> acks (rollover xr) rep m)
      | Finished r \<Rightarrow>
          complete (rvw (rcv_world l)) (concat bl)
          \<or> status r \<noteq> TFTP_XFER_OK
            \<and> (\<exists>m < length bl. set (rsent (rcv_world l)) \<subseteq> acks (rollover xr) rep m))"

definition link_ok where
  "link_ok xs xr rep bl l \<longleftrightarrow> sender_ok xs bl l \<and> receiver_ok xr rep bl l"

text \<open>The ACK of the last block is on the network only when the file is complete.\<close>

lemma last_ack_delivered:
  assumes bl: "proper_blocks b bl" and rep: "harmless_reply rep" and r: "receiver_ok xr rep bl l"
    and p: "p \<in> set (rsent (rcv_world l))" "th_opcode p = ACK" "th_block p = seqno (rollover xr) (length bl - 1)"
  shows "delivered bl l"
proof (rule ccontr)
  assume "\<not> ?thesis"
  then obtain m where m: "m < length bl" "set (rsent (rcv_world l)) \<subseteq> acks (rollover xr) rep m"
    using r by (cases "rcv_out l") (auto simp: receiver_ok_def delivered_def)
  have n: "length bl - 1 < 65535" using bl m by (auto simp: proper_blocks_def)
  have "p \<in> acks (rollover xr) rep m" using m p by blast
  then consider "th_block p = 0" | j where "j < m" "th_block p = seqno (rollover xr) j"
    using rep p(2) by (auto simp: acks_def harmless_reply_def)
  then show False
  proof cases
    case 1
    with p(3) seqno_neq_0 [OF n] show False by simp
  next
    case (2 j)
    then have "seqno (rollover xr) j = seqno (rollover xr) (length bl - 1)" using p(3) by simp
    moreover have "j < 65535" using 2 m n by simp
    ultimately have "j = length bl - 1" using seqno_inj n by blast
    with 2 m show False by simp
  qed
qed

lemma sender_step_ok:
  assumes bl: "proper_blocks b bl" and rep: "harmless_reply rep"
    and x: "x_ops xs = sops" "rollover xs = rollover xr"
    and ok: "sender_ok xs bl l" "receiver_ok xr rep bl l"
    and out: "snd_out l = Waiting st" "send_step xs sio st ev (snd_world l) = (out, w')"
    and ev: "(\<exists>p \<in> set (rsent (rcv_world l)). ev = RecvRet (int (length p)) p)
              \<or> ev = RecvTimeout \<or> ev = RecvFail e"
  shows "sender_ok xs bl (l\<lparr>snd_out := out, snd_world := w'\<rparr>)"
proof -
  let ?l = "l\<lparr>snd_out := out, snd_world := w'\<rparr>"
  obtain k where inv: "snd.send_inv xs bl k st (svw (snd_world l))"
    using ok(1) out(1) by (auto simp: sender_ok_def)
  note S = snd.send_step_spec [OF inv x(1) out(2)]
  have sub: "set (ssent w') \<subseteq> block_packet (rollover xs) bl ` {..<length bl}"
    using S ok(1) by (auto simp: sender_ok_def snd.sends_only_def)
  have fin: "delivered bl ?l \<and> res_bytes r = of_nat (length (concat bl))"
    if "out = Finished r" "status r = TFTP_XFER_OK" for r
  proof -
    from S that have "snd.send_next xs bl k (s_packet_count st) ev (Finished r) (svw w')" by simp
    with that(2) have e: "is_packet ACK (seqno (rollover xs) (length bl - 1)) ev"
      and bytes: "res_bytes r = of_nat (length (concat bl))"
      by (simp_all add: snd.send_next_def)
    from e ev obtain p where "p \<in> set (rsent (rcv_world l))" "th_opcode p = ACK"
        "th_block p = seqno (rollover xr) (length bl - 1)"
      using x(2) by auto
    from last_ack_delivered [OF bl rep ok(2) this] bytes show ?thesis by (simp add: delivered_def)
  qed
  show ?thesis
  proof (cases out)
    case (Waiting st')
    with S obtain k' where "snd.send_inv xs bl k' st' (svw w')" by (auto simp: snd.send_next_def)
    with sub Waiting show ?thesis by (auto simp: sender_ok_def)
  next
    case (Finished r)
    with sub fin show ?thesis by (simp add: sender_ok_def)
  qed
qed

lemma receiver_step_ok:
  assumes bl: "proper_blocks (blocksize xr) bl"
    and x: "x_ops xr = rops" "rollover xs = rollover xr"
    and ok: "sender_ok xs bl l" "receiver_ok xr rep bl l"
    and out: "rcv_out l = Waiting st" "recv_step xr rio st ev (rcv_world l) = (out, w')"
    and ev: "(\<exists>p \<in> set (ssent (snd_world l)). ev = RecvRet (int (length p)) p)
              \<or> ev = RecvTimeout \<or> ev = RecvFail e"
  shows "receiver_ok xr rep bl (l\<lparr>rcv_out := out, rcv_world := w'\<rparr>)"
proof -
  let ?l = "l\<lparr>rcv_out := out, rcv_world := w'\<rparr>" and ?r = "rollover xr"
  obtain m where m: "m < length bl" and inv: "rcv.recv_inv xr m (concat (take m bl)) st (rvw (rcv_world l))"
    and rp: "set_option (r_reply st) \<subseteq> set_option rep"
    and sent: "set (rsent (rcv_world l)) \<subseteq> acks ?r rep m"
    using ok(2) out(1) by (auto simp: receiver_ok_def)
  have mono: "rcv.acks_below xr st i \<subseteq> acks ?r rep i" "acks ?r rep m \<subseteq> acks ?r rep (Suc m)" for i
    using rp by (auto simp: rcv.acks_below_def acks_def)
  have "rcv.recv_next xr m (concat (take m bl)) st ev (rcv_world l) out w'"
    using ev by (intro rcv.recv_step_spec [OF inv x(1) _ out(2)]) auto
  then consider
      (stay) "rcv.sends_only (rcv.acks_below xr st m) (rcv_world l) w'"
        "case out of Waiting st' \<Rightarrow> st' = st \<and> rcv.recv_inv xr m (concat (take m bl)) st (rvw w')
           | Finished r \<Rightarrow> status r \<noteq> TFTP_XFER_OK"
    | (acc) n pkt where "ev = RecvRet n pkt" "is_packet DATA (seqno ?r m) ev"
        "rcv.accept_next xr m (concat (take m bl)) st (th_data pkt) (rcv_world l) out w'"
    unfolding rcv.recv_next_def by blast
  then show ?thesis
  proof cases
    case stay
    then have "set (rsent w') \<subseteq> acks ?r rep m" using sent mono(1) [of m] by (auto simp: rcv.sends_only_def)
    with stay m rp show ?thesis by (cases out) (auto simp: receiver_ok_def)
  next
    case acc
    then have "pkt \<in> set (ssent (snd_world l))" using ev by auto
    then obtain i where i: "i < length bl" "pkt = block_packet ?r bl i"
      using ok(1) x(2) by (auto simp: sender_ok_def)
    have "i = m"
      using acc(1,2) i m bl seqno_inj [of i m ?r] by (auto simp: block_packet_def proper_blocks_def)
    then have d: "th_data pkt = bl ! m" by (simp add: i block_packet_def)
    have full: "concat (take m bl) @ bl ! m = concat (take (Suc m) bl)"
      using m by (simp add: take_Suc_conv_app_nth)
    have short: "length (bl ! m) = blocksize xr \<Longrightarrow> Suc m < length bl"
        "length (bl ! m) < blocksize xr \<Longrightarrow> take (Suc m) bl = bl"
      using bl m by (auto simp: proper_blocks_def last_conv_nth)
    have le: "length (bl ! m) \<le> blocksize xr"
    proof (cases "Suc m < length bl")
      case True
      then have "length (bl ! m) = blocksize xr" using bl m unfolding proper_blocks_def by blast
      then show ?thesis by simp
    next
      case False
      then have "m = length bl - 1" using m by linarith
      then have "bl ! m = last bl" using m by (subst last_conv_nth) auto
      then show ?thesis using bl by (simp add: proper_blocks_def)
    qed
    note A = acc(3) [unfolded rcv.accept_next_def d full]
    show ?thesis
    proof (cases out)
      case (Waiting st')
      with A have "rcv.sends_only (rcv.acks_below xr st (Suc m)) (rcv_world l) w'" by simp
      then have "set (rsent w') \<subseteq> acks ?r rep (Suc m)"
        using sent mono(1) [of "Suc m"] mono(2) unfolding rcv.sends_only_def by blast
      with A Waiting short show ?thesis by (auto simp: receiver_ok_def)
    next
      case (Finished r)
      have sub: "rcv.sends_only (rcv.acks_below xr st i) (rcv_world l) w' \<Longrightarrow> i = m \<or> i = Suc m \<Longrightarrow>
          set (rsent w') \<subseteq> acks ?r rep i" for i
        using sent mono(1) [of i] mono(2) unfolding rcv.sends_only_def by blast
      show ?thesis
      proof (cases "complete (rvw w') (concat bl)")
        case True
        then show ?thesis using Finished by (simp add: receiver_ok_def)
      next
        case False
        with A Finished short le sub [of m] sub [of "Suc m"] m show ?thesis
          by (auto simp: receiver_ok_def le_less)
      qed
    qed
  qed
qed

lemma receiver_ok_frame: "receiver_ok xr rep bl (l\<lparr>snd_out := out, snd_world := w'\<rparr>) = receiver_ok xr rep bl l"
  by (cases "rcv_out l") (simp_all add: receiver_ok_def)

lemma sender_ok_frame:
  assumes "rcv_out l = Waiting st" "sender_ok xs bl l"
  shows "sender_ok xs bl (l\<lparr>rcv_out := out, rcv_world := v'\<rparr>)"
  using assms by (cases "snd_out l") (auto simp: sender_ok_def delivered_def)

lemma link_step_ok:
  assumes bl: "proper_blocks (blocksize xr) bl" and rep: "harmless_reply rep"
    and x: "x_ops xs = sops" "x_ops xr = rops" "rollover xs = rollover xr"
    and step: "link_step xs sio svw ssent xr rio rvw rsent l l'" and ok: "link_ok xs xr rep bl l"
  shows "link_ok xs xr rep bl l'"
  using step ok
proof cases
  case (snd_packet st p out w')
  with ok sender_step_ok [OF bl rep x(1) x(3) _ _ snd_packet(2) snd_packet(4)] show ?thesis
    by (auto simp: link_ok_def receiver_ok_frame)
next
  case (snd_local st ev e out w')
  with ok sender_step_ok [OF bl rep x(1) x(3) _ _ snd_local(2) snd_local(4), where e = e] show ?thesis
    by (auto simp: link_ok_def receiver_ok_frame)
next
  case (snd_env w')
  with ok show ?thesis
    by (cases "snd_out l"; cases "rcv_out l") (auto simp: link_ok_def sender_ok_def receiver_ok_def delivered_def)
next
  case (rcv_packet st' p out' v')
  with ok receiver_step_ok [OF bl x(2) x(3) _ _ rcv_packet(2) rcv_packet(4)] show ?thesis
    by (auto simp: link_ok_def intro: sender_ok_frame)
next
  case (rcv_local st' ev e out' v')
  with ok receiver_step_ok [OF bl x(2) x(3) _ _ rcv_local(2) rcv_local(4), where e = e] show ?thesis
    by (auto simp: link_ok_def intro: sender_ok_frame)
next
  case (rcv_env v')
  with ok show ?thesis
    by (cases "snd_out l"; cases "rcv_out l") (auto simp: link_ok_def sender_ok_def receiver_ok_def delivered_def)
qed

lemma link_steps_ok:
  assumes "(link_step xs sio svw ssent xr rio rvw rsent)\<^sup>*\<^sup>* l l'" "link_ok xs xr rep bl l"
    and "proper_blocks (blocksize xr) bl" "harmless_reply rep"
    and "x_ops xs = sops" "x_ops xr = rops" "rollover xs = rollover xr"
  shows "link_ok xs xr rep bl l'"
  using assms(1,2)
  by (induction rule: rtranclp_induct) (use link_step_ok assms(3-) in blast)+

text \<open>Both engines started, the sender on the blocks \<open>bl\<close> and the receiver on an empty file.\<close>

lemma link_start_ok:
  assumes s: "src_ok (svw sw)" "left (svw sw) = bl" "ssent sw = []"
    and r: "snk_ok (rvw rw)" "cap (rvw rw) = blocksize xr" "accepted (rvw rw) []" "rsent rw = []"
    and bl: "proper_blocks (blocksize xr) bl" "blocksize xr < 2 ^ 31"
    and x: "x_ops xs = sops" "x_io_ops xs = Some sio" "x_ops xr = rops" "x_io_ops xr = Some rio"
    and run: "tftp_xfer_send xs sw = (sout, sw')" "tftp_xfer_recv xr isz rep None rw = (rout, rw')"
  shows "link_ok xs xr rep bl \<lparr>snd_out = sout, snd_world = sw', rcv_out = rout, rcv_world = rw'\<rparr>"
proof -
  have ne: "bl \<noteq> []" using bl by (simp add: proper_blocks_def)
  note S = snd.tftp_xfer_send_spec [OF s(1,2) ne x(1,2) run(1)]
  note R = rcv.tftp_xfer_recv_spec [OF r(1-3) bl(2) x(3,4) run(2)]
  have "set (rsent rw') \<subseteq> acks (rollover xr) rep 0"
    using R r(4) by (auto simp: acks_def rcv.sends_only_def)
  with S R s(3) ne show ?thesis
    by (cases sout; cases rout)
       (auto simp: link_ok_def sender_ok_def receiver_ok_def snd.sends_only_def snd.send_out_def)
qed

text \<open>
  What follows for every state that is reached: a success means a complete file, and what
  the receiver accepted are the first blocks.
\<close>

lemma link_safe:
  assumes start: "src_ok (svw sw)" "left (svw sw) = bl" "ssent sw = []"
      "snk_ok (rvw rw)" "cap (rvw rw) = blocksize xr" "accepted (rvw rw) []" "rsent rw = []"
      "proper_blocks (blocksize xr) bl" "blocksize xr < 2 ^ 31"
      "x_ops xs = sops" "x_io_ops xs = Some sio" "x_ops xr = rops" "x_io_ops xr = Some rio"
    and "rollover xs = rollover xr" "harmless_reply rep"
    and "(link_step xs sio svw ssent xr rio rvw rsent)\<^sup>*\<^sup>* (start_transfer xs xr isz rep sw rw) l"
  shows "snd_out l = Finished r \<Longrightarrow> status r = TFTP_XFER_OK \<Longrightarrow>
      complete (rvw (rcv_world l)) (concat bl) \<and> res_bytes r = of_nat (length (concat bl))"
    "rcv_out l = Finished r' \<Longrightarrow> status r' = TFTP_XFER_OK \<Longrightarrow> complete (rvw (rcv_world l)) (concat bl)"
    "rcv_out l = Waiting st \<Longrightarrow> \<exists>m < length bl. accepted (rvw (rcv_world l)) (concat (take m bl))"
proof -
  have "link_ok xs xr rep bl (start_transfer xs xr isz rep sw rw)"
    unfolding start_transfer_def by (auto split: prod.splits intro!: link_start_ok [OF start])
  from link_steps_ok [OF assms(16) this start(8) assms(15) start(10,12) assms(14)]
  have ok: "link_ok xs xr rep bl l" .
  show "snd_out l = Finished r \<Longrightarrow> status r = TFTP_XFER_OK \<Longrightarrow>
      complete (rvw (rcv_world l)) (concat bl) \<and> res_bytes r = of_nat (length (concat bl))"
    using ok by (simp add: link_ok_def sender_ok_def delivered_def)
  show "rcv_out l = Finished r' \<Longrightarrow> status r' = TFTP_XFER_OK \<Longrightarrow> complete (rvw (rcv_world l)) (concat bl)"
    using ok by (auto simp: link_ok_def receiver_ok_def)
  show "rcv_out l = Waiting st \<Longrightarrow> \<exists>m < length bl. accepted (rvw (rcv_world l)) (concat (take m bl))"
    using ok by (auto simp: link_ok_def receiver_ok_def rcv.recv_inv_def)
qed

end

interpretation download:
  xfer_link daemon_xfer_ops tftp_io_xfer_ops io sent_packets read_ok held_packets blocks_left
    client_xfer_ops tftp_io_xfer_ops io sent_packets write_ok io_blocksize slot_reserved
    "data_accepted m" "\<lambda>s. io_count s = 0" "data_complete m" for m
  by (intro xfer_link.intro daemon_sender.xfer_sender_axioms client_receiver.xfer_receiver_axioms)

interpretation upload:
  xfer_link client_xfer_ops tftp_io_xfer_ops io sent_packets read_ok held_packets blocks_left
    daemon_xfer_ops tftp_io_xfer_ops io sent_packets write_ok io_blocksize slot_reserved
    "data_accepted m" "\<lambda>s. io_count s = 0" "data_complete m" for m
  by (intro xfer_link.intro client_sender.xfer_sender_axioms daemon_receiver.xfer_receiver_axioms)

section \<open>Files\<close>

lemma proper_file_blocks:
  assumes "0 < b" "length s div b < 65535"
  shows "proper_blocks b (chunks b s)"
proof -
  let ?c = "chunks b s"
  have "length (?c ! i) = b \<longleftrightarrow> Suc i < length ?c" if "i < length ?c" for i
  proof (cases "Suc i < length ?c")
    case True
    then have lt: "i < length (butlast ?c)" by simp
    then have "?c ! i \<in> set (butlast ?c)" using nth_mem [OF lt] nth_butlast [OF lt] by simp
    with True assms chunks_butlast show ?thesis by blast
  next
    case False
    then have "i = length ?c - 1" using that by linarith
    then have "?c ! i = last ?c" by (subst last_conv_nth) simp_all
    with False chunks_last [OF assms(1), of s] show ?thesis by simp
  qed
  with assms chunks_last [OF assms(1), of s] show ?thesis
    by (simp add: proper_blocks_def length_chunks)
qed

lemma fresh_senderD:
  assumes "fresh_sender xs conv f sw"
  shows "read_ok (io sw)" "blocks_left (io sw) = file_blocks xs conv f" "0 < blocksize xs"
    "sent_packets sw = []" "x_io_ops xs = Some tftp_io_xfer_ops"
proof -
  obtain wnd n thr w w' where st: "tftp_io_reader_start f conv wnd n (blocksize xs) thr 0 w = (Some (io sw), w' :: world)"
    and f: "\<not> f_ferror f" "blocksize xs < 2 ^ 31"
    using assms by (auto simp: fresh_sender_def)
  have "blocksize xs < 2 ^ 32" using f(2) by simp
  note R = reader_start_spec [OF st this f(1)]
  show "read_ok (io sw)" by (rule R(1))
  show "blocks_left (io sw) = file_blocks xs conv f" using R(2,3) by (simp add: file_blocks_def mode_of_def)
  show "0 < blocksize xs" using st by (auto simp: tftp_io_reader_start_def io_start_def split: if_splits)
  show "sent_packets sw = []" "x_io_ops xs = Some tftp_io_xfer_ops"
    using assms by (simp_all add: fresh_sender_def)
qed

lemma fresh_receiverD:
  assumes "fresh_receiver xr conv rw"
  shows "write_ok (io rw)" "io_blocksize (io rw) = blocksize xr" "data_accepted (mode_of conv) (io rw) []"
    "io_ops (io rw) = mode_of conv" "sent_packets rw = []" "x_io_ops xr = Some tftp_io_xfer_ops"
    "blocksize xr < 2 ^ 31"
proof -
  obtain f n thr w w' where st: "tftp_io_writer_start f conv n (blocksize xr) thr 0 w = (Some (io rw), w' :: world)"
    and f: "f_out f = []" "blocksize xr < 2 ^ 31"
    using assms by (auto simp: fresh_receiver_def)
  have "blocksize xr < 2 ^ 32" using f(2) by simp
  note R = writer_start_spec [OF st this f(1)]
  show "write_ok (io rw)" "io_blocksize (io rw) = blocksize xr" "data_accepted (mode_of conv) (io rw) []"
    "io_ops (io rw) = mode_of conv" using R by (simp_all add: mode_of_def)
  show "sent_packets rw = []" "x_io_ops xr = Some tftp_io_xfer_ops" "blocksize xr < 2 ^ 31"
    using assms by (simp_all add: fresh_receiver_def)
qed

text \<open>What holds of every state a transfer can reach.\<close>

definition transfer_safe :: "xfer_world tftp_xfer \<Rightarrow> bool \<Rightarrow> FILE \<Rightarrow> (xfer_world, xfer_world) link \<Rightarrow> bool" where
  "transfer_safe xs conv f l \<longleftrightarrow>
     (\<forall>r. snd_out l = Finished r \<longrightarrow> status r = TFTP_XFER_OK \<longrightarrow>
        f_out (io_file (io (rcv_world l))) = f_in f
        \<and> res_bytes r = of_nat (length (encode (mode_of conv) (f_in f))))
     \<and> (\<forall>r. rcv_out l = Finished r \<longrightarrow> status r = TFTP_XFER_OK \<longrightarrow>
          f_out (io_file (io (rcv_world l))) = f_in f)
     \<and> (\<forall>st. rcv_out l = Waiting st \<longrightarrow>
          (\<exists>m < length (file_blocks xs conv f).
             data_accepted (mode_of conv) (io (rcv_world l)) (concat (take m (file_blocks xs conv f)))))"

lemma complete_file:
  "data_complete (mode_of conv) s (concat (file_blocks xs conv f)) \<Longrightarrow> f_out (io_file s) = f_in f"
  by (simp add: data_complete_def file_blocks_def concat_chunks decode_encode)

lemma download_safe:
  assumes "fresh_sender xs conv f sw" "fresh_receiver xr conv rw"
    and "x_ops xs = daemon_xfer_ops" "x_ops xr = client_xfer_ops"
    and "blocksize xs = blocksize xr" "rollover xs = rollover xr"
    and "length (encode (mode_of conv) (f_in f)) div blocksize xs < 65535" "harmless_reply rep"
    and "(transfer_step xs xr)\<^sup>*\<^sup>* (start_transfer xs xr isz rep sw rw) l"
  shows "transfer_safe xs conv f l"
proof -
  let ?bl = "file_blocks xs conv f"
  note S = fresh_senderD [OF assms(1)] and R = fresh_receiverD [OF assms(2)]
  have bl: "proper_blocks (blocksize xr) ?bl"
    using proper_file_blocks [OF S(3) assms(7)] assms(5) by (simp add: file_blocks_def)
  note safe = download.link_safe [OF S(1,2,4) R(1-3) R(5) bl R(7) assms(3) S(5) assms(4) R(6) assms(6,8) assms(9) [unfolded transfer_step_def]]
  have enc: "concat ?bl = encode (mode_of conv) (f_in f)" using S(3) by (simp add: file_blocks_def concat_chunks)
  show ?thesis
    unfolding transfer_safe_def using safe complete_file [of conv "io (rcv_world l)" xs f] by (fastforce simp: enc)
qed

lemma upload_safe:
  assumes "fresh_sender xs conv f sw" "fresh_receiver xr conv rw"
    and "x_ops xs = client_xfer_ops" "x_ops xr = daemon_xfer_ops"
    and "blocksize xs = blocksize xr" "rollover xs = rollover xr"
    and "length (encode (mode_of conv) (f_in f)) div blocksize xs < 65535" "harmless_reply rep"
    and "(transfer_step xs xr)\<^sup>*\<^sup>* (start_transfer xs xr isz rep sw rw) l"
  shows "transfer_safe xs conv f l"
proof -
  let ?bl = "file_blocks xs conv f"
  note S = fresh_senderD [OF assms(1)] and R = fresh_receiverD [OF assms(2)]
  have bl: "proper_blocks (blocksize xr) ?bl"
    using proper_file_blocks [OF S(3) assms(7)] assms(5) by (simp add: file_blocks_def)
  note safe = upload.link_safe [OF S(1,2,4) R(1-3) R(5) bl R(7) assms(3) S(5) assms(4) R(6) assms(6,8) assms(9) [unfolded transfer_step_def]]
  have enc: "concat ?bl = encode (mode_of conv) (f_in f)" using S(3) by (simp add: file_blocks_def concat_chunks)
  show ?thesis
    unfolding transfer_safe_def using safe complete_file [of conv "io (rcv_world l)" xs f] by (fastforce simp: enc)
qed

lemma lossless_step_reach:
  assumes "lossless_step xs sio ssent xr rio rsent (i, j, l) = (i', j', l')"
  shows "l' = l \<or> link_step xs sio svw ssent xr rio rvw rsent l l'"
  using assms
  by (auto simp: lossless_step_def Let_def split: outcome.splits if_splits prod.splits
      intro: link_step.intros(1,4) nth_mem)

lemma lossless_reach:
  "(transfer_step xs xr)\<^sup>*\<^sup>* l (lossless xs xr n i j l)"
proof (induction n)
  case (Suc n)
  let ?step = "lossless_step xs tftp_io_xfer_ops sent_packets xr tftp_io_xfer_ops sent_packets"
  obtain i1 j1 l1 where c: "(?step ^^ n) (i, j, l) = (i1, j1, l1)" by (metis prod_cases3)
  obtain i2 j2 l2 where d: "?step (i1, j1, l1) = (i2, j2, l2)" by (metis prod_cases3)
  have "(transfer_step xs xr)\<^sup>*\<^sup>* l1 l2"
    using lossless_step_reach [OF d] by (auto simp: transfer_step_def)
  then show ?case using Suc c d by (simp add: lossless_def)
qed (simp add: lossless_def)

section \<open>Example transfers\<close>

definition example_xfer :: "xfer_world tftp_xfer_ops \<Rightarrow> nat \<Rightarrow> nat \<Rightarrow> xfer_world tftp_xfer" where
  "example_xfer callbacks bs wnd =
     \<lparr>blocksize = bs, windowsize = wnd, max_bytes = 1000, rollover = 0, resend_oack = False,
      x_ops = callbacks, x_io_ops = Some tftp_io_xfer_ops\<rparr>"

lemma example_sender:
  assumes "0 < bs" "bs < 2 ^ 31" "0 < wnd"
  shows "fresh_sender (example_xfer callbacks bs wnd) conv (file_of s) (world_of (reader_of conv wnd bs s) r)"
proof -
  have "tftp_io_reader_start (file_of s) conv wnd wnd bs False 0 \<lparr>errno = 0\<rparr>
      = (Some (reader_of conv wnd bs s), \<lparr>errno = 0\<rparr>)"
    using assms by (simp add: reader_of_def tftp_io_reader_start_def io_start_def)
  moreover have "\<not> f_ferror (file_of s)" by (simp add: file_of_def)
  ultimately show ?thesis
    using assms unfolding fresh_sender_def
    by (auto simp: example_xfer_def world_of_def) blast
qed

lemma example_receiver:
  assumes "0 < bs" "bs < 2 ^ 31" "0 < wnd"
  shows "fresh_receiver (example_xfer callbacks bs wnd) conv (world_of (writer_of conv wnd bs) r)"
proof -
  have "tftp_io_writer_start (file_of []) conv wnd bs False 0 \<lparr>errno = 0\<rparr>
      = (Some (writer_of conv wnd bs), \<lparr>errno = 0\<rparr>)"
    using assms by (simp add: writer_of_def tftp_io_writer_start_def io_start_def)
  moreover have "f_out (file_of []) = []" by (simp add: file_of_def)
  ultimately show ?thesis
    using assms unfolding fresh_receiver_def
    by (auto simp: example_xfer_def world_of_def) blast
qed

end
