(* ===== verification/Subs.thy ===== *)
theory Subs
  imports Prelude Packet
begin

text \<open>
  The shared helpers of \<open>common/tftpsubs.[ch]\<close>, \<open>common/parsenum.c\<close> and \<open>common/clock.h\<close>:
  ASCII-only character tests, the number parser with unit suffixes, the block-size
  argument and the block-size limit derived from the MTU, socket buffer sizing, the choice
  of a local port, and the recognition of numeric IPv6 addresses.

  Two facilities of the C library are written out: \<open>strtoumax\<close> in base 10 in the C locale
  (leading white space, an optional sign, negation modulo 2^64, \<open>ERANGE\<close> on overflow) and
  the decimal conversion of \<open>printf\<close>. \<open>bind\<close> and \<open>getsockopt\<close> are parameters.
\<close>

section \<open>Definitions\<close>

subsection \<open>Characters\<close>

definition ascii_digitval :: "char \<Rightarrow> u8" where
  "ascii_digitval c = uc c - uc (CHR ''0'')"

definition ascii_isdigit :: "char \<Rightarrow> bool" where
  "ascii_isdigit c = (ascii_digitval c \<le> 9)"

definition ascii_tolower :: "u8 \<Rightarrow> u8" where
  "ascii_tolower c =
     (if c - uc (CHR ''A'') \<le> uc (CHR ''Z'') - uc (CHR ''A'') then c + (uc (CHR ''a'') - uc (CHR ''A'')) else c)"

definition c_isspace :: "char \<Rightarrow> bool" where
  "c_isspace c = (uc c = 0x20 \<or> (0x09 \<le> uc c \<and> uc c \<le> 0x0D))"

function ascii_strncaseeq :: "string \<Rightarrow> string \<Rightarrow> u64 \<Rightarrow> bool" where
  "ascii_strncaseeq s1 s2 n =
     (if n = 0 then True
      else
        let c1 = uc (deref s1); cx = c1 XOR uc (deref s2) in
        if cx \<noteq> 0 \<and> cx \<noteq> 0x20 then False
        else if cx \<noteq> 0 \<and> uc (CHR ''z'') - uc (CHR ''a'') < (c1 OR cx) - uc (CHR ''a'') then False
        else if c1 = 0 then True
        else ascii_strncaseeq (tl s1) (tl s2) (n - 1))"
  by pat_completeness auto
termination
  by (relation "measure (\<lambda>(s1, _, _). length s1)") (auto simp: uc_def deref_def split: list.splits)

definition ascii_strcaseeq :: "string \<Rightarrow> string \<Rightarrow> bool" where
  "ascii_strcaseeq s1 s2 = ascii_strncaseeq s1 s2 (- 1)"

subsection \<open>Decimal numbers\<close>

fun dec_value :: "nat \<Rightarrow> string \<Rightarrow> nat" where
  "dec_value a [] = a"
| "dec_value a (c # s) = dec_value (10 * a + unat (ascii_digitval c)) s"

definition digit_char :: "nat \<Rightarrow> char" where
  "digit_char d = char_of (48 + d)"

fun decimal :: "nat \<Rightarrow> string" where
  "decimal n = (if n < 10 then [digit_char n] else decimal (n div 10) @ [digit_char (n mod 10)])"

text \<open>The value, the text after the number, and whether \<open>errno\<close> was set; no number is \<open>None\<close>.\<close>

definition strtoumax :: "string \<Rightarrow> (u64 \<times> string \<times> bool) option" where
  "strtoumax s =
     (let s1 = dropWhile c_isspace s;
          neg = (deref s1 = CHR ''-'');
          s2 = (if deref s1 = CHR ''-'' \<or> deref s1 = CHR ''+'' then tl s1 else s1);
          ds = takeWhile ascii_isdigit s2;
          v = dec_value 0 ds
      in if ds = [] then None
         else if 2 ^ 64 \<le> v then Some (- 1, dropWhile ascii_isdigit s2, True)
         else Some (if neg then - of_nat v else of_nat v, dropWhile ascii_isdigit s2, False))"

definition BAD_NUM :: u64 where
  "BAD_NUM = - 1"

definition unit_shift :: "u8 \<Rightarrow> nat option" where
  "unit_shift c =
     (if c = 0 then Some 0
      else if c = uc (CHR ''k'') then Some 10
      else if c = uc (CHR ''m'') then Some 20
      else if c = uc (CHR ''g'') then Some 30
      else if c = uc (CHR ''t'') then Some 40
      else if c = uc (CHR ''p'') then Some 50
      else if c = uc (CHR ''e'') then Some 60
      else None)"

definition parse_uint :: "string option \<Rightarrow> u64 \<Rightarrow> u64 \<Rightarrow> u64" where
  "parse_uint arg lo hi =
     (case arg of None \<Rightarrow> BAD_NUM | Some s \<Rightarrow>
      case strtoumax s of None \<Rightarrow> BAD_NUM | Some (parsed, rest, erange) \<Rightarrow>
      if erange then BAD_NUM
      else
        let end = dropWhile c_isspace rest in
        case unit_shift (ascii_tolower (uc (deref end))) of None \<Rightarrow> BAD_NUM | Some shift \<Rightarrow>
        let shifted = (if shift \<noteq> 0 then push_bit shift parsed else parsed) in
        if shift \<noteq> 0 \<and> drop_bit shift shifted \<noteq> parsed then BAD_NUM
        else if shift \<noteq> 0 \<and> deref (tl end) \<noteq> NUL then BAD_NUM
        else if shifted < lo \<or> hi < shifted then BAD_NUM
        else shifted)"

subsection \<open>Options shared by client and daemon\<close>

datatype sa_family = AF_INET | AF_INET6 | AF_OTHER

record common_options =
  portrange_from :: u32
  portrange_to :: u32
  blksize :: int
  max_windowsize :: u32

definition INT_MAX :: int where
  "INT_MAX = 2 ^ 31 - 1"

definition parse_blocksize_arg :: "string \<Rightarrow> u64 \<Rightarrow> 'a common_options_scheme \<Rightarrow> bool \<times> 'a common_options_scheme" where
  "parse_blocksize_arg str minimum xopt =
     (if ascii_strncaseeq str ''mtu'' 3 then
        (if deref (drop 3 str) = NUL then (True, xopt\<lparr>blksize := 0\<rparr>)
         else if deref (drop 3 str) = CHR ''-'' then
           (let v = parse_uint (Some (drop 4 str)) 0 (of_int (INT_MAX div 2)) in
            if v = BAD_NUM then (False, xopt) else (True, xopt\<lparr>blksize := - uint v\<rparr>))
         else (False, xopt))
      else
        (let v = parse_uint (Some str) minimum (of_nat MAX_SEGSIZE) in
         if v = BAD_NUM then (False, xopt) else (True, xopt\<lparr>blksize := uint v\<rparr>)))"

text \<open>\<open>getsockopt\<close> of an option gives its return value, the integer, its length, and \<open>errno\<close>.\<close>

definition getsockint :: "int \<times> int \<times> nat \<times> int \<Rightarrow> int" where
  "getsockint reply =
     (case reply of (rv, val, optlen, e) \<Rightarrow> if rv \<noteq> 0 \<or> optlen \<noteq> 4 then - 1 else val)"

definition tftp_max_blksize ::
  "(sa_family \<Rightarrow> int \<times> int \<times> nat \<times> int) \<Rightarrow> 'a common_options_scheme \<Rightarrow> sa_family \<Rightarrow> int" where
  "tftp_max_blksize mtu_opt xopt fam =
     (let mtu =
        (if blksize xopt \<le> 0 then
           (let adjust = (case fam of AF_INET \<Rightarrow> blksize xopt - (20 + 8 + 4)
                          | AF_INET6 \<Rightarrow> blksize xopt - (40 + 8 + 4) | AF_OTHER \<Rightarrow> blksize xopt);
                (m0, e) = (case fam of AF_OTHER \<Rightarrow> (- 1, 0)
                           | _ \<Rightarrow> (getsockint (mtu_opt fam), snd (snd (snd (mtu_opt fam)))));
                m1 = (if e \<noteq> 0 \<or> m0 < 0 then 1500 else m0) + adjust
            in if m1 < int SEGSIZE then int SEGSIZE else m1)
         else if blksize xopt < int MIN_SEGSIZE then int MIN_SEGSIZE else blksize xopt)
      in if int MAX_SEGSIZE < mtu then int MAX_SEGSIZE else mtu)"

text \<open>The value given to \<open>SO_SNDBUF\<close> or \<open>SO_RCVBUF\<close>, if it is set at all.\<close>

definition tftp_set_socket_buffers :: "u32 \<Rightarrow> u32 \<Rightarrow> u32 option" where
  "tftp_set_socket_buffers blocksize windowsize =
     (let packetsize = (ucast blocksize :: u64) + 256;
          buffersize = (ucast ((ucast windowsize :: u64) * packetsize * 2) :: u32);
          capped = (if 4 * 1024 * 1024 < buffersize then 4 * 1024 * 1024 else buffersize)
      in if capped \<le> 256 * 1024 then None else Some capped)"

subsection \<open>Choice of a local port\<close>

text \<open>
  \<open>bind n port\<close> tells whether the \<open>n\<close>-th call of \<open>bind\<close> succeeds. The result is the port
  bound, or that no port was free; the search itself is the outer option.
\<close>

partial_function (option) port_search ::
  "(nat \<Rightarrow> u16 \<Rightarrow> bool) \<Rightarrow> u32 \<Rightarrow> u32 \<Rightarrow> u16 \<Rightarrow> nat \<Rightarrow> u16 \<Rightarrow> u16 option option" where
  "port_search bind from to firstport n port =
     (if bind n port then Some (Some port)
      else
        let port' = (if to < ucast (port + 1) then ucast from else port + 1) in
        if port' \<noteq> firstport then port_search bind from to firstport (Suc n) port' else Some None)"

definition first_port :: "u32 \<Rightarrow> 'a common_options_scheme \<Rightarrow> u16" where
  "first_port rnd xopt =
     ucast (portrange_from xopt
       + rnd mod (ucast (ucast (portrange_to xopt - portrange_from xopt) :: u16) + 1))"

definition pick_port_bind ::
  "(nat \<Rightarrow> u16 \<Rightarrow> bool) \<Rightarrow> u32 \<Rightarrow> 'a common_options_scheme \<Rightarrow> u16 option option" where
  "pick_port_bind bind rnd xopt =
     (if portrange_from xopt \<noteq> 0 then
        port_search bind (portrange_from xopt) (portrange_to xopt) (first_port rnd xopt) 0 (first_port rnd xopt)
      else Some (if bind 0 0 then Some 0 else None))"

subsection \<open>Numeric IPv6 addresses\<close>

definition c_isxdigit :: "char \<Rightarrow> bool" where
  "c_isxdigit c = (c \<in> set ''0123456789ABCDEFabcdef'')"

text \<open>The counts of colons and dots, and the character that ended the scan; a bad character is \<open>None\<close>.\<close>

fun scan_ipv6 :: "nat \<Rightarrow> nat \<Rightarrow> string \<Rightarrow> (nat \<times> nat \<times> char) option" where
  "scan_ipv6 colon dot [] = Some (colon, dot, NUL)"
| "scan_ipv6 colon dot (c # p) =
     (if c = CHR '']'' then Some (colon, dot, c)
      else if c = CHR '':'' then scan_ipv6 (Suc colon) dot p
      else if c = CHR ''.'' then scan_ipv6 colon (Suc dot) p
      else if c_isxdigit c then scan_ipv6 colon dot p
      else None)"

definition is_numeric_ipv6 :: "string \<Rightarrow> bool" where
  "is_numeric_ipv6 p =
     (let bracket = (deref p = CHR ''['') in
      case scan_ipv6 0 0 (if bracket then tl p else p) of None \<Rightarrow> False
      | Some (colon, dot, c) \<Rightarrow>
          \<not> (colon < 2 \<or> 7 < colon) \<and> \<not> (dot \<noteq> 0 \<and> (dot \<noteq> 3 \<or> 6 < colon)) \<and> bracket = (c = CHR '']''))"

definition strip_address :: "string \<Rightarrow> string" where
  "strip_address addr =
     (if is_numeric_ipv6 addr \<and> deref addr = CHR ''['' \<and> last addr = CHR '']'' then tl (butlast addr) else addr)"

subsection \<open>Time conversions\<close>

record timespec =
  tv_sec :: u64
  tv_nsec :: u64

record timeval =
  tval_sec :: u64
  tval_usec :: u64

definition timespec_to_us :: "timespec \<Rightarrow> u64" where
  "timespec_to_us ts = tv_sec ts * 1000000 + tv_nsec ts div 1000"

definition us_to_timespec :: "u64 \<Rightarrow> timespec" where
  "us_to_timespec us = \<lparr>tv_sec = us div 1000000, tv_nsec = us mod 1000000 * 1000\<rparr>"

definition timeval_to_us :: "timeval \<Rightarrow> u64" where
  "timeval_to_us tv = tval_sec tv * 1000000 + tval_usec tv"

definition us_to_timeval :: "u64 \<Rightarrow> timeval" where
  "us_to_timeval us = \<lparr>tval_sec = us div 1000000, tval_usec = us mod 1000000\<rparr>"

section \<open>Lemmas\<close>

lemma ascii_isdigit_iff: "ascii_isdigit c \<longleftrightarrow> 48 \<le> (of_char c :: nat) \<and> of_char c \<le> (57 :: nat)"
proof -
  have "unat (uc (CHR ''0'')) = 48" by (simp add: unat_uc)
  moreover have "of_char c < (256 :: nat)" by (rule nat_of_char_less_256)
  ultimately show ?thesis
    by (auto simp: ascii_isdigit_def ascii_digitval_def word_le_nat_alt unat_sub_if' unat_uc)
qed

lemma digit_char_value:
  assumes "d < 10"
  shows "unat (ascii_digitval (digit_char d)) = d" "ascii_isdigit (digit_char d)"
proof -
  have "ascii_digitval (digit_char d) = of_nat d"
    by (simp add: ascii_digitval_def digit_char_def uc_def [of "CHR ''0''"])
  then show "unat (ascii_digitval (digit_char d)) = d" using assms by (simp add: unat_of_nat)
  show "ascii_isdigit (digit_char d)" using assms by (simp add: ascii_isdigit_iff digit_char_def of_char_of)
qed

lemma dec_value_snoc: "dec_value a (s @ [c]) = 10 * dec_value a s + unat (ascii_digitval c)"
  by (induction s arbitrary: a) auto

declare decimal.simps [simp del]

lemma decimal_not_Nil [simp]: "decimal n \<noteq> []"
  by (subst decimal.simps) simp

lemma dec_value_decimal [simp]: "dec_value 0 (decimal n) = n"
proof (induction n rule: decimal.induct)
  case (1 n)
  then show ?case
    by (subst decimal.simps) (simp add: dec_value_snoc digit_char_value)
qed

lemma decimal_digits: "list_all ascii_isdigit (decimal n)"
proof (induction n rule: decimal.induct)
  case (1 n)
  then show ?case
    by (subst decimal.simps) (simp add: digit_char_value)
qed

lemma digit_not_special:
  assumes "ascii_isdigit c"
  shows "\<not> c_isspace c" "c \<noteq> CHR ''-''" "c \<noteq> CHR ''+''" "c \<noteq> NUL"
  using assms by (auto simp: ascii_isdigit_iff c_isspace_def word_le_nat_alt unat_uc word_unat_eq_iff)

lemma strtoumax_decimal:
  assumes "\<not> ascii_isdigit (deref r)"
  shows "strtoumax (decimal n @ r) = (if n < 2 ^ 64 then Some (of_nat n, r, False) else Some (- 1, r, True))"
proof -
  obtain c s where d: "decimal n = c # s" by (cases "decimal n") auto
  have ds: "list_all ascii_isdigit (decimal n)" by (rule decimal_digits)
  then have c: "ascii_isdigit c" by (simp add: d)
  have "takeWhile ascii_isdigit (decimal n @ r) = decimal n" "dropWhile ascii_isdigit (decimal n @ r) = r"
    using ds assms by (cases r; simp add: list_all_iff)+
  moreover have "dropWhile c_isspace (decimal n @ r) = decimal n @ r"
    using digit_not_special(1) [OF c] by (simp add: d)
  moreover have "deref (decimal n @ r) = c" by (simp add: d)
  ultimately show ?thesis
    using digit_not_special(2,3) [OF c] by (simp add: strtoumax_def Let_def)
qed

lemma uc_literal: "uc (CHR ''k'') = 107" "uc (CHR ''m'') = 109" "uc (CHR ''g'') = 103" "uc (CHR ''t'') = 116"
  "uc (CHR ''p'') = 112" "uc (CHR ''e'') = 101" "uc (CHR ''A'') = 65" "uc (CHR ''Z'') = 90" "uc (CHR ''a'') = 97"
  "uc (CHR ''z'') = 122" "uc (CHR ''0'') = 48" "uc (CHR ''-'') = 45" "uc (CHR '' '') = 32"
  by (simp_all add: uc_def)

lemma ascii_tolower_nat:
  "unat (ascii_tolower c) = (if 65 \<le> unat c \<and> unat c \<le> 90 then unat c + 32 else unat c)"
  using unat_bound [of c]
  by (auto simp: ascii_tolower_def uc_literal word_le_nat_alt unat_sub_if' unat_word_ariths)

lemma ascii_tolower_uc_0: "ascii_tolower (uc c) = 0 \<longleftrightarrow> c = NUL"
  using uc_eq_0(1) [of c] unfolding unat_eq_0 [symmetric] ascii_tolower_nat by auto

lemma unit_shift_char:
  assumes "unit_shift (ascii_tolower (uc c)) = Some sh"
  shows "\<not> ascii_isdigit c" "\<not> c_isspace c" "sh = 0 \<longleftrightarrow> c = NUL" "sh < 64"
proof -
  have "sh < 64 \<and> (sh = 0 \<longleftrightarrow> ascii_tolower (uc c) = 0) \<and> (sh \<noteq> 0 \<longrightarrow> 97 \<le> unat (ascii_tolower (uc c)))"
    using assms by (auto simp: unit_shift_def uc_literal split: if_splits)
  then have *: "sh < 64" "sh = 0 \<longleftrightarrow> ascii_tolower (uc c) = 0" "sh \<noteq> 0 \<Longrightarrow> 97 \<le> unat (ascii_tolower (uc c))"
    by auto
  have z: "ascii_tolower (uc c) = 0 \<longleftrightarrow> c = NUL" by (rule ascii_tolower_uc_0)
  show "sh < 64" "sh = 0 \<longleftrightarrow> c = NUL" using * z by simp_all
  show "\<not> ascii_isdigit c" using * z
    by (cases "c = NUL") (auto simp: ascii_isdigit_iff ascii_tolower_nat unat_uc)
  show "\<not> c_isspace c" using * z
    by (cases "c = NUL") (auto simp: c_isspace_def word_unat_eq_iff word_le_nat_alt ascii_tolower_nat unat_uc split: if_splits)
qed

lemma shift_back:
  fixes w :: u64
  assumes "sh < 64"
  shows "drop_bit sh (push_bit sh w) = w \<longleftrightarrow> unat w * 2 ^ sh < 2 ^ 64"
    and "unat w * 2 ^ sh < 2 ^ 64 \<Longrightarrow> unat (push_bit sh w) = unat w * 2 ^ sh"
proof -
  have p: "(2::nat) ^ 64 = 2 ^ (64 - sh) * 2 ^ sh" using assms by (simp flip: power_add)
  have u: "unat (push_bit sh w) = unat w * 2 ^ sh mod 2 ^ 64"
  proof -
    have "push_bit sh w = of_nat (unat w * 2 ^ sh)" by (simp add: push_bit_eq_mult)
    then show ?thesis by (simp only: unat_of_nat) (simp add: take_bit_eq_mod)
  qed
  also have "\<dots> = (unat w mod 2 ^ (64 - sh)) * 2 ^ sh" unfolding p by (rule mod_mult_mult2)
  finally have "unat (drop_bit sh (push_bit sh w)) = unat w mod 2 ^ (64 - sh)"
    by (simp only: unat_drop_bit_eq) (simp add: drop_bit_eq_div)
  moreover have "unat w * 2 ^ sh < 2 ^ 64 \<longleftrightarrow> unat w < 2 ^ (64 - sh)" unfolding p by simp
  ultimately show "drop_bit sh (push_bit sh w) = w \<longleftrightarrow> unat w * 2 ^ sh < 2 ^ 64"
    using mod_eq_self_iff_div_eq_0 [of "unat w" "2 ^ (64 - sh)"] by (simp add: word_unat_eq_iff div_eq_0_iff)
  show "unat w * 2 ^ sh < 2 ^ 64 \<Longrightarrow> unat (push_bit sh w) = unat w * 2 ^ sh" using u by simp
qed

lemma deref_NUL_short: "length u \<le> 1 \<Longrightarrow> tl u = []"
  by (cases u) auto

lemma parse_uint_decimal:
  assumes u: "unit_shift (ascii_tolower (uc (deref u))) = Some sh" "length u \<le> 1"
  shows "parse_uint (Some (decimal n @ u)) lo hi =
    (if n * 2 ^ sh < 2 ^ 64 \<and> unat lo \<le> n * 2 ^ sh \<and> n * 2 ^ sh \<le> unat hi
     then of_nat (n * 2 ^ sh) else BAD_NUM)"
proof (cases "n < 2 ^ 64")
  case True
  note U = unit_shift_char [OF u(1)]
  have w: "unat (of_nat n :: u64) = n" using True by (simp add: unat_of_nat)
  have d: "dropWhile c_isspace u = u" using U(2) by (cases u) auto
  define m :: u64 where "m = (if sh \<noteq> 0 then push_bit sh (of_nat n) else of_nat n)"
  have bk: "sh \<noteq> 0 \<and> drop_bit sh m \<noteq> of_nat n \<longleftrightarrow> \<not> n * 2 ^ sh < 2 ^ 64"
    using shift_back(1) [OF U(4), of "of_nat n"] w True by (auto simp: m_def)
  have m: "unat m = n * 2 ^ sh" if "n * 2 ^ sh < 2 ^ 64"
    using shift_back(2) [OF U(4), of "of_nat n"] w that by (simp add: m_def)
  have eq: "m = of_nat (n * 2 ^ sh)" by (simp add: m_def push_bit_eq_mult)
  have "parse_uint (Some (decimal n @ u)) lo hi =
    (if \<not> n * 2 ^ sh < 2 ^ 64 then BAD_NUM else if m < lo \<or> hi < m then BAD_NUM else m)"
    unfolding bk [symmetric]
    using strtoumax_decimal [OF U(1), of n] True
    unfolding parse_uint_def m_def by (simp add: d u(1) deref_NUL_short [OF u(2)] Let_def)
  also have "\<dots> = (if n * 2 ^ sh < 2 ^ 64 \<and> unat lo \<le> n * 2 ^ sh \<and> n * 2 ^ sh \<le> unat hi then m else BAD_NUM)"
    using m by (simp add: word_less_nat_alt not_less)
  finally show ?thesis by (simp only: eq)
next
  case False
  have "n * 1 \<le> n * 2 ^ sh" by (rule mult_le_mono) simp_all
  then have "\<not> n * 2 ^ sh < 2 ^ 64" using False by linarith
  then show ?thesis
    using strtoumax_decimal [OF unit_shift_char(1) [OF u(1)], of n] False by (simp add: parse_uint_def)
qed

lemma parse_uint_range:
  assumes "parse_uint arg lo hi \<noteq> BAD_NUM"
  shows "lo \<le> parse_uint arg lo hi \<and> parse_uint arg lo hi \<le> hi"
proof -
  obtain s v r where s: "arg = Some s" "strtoumax s = Some (v, r, False)"
    using assms by (auto simp: parse_uint_def split: option.splits if_splits)
  obtain sh where "unit_shift (ascii_tolower (uc (deref (dropWhile c_isspace r)))) = Some sh"
    using assms by (auto simp: parse_uint_def s Let_def split: option.splits)
  then show ?thesis
    using assms unfolding parse_uint_def s option.case prod.case Let_def
    by (auto simp: not_less split: if_splits)
qed

text \<open>A block size argument is an offset from the MTU or a size between the limits.\<close>

lemma parse_blocksize_arg_range:
  assumes "parse_blocksize_arg s lo x = (ok, x')"
  shows "x' = x \<and> \<not> ok \<or> ok \<and> (\<exists>b. x' = x\<lparr>blksize := b\<rparr>
    \<and> (- (INT_MAX div 2) \<le> b \<and> b \<le> 0 \<or> uint lo \<le> b \<and> b \<le> int MAX_SEGSIZE))"
proof -
  define v where "v = parse_uint (Some (drop 4 s)) 0 (of_int (INT_MAX div 2))"
  define u where "u = parse_uint (Some s) lo (of_nat MAX_SEGSIZE)"
  have v: "uint v \<le> INT_MAX div 2" if "v \<noteq> BAD_NUM"
    using parse_uint_range [of "Some (drop 4 s)" 0 "of_int (INT_MAX div 2)"] that by (simp add: v_def word_le_def INT_MAX_def)
  have u: "uint lo \<le> uint u \<and> uint u \<le> int MAX_SEGSIZE" if "u \<noteq> BAD_NUM"
    using parse_uint_range [of "Some s" lo "of_nat MAX_SEGSIZE"] that by (simp add: u_def word_le_def MAX_SEGSIZE_def)
  have "x' = x \<and> \<not> ok \<or> ok \<and> (x' = x\<lparr>blksize := 0\<rparr> \<or> v \<noteq> BAD_NUM \<and> x' = x\<lparr>blksize := - uint v\<rparr>
      \<or> u \<noteq> BAD_NUM \<and> x' = x\<lparr>blksize := uint u\<rparr>)"
    using assms unfolding parse_blocksize_arg_def v_def [symmetric] u_def [symmetric]
    by (auto simp: Let_def split: if_splits)
  moreover have "- (INT_MAX div 2) \<le> 0" by (simp add: INT_MAX_def)
  moreover have "- uint v \<le> 0" by simp
  ultimately show ?thesis using u v by fastforce
qed

lemma case_bit_exhaust:
  "list_all (\<lambda>n. (122 - 97 < ((of_nat n :: u8) OR 0x20) - 97)
      = (ascii_tolower (of_nat n) \<noteq> ascii_tolower (of_nat n XOR 0x20))) [0..<256]"
  by code_simp

lemma upper_bit_exhaust: "list_all (\<lambda>n. (of_nat n :: u8) XOR of_nat (n + 32) = 0x20) [65..<91]"
  by code_simp

lemma case_bit: "122 - 97 < (c OR 0x20) - 97 \<longleftrightarrow> ascii_tolower c \<noteq> ascii_tolower (c XOR 0x20)" for c :: u8
proof -
  have "unat c \<in> set [0..<256]" using unat_bound [of c] by simp
  note list_all_iff [THEN iffD1, OF case_bit_exhaust, THEN bspec, OF this]
  then show ?thesis by simp
qed

lemma upper_bit:
  fixes c d :: u8
  assumes "unat d = unat c + 32" "65 \<le> unat c" "unat c \<le> 90"
  shows "c XOR d = 0x20" "d XOR c = 0x20"
proof -
  have "c = of_nat (unat c)" "d = of_nat (unat c + 32)" using assms(1) by (simp_all flip: assms(1))
  moreover have "unat c \<in> set [65..<91]" unfolding set_upt using assms(2,3) by simp
  note list_all_iff [THEN iffD1, OF upper_bit_exhaust, THEN bspec, OF this]
  ultimately show "c XOR d = 0x20" by simp
  then show "d XOR c = 0x20" by (simp add: xor.commute)
qed

lemma same_letter:
  fixes c d :: u8
  shows "(c XOR d = 0 \<or> c XOR d = 0x20 \<and> \<not> 122 - 97 < (c OR (c XOR d)) - 97) \<longleftrightarrow> ascii_tolower c = ascii_tolower d"
proof -
  have "c = d \<or> c XOR d = 0x20" if "ascii_tolower c = ascii_tolower d"
  proof -
    have "unat (ascii_tolower c) = unat (ascii_tolower d)" using that by simp
    then consider "unat c = unat d" | "unat d = unat c + 32" "65 \<le> unat c" "unat c \<le> 90"
      | "unat c = unat d + 32" "65 \<le> unat d" "unat d \<le> 90"
      by (auto simp: ascii_tolower_nat split: if_splits)
    then show ?thesis using upper_bit by cases (auto simp: word_unat_eq_iff [of c d])
  qed
  moreover have "d = c XOR 0x20" if "c XOR d = 0x20"
    using that by (metis xor.left_neutral xor.assoc xor_self_eq)
  moreover have "c XOR d = 0 \<longleftrightarrow> c = d"
    by (metis xor.left_neutral xor.right_neutral xor.assoc xor_self_eq)
  ultimately show ?thesis using case_bit [of c] by auto
qed

declare ascii_strncaseeq.simps [simp del]

lemma ascii_strncaseeq_step:
  "n \<noteq> 0 \<Longrightarrow> ascii_strncaseeq s1 s2 n \<longleftrightarrow>
     ascii_tolower (uc (deref s1)) = ascii_tolower (uc (deref s2))
     \<and> (deref s1 = NUL \<or> ascii_strncaseeq (tl s1) (tl s2) (n - 1))"
  using same_letter [of "uc (deref s1)" "uc (deref s2)"]
  by (subst ascii_strncaseeq.simps) (auto simp: Let_def uc_literal)

lemma strncaseeq_iff:
  assumes "NUL \<notin> set s1" "NUL \<notin> set s2" "length s1 < unat n"
  shows "ascii_strncaseeq s1 s2 n \<longleftrightarrow> map (ascii_tolower \<circ> uc) s1 = map (ascii_tolower \<circ> uc) s2"
  using assms
proof (induction s1 arbitrary: s2 n)
  case Nil
  then have "n \<noteq> 0" by auto
  moreover have "ascii_tolower (uc NUL) = ascii_tolower (uc c) \<longleftrightarrow> c = NUL" for c
    using ascii_tolower_uc_0 [of c] ascii_tolower_uc_0 [of NUL] by auto
  ultimately show ?case using Nil by (cases s2) (auto simp: ascii_strncaseeq_step)
next
  case (Cons c s1)
  then have n: "n \<noteq> 0" by auto
  then have u: "unat (n - 1) = unat n - 1" by (simp add: unat_minus_one)
  show ?case
  proof (cases s2)
    case Nil
    have "ascii_tolower (uc c) \<noteq> ascii_tolower (uc NUL)"
      using ascii_tolower_uc_0 [of c] ascii_tolower_uc_0 [of NUL] Cons.prems by auto
    then show ?thesis using n Nil by (simp add: ascii_strncaseeq_step)
  next
    case (Cons d t)
    then show ?thesis
      using n u Cons.IH [of t "n - 1"] Cons.prems \<open>NUL \<notin> set (c # s1)\<close> \<open>NUL \<notin> set s2\<close> \<open>length (c # s1) < unat n\<close>
      by (auto simp: ascii_strncaseeq_step)
  qed
qed

subsection \<open>The port search\<close>

text \<open>The port tried at step \<open>i\<close> of a search of the \<open>k\<close> ports from \<open>a\<close>, starting at offset \<open>f\<close>.\<close>

definition port_at :: "nat \<Rightarrow> nat \<Rightarrow> nat \<Rightarrow> nat \<Rightarrow> u16" where
  "port_at a k f i = of_nat (a + (f + i) mod k)"

lemma port_at_bounds:
  assumes "0 < k" "a + k \<le> 65535"
  shows "a \<le> unat (port_at a k f i)" "unat (port_at a k f i) < a + k" "unat (port_at a k f i) = a + (f + i) mod k"
proof -
  have "(f + i) mod k < k" using assms(1) by simp
  then have "unat (port_at a k f i) = a + (f + i) mod k"
    using assms(2) unfolding port_at_def by (intro unat_of_nat_small) simp
  with \<open>(f + i) mod k < k\<close> show "a \<le> unat (port_at a k f i)" "unat (port_at a k f i) < a + k"
    "unat (port_at a k f i) = a + (f + i) mod k" by simp_all
qed

lemma port_at_Suc:
  assumes "0 < k" "a + k \<le> 65535" "unat from = a" "unat to = a + k - 1"
  shows "(if (to :: u32) < ucast (port_at a k f i + 1) then ucast (from :: u32) else port_at a k f i + 1)
    = port_at a k f (Suc i)"
proof -
  note P = port_at_bounds [OF assms(1,2)]
  have u: "unat (port_at a k f i + 1) = Suc (unat (port_at a k f i))"
    using P(2) [of f i] assms(2) by (simp add: unat_word_ariths)
  then have "to < ucast (port_at a k f i + 1) \<longleftrightarrow> unat to < Suc (unat (port_at a k f i))"
    by (simp add: word_less_nat_alt unat_ucast_wider)
  also have "\<dots> \<longleftrightarrow> (f + i) mod k = k - 1"
    using P(3) [of f i] mod_less_divisor [OF assms(1), of "f + i"] assms(4) by linarith
  finally have cond: "to < ucast (port_at a k f i + 1) \<longleftrightarrow> (f + i) mod k = k - 1" .
  have "(f + Suc i) mod k = (if (f + i) mod k = k - 1 then 0 else Suc ((f + i) mod k))"
    using assms(1) by (simp add: mod_Suc) arith
  moreover have "ucast from = (of_nat a :: u16)" unfolding assms(3) [symmetric] by (simp add: of_nat_unat)
  moreover have "port_at a k f i + 1 = of_nat (a + Suc ((f + i) mod k))" by (simp add: port_at_def)
  ultimately show ?thesis unfolding cond by (simp add: port_at_def)
qed

lemma port_at_cycle:
  assumes "0 < k" "a + k \<le> 65535" "i < k"
  shows "port_at a k f (Suc i) = port_at a k f 0 \<longleftrightarrow> Suc i = k"
proof -
  note P = port_at_bounds [OF assms(1,2)]
  have "port_at a k f (Suc i) = port_at a k f 0 \<longleftrightarrow> (f + Suc i) mod k = f mod k"
    using P(3) [of f "Suc i"] P(3) [of f 0] by (simp add: word_unat_eq_iff)
  also have "\<dots> \<longleftrightarrow> k dvd Suc i" using mod_eq_dvd_iff_nat [of f "f + Suc i" k] by simp
  also have "\<dots> \<longleftrightarrow> Suc i = k" using assms(3) by (auto dest: dvd_imp_le)
  finally show ?thesis .
qed

lemma port_search_result:
  assumes "0 < k" "a + k \<le> 65535" "unat from = a" "unat to = a + k - 1" "i < k"
  shows "\<exists>r. port_search bind from to (port_at a k f 0) i (port_at a k f i) = Some r
    \<and> (\<forall>p. r = Some p \<longrightarrow> a \<le> unat p \<and> unat p < a + k \<and> (\<exists>j<k. bind j p))
    \<and> (r = None \<longrightarrow> (\<forall>j. i \<le> j \<longrightarrow> j < k \<longrightarrow> \<not> bind j (port_at a k f j)))"
  using assms(5)
proof (induction "k - i" arbitrary: i rule: less_induct)
  case less
  note P = port_at_bounds [OF assms(1,2)] and S = port_at_Suc [OF assms(1-4), of f i]
  note rec = port_search.simps [of bind "from" to "port_at a k f 0" i "port_at a k f i", unfolded Let_def S]
  consider "bind i (port_at a k f i)" | "\<not> bind i (port_at a k f i)" "Suc i = k"
    | "\<not> bind i (port_at a k f i)" "Suc i < k" using less.prems by linarith
  then show ?case
  proof cases
    case 1
    then show ?thesis using P less.prems by (subst rec) auto
  next
    case 2
    then show ?thesis using port_at_cycle [OF assms(1,2) less.prems] by (subst rec) (auto simp: less_Suc_eq)
  next
    case 3
    then have "k - Suc i < k - i" by simp
    from less.hyps [OF this 3(2)] obtain r where r: "port_search bind from to (port_at a k f 0) (Suc i) (port_at a k f (Suc i)) = Some r"
      "\<forall>p. r = Some p \<longrightarrow> a \<le> unat p \<and> unat p < a + k \<and> (\<exists>j<k. bind j p)"
      "r = None \<longrightarrow> (\<forall>j. Suc i \<le> j \<longrightarrow> j < k \<longrightarrow> \<not> bind j (port_at a k f j))"
      by blast
    have "port_search bind from to (port_at a k f 0) i (port_at a k f i) = Some r"
      using 3 port_at_cycle [OF assms(1,2) less.prems] r(1) by (subst rec) simp
    then show ?thesis using r(2,3) 3 by (metis le_antisym not_less_eq_eq)
  qed
qed

lemma pick_port_eq:
  assumes "0 < unat (portrange_from xopt)" "unat (portrange_from xopt) \<le> unat (portrange_to xopt)"
    and "unat (portrange_to xopt) < 65535"
  defines "k \<equiv> Suc (unat (portrange_to xopt) - unat (portrange_from xopt))"
  shows "first_port rnd xopt = port_at (unat (portrange_from xopt)) k (unat rnd mod k) 0"
proof -
  let ?a = "unat (portrange_from xopt)"
  have d: "unat (portrange_to xopt - portrange_from xopt) = k - 1"
    using assms(2) by (simp add: unat_sub word_le_nat_alt k_def)
  have "unat (ucast (portrange_to xopt - portrange_from xopt) :: u16) = k - 1"
    using assms(3) d by (simp add: unsigned_ucast_eq take_bit_nat_eq_self k_def)
  then have "unat (ucast (ucast (portrange_to xopt - portrange_from xopt) :: u16) + 1 :: u32) = k"
    using assms(3) by (simp add: unat_word_ariths unat_ucast_wider k_def)
  then have r: "unat (rnd mod (ucast (ucast (portrange_to xopt - portrange_from xopt) :: u16) + 1)) = unat rnd mod k"
    by (simp add: unat_mod_distrib)
  have "first_port rnd xopt = of_nat (unat (portrange_from xopt
       + rnd mod (ucast (ucast (portrange_to xopt - portrange_from xopt) :: u16) + 1)))"
    unfolding first_port_def by (simp add: of_nat_unat)
  also have "unat (portrange_from xopt
       + rnd mod (ucast (ucast (portrange_to xopt - portrange_from xopt) :: u16) + 1)) = ?a + unat rnd mod k"
    using r mod_less_divisor [of k "unat rnd"] assms(2,3)
    by (simp add: unat_word_ariths k_def del: mod_less_divisor)
  finally show ?thesis by (simp add: port_at_def)
qed

subsection \<open>Addresses and times\<close>

lemma scan_ipv6_close:
  assumes "scan_ipv6 m n a = Some (x, y, c)" "c \<noteq> CHR '']''"
  shows "scan_ipv6 m n (a @ '']'') = Some (x, y, CHR '']'')"
  using assms by (induction m n a rule: scan_ipv6.induct) (auto split: if_splits)

lemma strip_address_brackets:
  assumes "is_numeric_ipv6 a" "deref a \<noteq> CHR ''[''"
  shows "strip_address (CHR ''['' # a @ '']'') = a" "strip_address a = a"
proof -
  obtain m n c where s: "scan_ipv6 0 0 a = Some (m, n, c)" "c \<noteq> CHR '']''"
    and ok: "\<not> (m < 2 \<or> 7 < m)" "\<not> (n \<noteq> 0 \<and> (n \<noteq> 3 \<or> 6 < m))"
    using assms by (auto simp: is_numeric_ipv6_def split: option.splits)
  have "is_numeric_ipv6 (CHR ''['' # a @ '']'')"
    using ok by (simp add: is_numeric_ipv6_def scan_ipv6_close [OF s])
  then show "strip_address (CHR ''['' # a @ '']'') = a" by (simp add: strip_address_def butlast_append)
  show "strip_address a = a" using assms(2) by (simp add: strip_address_def)
qed

lemma us_timespec_inverse: "timespec_to_us (us_to_timespec us) = us"
proof -
  have m: "unat (us mod 1000000) = unat us mod 1000000" "unat us mod 1000000 < 1000000"
    by (simp_all add: unat_mod_distrib)
  then have "unat (us mod 1000000 * 1000) = unat us mod 1000000 * 1000"
    by (simp add: unat_word_ariths)
  then have "unat (us mod 1000000 * 1000 div 1000) = unat (us mod 1000000)"
    by (simp add: unat_div_distrib m)
  then have "us mod 1000000 * 1000 div 1000 = us mod 1000000" by (simp add: word_unat_eq_iff)
  then show ?thesis by (simp add: timespec_to_us_def us_to_timespec_def div_mult_mod_eq)
qed

lemma us_timeval_inverse: "timeval_to_us (us_to_timeval us) = us"
  by (simp add: timeval_to_us_def us_to_timeval_def div_mult_mod_eq)

lemma max_blksize_bounds:
  "int MIN_SEGSIZE \<le> tftp_max_blksize q xopt fam \<and> tftp_max_blksize q xopt fam \<le> int MAX_SEGSIZE"
  by (auto simp: tftp_max_blksize_def MIN_SEGSIZE_def MAX_SEGSIZE_def SEGSIZE_def Let_def split: prod.splits)

section \<open>Properties\<close>





text \<open>
  C27: the option names and modes of the protocol are compared without regard to the case of
  ASCII letters, and to nothing else.
\<close>

theorem ascii_strcaseeq_iff:
  assumes "NUL \<notin> set s1" "NUL \<notin> set s2" "length s1 < 2 ^ 64 - 1"
  shows "ascii_strcaseeq s1 s2 \<longleftrightarrow> map (ascii_tolower \<circ> uc) s1 = map (ascii_tolower \<circ> uc) s2"
  unfolding ascii_strcaseeq_def
  using assms(1,2) by (rule strncaseeq_iff) (use assms(3) in \<open>simp add: unsigned_minus_1_eq_mask mask_eq_exp_minus_1\<close>)

theorem ascii_strcaseeq_iff_witness:
  "ascii_strcaseeq ''BlkSize'' ''blksize'' \<and> \<not> ascii_strcaseeq ''blksize'' ''blksize2''"
proof -
  have "map (ascii_tolower \<circ> uc) ''BlkSize'' = map (ascii_tolower \<circ> uc) ''blksize''" by code_simp
  moreover have "map (ascii_tolower \<circ> uc) ''blksize'' \<noteq> map (ascii_tolower \<circ> uc) ''blksize2''" by simp
  ultimately show ?thesis
    using ascii_strcaseeq_iff [of "''BlkSize''" "''blksize''"] ascii_strcaseeq_iff [of "''blksize''" "''blksize2''"]
    by simp
qed

end
