(* ===== verification/Negotiate.thy ===== *)
theory Negotiate
  imports Subs Transport
begin

text \<open>
  Option negotiation in the daemon (\<open>tftpd/tftpd.c\<close>): the table of protocol options, the
  parser of one option of a request, the choice of every parameter of the transfer, and
  the OACK packet.

  The daemon's global variables are a record \<open>daemon_world\<close> on top of the transport's
  world, so that the negotiated values are the ones the transfer engine uses. The bits of
  \<open>flags\<close> are three booleans; \<open>str\<close> and \<open>client_name\<close> are C strings, so a copy of
  \<open>dsize\<close> or \<open>nsize\<close> bytes is the string and its NUL.
\<close>

section \<open>Definitions\<close>

subsection \<open>The option table\<close>

datatype protocol_option_enum =
  PO_BLKSIZE | PO_BLKSIZE2 | PO_COOKIE | PO_ROLLOVER | PO_TIMEOUT | PO_TSIZE | PO_UTIMEOUT | PO_WINDOWSIZE

datatype otype = POT_UINT | POT_STR

definition all_options :: "protocol_option_enum list" where
  "all_options = [PO_BLKSIZE, PO_BLKSIZE2, PO_COOKIE, PO_ROLLOVER, PO_TIMEOUT, PO_TSIZE, PO_UTIMEOUT, PO_WINDOWSIZE]"

fun po_name :: "protocol_option_enum \<Rightarrow> string" where
  "po_name PO_BLKSIZE = ''blksize''"
| "po_name PO_BLKSIZE2 = ''blksize2''"
| "po_name PO_COOKIE = ''cookie''"
| "po_name PO_ROLLOVER = ''rollover''"
| "po_name PO_TIMEOUT = ''timeout''"
| "po_name PO_TSIZE = ''tsize''"
| "po_name PO_UTIMEOUT = ''utimeout''"
| "po_name PO_WINDOWSIZE = ''windowsize''"

fun po_otype :: "protocol_option_enum \<Rightarrow> otype" where
  "po_otype PO_COOKIE = POT_STR"
| "po_otype _ = POT_UINT"

record daemon_protocol_option =
  dsize :: u16
  pof_refuse :: bool
  pof_req :: bool
  pof_ack :: bool
  client_name :: string
  po_uint :: u64
  po_str :: "string option"

datatype tsize_mode = TSIZE_NAK | TSIZE_READ | TSIZE_WRITE

record daemon_world = xfer_world +
  protocol_options :: "protocol_option_enum \<Rightarrow> daemon_protocol_option"
  segsize :: u32
  wndsize :: u32
  rollover_val :: u16
  tsize_mode :: tsize_mode
  tsize_size :: u64

record daemon_limits = common_options +
  max_windowbytes :: u64
  reject_all_options :: bool

definition option_init :: daemon_protocol_option where
  "option_init = \<lparr>dsize = 0, pof_refuse = False, pof_req = False, pof_ack = False, client_name = [], po_uint = 0, po_str = None\<rparr>"

definition daemon_start :: "xfer_world \<Rightarrow> daemon_world" where
  "daemon_start w = xfer_world.extend w
     \<lparr>protocol_options = \<lambda>_. option_init, segsize = 0, wndsize = 0, rollover_val = 0, tsize_mode = TSIZE_NAK, tsize_size = 0\<rparr>"

definition nsize :: "protocol_option_enum \<Rightarrow> nat" where
  "nsize opt = length (po_name opt) + 1"

definition opt_requested :: "protocol_option_enum \<Rightarrow> 'a daemon_world_scheme \<Rightarrow> bool" where
  "opt_requested opt w =
     (pof_req (protocol_options w opt) \<and> \<not> pof_refuse (protocol_options w opt))"

definition opt_granted :: "daemon_protocol_option \<Rightarrow> bool" where
  "opt_granted po = (pof_ack po \<and> pof_req po \<and> \<not> pof_refuse po)"

definition set_option ::
  "protocol_option_enum \<Rightarrow> daemon_protocol_option \<Rightarrow> 'a daemon_world_scheme \<Rightarrow> 'a daemon_world_scheme" where
  "set_option opt po w = w\<lparr>protocol_options := (protocol_options w)(opt := po)\<rparr>"

definition grant :: "protocol_option_enum \<Rightarrow> 'a daemon_world_scheme \<Rightarrow> 'a daemon_world_scheme" where
  "grant opt w = set_option opt (protocol_options w opt\<lparr>pof_ack := True\<rparr>) w"

definition grant_value :: "protocol_option_enum \<Rightarrow> u64 \<Rightarrow> 'a daemon_world_scheme \<Rightarrow> 'a daemon_world_scheme" where
  "grant_value opt v w = set_option opt (protocol_options w opt\<lparr>pof_ack := True, po_uint := v\<rparr>) w"

definition requested_uint :: "protocol_option_enum \<Rightarrow> 'a daemon_world_scheme \<Rightarrow> u64 option" where
  "requested_uint opt w = (if opt_requested opt w then Some (po_uint (protocol_options w opt)) else None)"

subsection \<open>Parsing one option\<close>

text \<open>The value parsed for an integer option, if it is a plain unsigned decimal number.\<close>

definition option_uint :: "string \<Rightarrow> u64 option" where
  "option_uint val =
     (if \<not> ascii_isdigit (deref val) then None
      else case strtoumax val of
             Some (v, [], False) \<Rightarrow> Some v
           | _ \<Rightarrow> None)"

definition store_option ::
  "protocol_option_enum \<Rightarrow> string \<Rightarrow> string \<Rightarrow> 'a daemon_world_scheme \<Rightarrow> 'a daemon_world_scheme" where
  "store_option i opt val w =
     (let po = protocol_options w i\<lparr>client_name := opt\<rparr> in
      case po_otype i of
        POT_UINT \<Rightarrow>
          (case option_uint val of
             None \<Rightarrow> set_option i po w
           | Some v \<Rightarrow>
               set_option i (po\<lparr>po_uint := v, dsize := of_nat (length val + 1), po_str := Some val, pof_req := True\<rparr>) w)
      | POT_STR \<Rightarrow>
          set_option i (po\<lparr>dsize := of_nat (length val + 1), po_str := Some val, pof_req := True\<rparr>) w)"

fun parse_option_in ::
  "protocol_option_enum list \<Rightarrow> string \<Rightarrow> string \<Rightarrow> 'a daemon_world_scheme \<Rightarrow> 'a daemon_world_scheme" where
  "parse_option_in [] opt val w = w"
| "parse_option_in (i # is) opt val w =
     (if ascii_strcaseeq (po_name i) opt then store_option i opt val w else parse_option_in is opt val w)"

definition parse_option :: "string \<Rightarrow> string \<Rightarrow> 'a daemon_world_scheme \<Rightarrow> 'a daemon_world_scheme" where
  "parse_option opt val w = (if opt = [] \<or> val = [] then w else parse_option_in all_options opt val w)"

subsection \<open>Choosing the parameters\<close>

function round_down_pow2 :: "u32 \<Rightarrow> u32" where
  "round_down_pow2 b = (if b AND (b - 1) \<noteq> 0 then round_down_pow2 (b AND (b - 1)) else b)"
  by pat_completeness auto
termination
proof (relation "measure unat")
  fix b :: u32
  assume "b AND (b - 1) \<noteq> 0"
  then have "b \<noteq> 0" by auto
  then have "unat (b - 1) < unat b" by (simp add: unat_minus_one unat_gt_0)
  moreover have "unat (b AND (b - 1)) \<le> unat (b - 1)"
    using word_and_le1 [of b "b - 1"] by (simp add: word_le_nat_alt)
  ultimately show "(b AND (b - 1), b) \<in> measure unat" by simp
qed simp

text \<open>The value offered to \<open>blksize2\<close> clients: \<open>0\<close> when the option is absent or too small.\<close>

definition blksize2_offer :: "u32 \<Rightarrow> u64 option \<Rightarrow> u32" where
  "blksize2_offer max_blksize blk2 =
     (case blk2 of
        None \<Rightarrow> 0
      | Some v \<Rightarrow>
          if v < of_nat MIN_SEGSIZE then 0
          else round_down_pow2 (if ucast max_blksize < v then max_blksize else ucast v))"

text \<open>The block size, and whether \<open>blksize\<close> and \<open>blksize2\<close> are acknowledged.\<close>

definition choose_blksize :: "u32 \<Rightarrow> u64 option \<Rightarrow> u64 option \<Rightarrow> u32 \<times> bool \<times> bool" where
  "choose_blksize max_blksize blk blk2 =
     (let b2 = blksize2_offer max_blksize blk2;
          use2 = (case blk2 of None \<Rightarrow> False | Some v \<Rightarrow> \<not> v < of_nat MIN_SEGSIZE);
          (b, use1) =
            (case blk of
               None \<Rightarrow> (b2, False)
             | Some v \<Rightarrow>
                 if v < of_nat MIN_SEGSIZE then (b2, False)
                 else if ucast max_blksize < v then (max_blksize, True)
                 else if v < ucast b2 then (b2, False)
                 else (ucast v, True));
          ack1 = (use1 \<and> b \<noteq> 0);
          ack2 = (use2 \<and> b \<noteq> 0 \<and> b AND (b - 1) = 0)
      in (if \<not> ack1 \<and> \<not> ack2 then of_nat SEGSIZE else b, ack1, ack2))"

definition negotiate_blksize :: "u32 \<Rightarrow> 'a daemon_world_scheme \<Rightarrow> 'a daemon_world_scheme" where
  "negotiate_blksize max_blksize w =
     (case choose_blksize max_blksize (requested_uint PO_BLKSIZE w) (requested_uint PO_BLKSIZE2 w) of
        (b, ack1, ack2) \<Rightarrow>
          let w1 = (if ack1 then grant_value PO_BLKSIZE (ucast b) w else w);
              w2 = (if ack2 then grant_value PO_BLKSIZE2 (ucast b) w1 else w1)
          in w2\<lparr>segsize := b\<rparr>)"

definition negotiate_windowsize :: "'b daemon_limits_scheme \<Rightarrow> 'a daemon_world_scheme \<Rightarrow> 'a daemon_world_scheme" where
  "negotiate_windowsize dopt w =
     (case requested_uint PO_WINDOWSIZE w of
        None \<Rightarrow> w\<lparr>wndsize := 1\<rparr>
      | Some v \<Rightarrow>
          if \<not> 1 < v then w\<lparr>wndsize := 1\<rparr>
          else
            let win1 = (if ucast (max_windowsize dopt) < v then max_windowsize dopt else ucast v);
                win2 = (if max_windowbytes dopt < ucast win1 * ucast (segsize w)
                        then ucast (max_windowbytes dopt div ucast (segsize w)) else win1)
            in if 1 < win2 then (grant_value PO_WINDOWSIZE (ucast win2) w)\<lparr>wndsize := win2\<rparr>
               else w\<lparr>wndsize := 1\<rparr>)"

definition negotiate_tsize :: "'a daemon_world_scheme \<Rightarrow> 'a daemon_world_scheme" where
  "negotiate_tsize w =
     (case requested_uint PO_TSIZE w of
        None \<Rightarrow> w
      | Some v \<Rightarrow>
          (case tsize_mode w of
             TSIZE_NAK \<Rightarrow> w
           | TSIZE_READ \<Rightarrow> if v = 0 then grant_value PO_TSIZE (tsize_size w) w else w
           | TSIZE_WRITE \<Rightarrow> (grant PO_TSIZE w)\<lparr>tsize_size := v\<rparr>))"

definition MIN_TIMEOUT_SEC :: u64 where
  "MIN_TIMEOUT_SEC = 1"

definition MAX_TIMEOUT_SEC :: u64 where
  "MAX_TIMEOUT_SEC = 255"

definition negotiate_timeout :: "'a daemon_world_scheme \<Rightarrow> 'a daemon_world_scheme" where
  "negotiate_timeout w =
     (let tos = (case requested_uint PO_TIMEOUT w of None \<Rightarrow> None
                 | Some v \<Rightarrow> if v < MIN_TIMEOUT_SEC \<or> MAX_TIMEOUT_SEC < v then None else Some (v * USEC_PER_SEC));
          tou = (case requested_uint PO_UTIMEOUT w of None \<Rightarrow> None
                 | Some v \<Rightarrow> if v < MIN_TIMEOUT \<or> MAX_TIMEOUT < v then None else Some v);
          tos_us = (case tos of None \<Rightarrow> 0 | Some t \<Rightarrow> t);
          to = (case tou of None \<Rightarrow> tos_us | Some t \<Rightarrow> t);
          ack_tos = (tos \<noteq> None \<and> (tou = None \<or> tos_us = to));
          w1 = (if ack_tos then grant PO_TIMEOUT w else w);
          w2 = (if tou \<noteq> None then grant PO_UTIMEOUT w1 else w1)
      in if to \<noteq> 0 then w2\<lparr>rexmtval := to, timeout := to, maxtimeout := to * TIMEOUT_LIMIT\<rparr> else w2)"

definition negotiate_rollover :: "'a daemon_world_scheme \<Rightarrow> 'a daemon_world_scheme" where
  "negotiate_rollover w =
     (case requested_uint PO_ROLLOVER w of
        None \<Rightarrow> w\<lparr>rollover_val := 0\<rparr>
      | Some v \<Rightarrow> if v \<le> 1 then (grant PO_ROLLOVER w)\<lparr>rollover_val := ucast v\<rparr> else w\<lparr>rollover_val := 0\<rparr>)"

definition TFTP_MAX_COOKIE :: u16 where
  "TFTP_MAX_COOKIE = 255"

definition negotiate_cookie :: "'a daemon_world_scheme \<Rightarrow> 'a daemon_world_scheme" where
  "negotiate_cookie w =
     (if opt_requested PO_COOKIE w \<and> dsize (protocol_options w PO_COOKIE) \<le> TFTP_MAX_COOKIE + 1
      then grant PO_COOKIE w else w)"

subsection \<open>The OACK packet\<close>

text \<open>The first pass over the table fixes the text of every granted option and drops the others.\<close>

definition settle_option :: "protocol_option_enum \<Rightarrow> 'a daemon_world_scheme \<Rightarrow> 'a daemon_world_scheme" where
  "settle_option i w =
     (let po = protocol_options w i in
      if opt_granted po then
        (case po_otype i of
           POT_UINT \<Rightarrow>
             let str = decimal (unat (po_uint po))
             in set_option i (po\<lparr>po_str := Some str, dsize := of_nat (length str + 1)\<rparr>) w
         | POT_STR \<Rightarrow> w)
      else set_option i (po\<lparr>po_str := None\<rparr>) w)"

definition settle_options :: "'a daemon_world_scheme \<Rightarrow> 'a daemon_world_scheme" where
  "settle_options w = fold settle_option all_options w"

definition oack_bufsize :: "'a daemon_world_scheme \<Rightarrow> nat" where
  "oack_bufsize w =
     sum_list (map (\<lambda>i. nsize i + unat (dsize (protocol_options w i)))
       (filter (\<lambda>i. opt_granted (protocol_options w i)) all_options))"

text \<open>\<open>mempcpy\<close> of a C string with the given size: the string and its terminator.\<close>

definition c_bytes :: "nat \<Rightarrow> string \<Rightarrow> char list" where
  "c_bytes n s = take n (s @ [NUL])"

definition oack_pair :: "'a daemon_world_scheme \<Rightarrow> protocol_option_enum \<Rightarrow> char list" where
  "oack_pair w i =
     (let po = protocol_options w i
      in c_bytes (nsize i) (client_name po) @ c_bytes (unat (dsize po)) (the (po_str po)))"

definition build_oack :: "'a daemon_world_scheme \<Rightarrow> packet option \<times> 'a daemon_world_scheme" where
  "build_oack w =
     (let w1 = settle_options w in
      if oack_bufsize w1 = 0 then (None, w1)
      else (Some (put16 OACK @
              concat (map (oack_pair w1) (filter (\<lambda>i. opt_granted (protocol_options w1 i)) all_options))), w1))"

text \<open>\<open>max_blksize\<close> is what \<open>tftp_max_blksize\<close> returned for the client's address.\<close>

definition negotiate_options ::
  "'b daemon_limits_scheme \<Rightarrow> u32 \<Rightarrow> 'a daemon_world_scheme \<Rightarrow> packet option \<times> 'a daemon_world_scheme" where
  "negotiate_options dopt max_blksize w =
     (if reject_all_options dopt then (None, w)
      else
        build_oack (negotiate_cookie (negotiate_rollover (negotiate_timeout (negotiate_tsize
          (negotiate_windowsize dopt (negotiate_blksize max_blksize w)))))))"

subsection \<open>An example request\<close>

definition example_limits :: daemon_limits where
  "example_limits = \<lparr>portrange_from = 0, portrange_to = 0, blksize = 65464, max_windowsize = 64,
     max_windowbytes = 1000000, reject_all_options = False\<rparr>"

definition example_option :: "string \<Rightarrow> string \<Rightarrow> u64 \<Rightarrow> daemon_protocol_option" where
  "example_option name val v = option_init\<lparr>dsize := of_nat (length val + 1), pof_req := True, client_name := name,
     po_uint := v, po_str := Some val\<rparr>"

definition example_request :: daemon_world where
  "example_request =
     set_option PO_WINDOWSIZE (example_option ''windowsize'' ''16'' 16)
       (set_option PO_BLKSIZE (example_option ''BLKSIZE'' ''1432'' 1432)
         (daemon_start (world_of (reader_of False 1 8 ''ab'') 1000000)))"

section \<open>Lemmas\<close>

subsection \<open>Rounding down to a power of two\<close>

lemma and_pred_nat:
  fixes n :: nat
  assumes "0 < n"
  shows "(n AND (n - 1) = 0 \<longrightarrow> (\<exists>k. n = 2 ^ k)) \<and> (n AND (n - 1) \<noteq> 0 \<longrightarrow> (\<forall>k. 2 ^ k \<le> n \<longrightarrow> 2 ^ k \<le> n AND (n - 1)))"
  using assms
proof (induction n rule: less_induct)
  case (less n)
  show ?case
  proof (cases "even n")
    case True
    then obtain m where m: "n = 2 * m" "0 < m" using less.prems by auto
    then have "n - 1 = 1 + 2 * (m - 1)" by simp
    then have eq: "n AND (n - 1) = 2 * (m AND (m - 1))"
      by (simp add: m(1) and_nat_rec [of "2 * m"])
    have IH: "(m AND (m - 1) = 0 \<longrightarrow> (\<exists>k. m = 2 ^ k)) \<and> (m AND (m - 1) \<noteq> 0 \<longrightarrow> (\<forall>k. 2 ^ k \<le> m \<longrightarrow> 2 ^ k \<le> m AND (m - 1)))"
      using less.IH [of m] m by simp
    have "2 ^ k \<le> 2 * (m AND (m - 1))" if "m AND (m - 1) \<noteq> 0" "2 ^ k \<le> n" for k
      using that IH m by (cases k) auto
    moreover have "\<exists>k. n = 2 ^ k" if "m AND (m - 1) = 0"
      using IH that m by (metis power_Suc)
    ultimately show ?thesis using eq by auto
  next
    case False
    then obtain m where m: "n = Suc (2 * m)" by (metis oddE Suc_eq_plus1)
    then have eq: "n AND (n - 1) = 2 * m" by (simp add: and_nat_rec [of "Suc (2 * m)"])
    have "2 ^ k \<le> 2 * m" if "m \<noteq> 0" "2 ^ k \<le> n" for k
      using that m by (cases k) auto
    moreover have "n = 2 ^ 0" if "m = 0" using that m by simp
    ultimately show ?thesis unfolding eq by (auto intro: exI [of _ 0])
  qed
qed

lemma unat_and_pred: "b \<noteq> 0 \<Longrightarrow> unat (b AND (b - 1)) = unat b AND (unat b - 1)" for b :: u32
  by (simp add: unsigned_and_eq unat_minus_one)

lemma pow2_test:
  fixes b :: u32
  assumes "b \<noteq> 0" "b AND (b - 1) = 0"
  shows "\<exists>k. unat b = 2 ^ k"
proof -
  have "unat b AND (unat b - 1) = 0" using assms unat_and_pred [of b] by simp
  then show ?thesis using and_pred_nat [of "unat b"] assms(1) by (simp add: unat_gt_0)
qed

declare round_down_pow2.simps [simp del]

lemma round_down_pow2:
  assumes "b \<noteq> 0"
  shows "round_down_pow2 b \<le> b \<and> round_down_pow2 b AND (round_down_pow2 b - 1) = 0 \<and> round_down_pow2 b \<noteq> 0
    \<and> (\<forall>k. 2 ^ k \<le> unat b \<longrightarrow> 2 ^ k \<le> unat (round_down_pow2 b))"
  using assms
proof (induction b rule: round_down_pow2.induct)
  case (1 b)
  show ?case
  proof (cases "b AND (b - 1) = 0")
    case True
    then show ?thesis using 1 by (subst (1 2 3 4 5) round_down_pow2.simps) simp
  next
    case False
    have eq: "round_down_pow2 b = round_down_pow2 (b AND (b - 1))"
      using False by (subst round_down_pow2.simps) simp
    have "unat b AND (unat b - 1) \<noteq> 0"
      using False unat_and_pred [OF \<open>b \<noteq> 0\<close>] by (metis unat_eq_zero)
    then have "\<forall>k. 2 ^ k \<le> unat b \<longrightarrow> 2 ^ k \<le> unat (b AND (b - 1))"
      using and_pred_nat [of "unat b"] 1(2) unat_and_pred [OF \<open>b \<noteq> 0\<close>] by (simp add: unat_gt_0)
    moreover have "b AND (b - 1) \<le> b" by (rule word_and_le2)
    ultimately show ?thesis using 1(1) [OF False False] unfolding eq by (meson order_trans)
  qed
qed

lemma pow2_at_least_MIN: "2 ^ 3 \<le> unat (b :: u32) \<Longrightarrow> of_nat MIN_SEGSIZE \<le> b"
  by (simp add: MIN_SEGSIZE_def word_le_nat_alt)

lemma blksize2_offer:
  assumes "of_nat MIN_SEGSIZE \<le> max_blksize"
  shows "blksize2_offer max_blksize None = 0"
    and "v < of_nat MIN_SEGSIZE \<Longrightarrow> blksize2_offer max_blksize (Some v) = 0"
    and "\<not> v < of_nat MIN_SEGSIZE \<Longrightarrow>
       of_nat MIN_SEGSIZE \<le> blksize2_offer max_blksize (Some v)
       \<and> blksize2_offer max_blksize (Some v) \<le> max_blksize
       \<and> ucast (blksize2_offer max_blksize (Some v)) \<le> v
       \<and> blksize2_offer max_blksize (Some v) AND (blksize2_offer max_blksize (Some v) - 1) = 0"
proof -
  show "blksize2_offer max_blksize None = 0" "v < of_nat MIN_SEGSIZE \<Longrightarrow> blksize2_offer max_blksize (Some v) = 0"
    by (simp_all add: blksize2_offer_def)
  assume v: "\<not> v < of_nat MIN_SEGSIZE"
  define b :: u32 where "b = (if ucast max_blksize < v then max_blksize else ucast v)"
  have mb: "unat (ucast max_blksize :: u64) = unat max_blksize" by (rule unat_ucast_wider) simp
  have ub: "unat b = min (unat max_blksize) (unat v)"
  proof (cases "ucast max_blksize < v")
    case True
    then show ?thesis using mb by (simp add: b_def word_less_nat_alt)
  next
    case False
    then have le: "unat v \<le> unat max_blksize" using mb by (simp add: word_less_nat_alt)
    then have "unat v < 2 ^ 32" using unat_bound [of max_blksize] by simp
    then have "unat (ucast v :: u32) = unat v" by (simp add: unsigned_ucast_eq take_bit_nat_eq_self)
    then show ?thesis using False le by (simp add: b_def)
  qed
  have "8 \<le> unat max_blksize" "8 \<le> unat v"
    using assms v by (simp_all add: MIN_SEGSIZE_def word_le_nat_alt word_less_nat_alt not_less)
  then have b8: "2 ^ 3 \<le> unat b" using ub by simp
  then have "b \<noteq> 0" by auto
  note R = round_down_pow2 [OF this]
  have off: "blksize2_offer max_blksize (Some v) = round_down_pow2 b"
    using v by (simp add: blksize2_offer_def b_def)
  have "unat (round_down_pow2 b) \<le> unat b" using R by (simp add: word_le_nat_alt)
  then have "round_down_pow2 b \<le> max_blksize" "unat (round_down_pow2 b) \<le> unat v"
    using ub by (simp_all add: word_le_nat_alt)
  moreover from this have "ucast (round_down_pow2 b) \<le> v"
    using unat_ucast_wider [where 'b = 64, of "round_down_pow2 b"] by (simp add: word_le_nat_alt)
  ultimately show "of_nat MIN_SEGSIZE \<le> blksize2_offer max_blksize (Some v)
       \<and> blksize2_offer max_blksize (Some v) \<le> max_blksize
       \<and> ucast (blksize2_offer max_blksize (Some v)) \<le> v
       \<and> blksize2_offer max_blksize (Some v) AND (blksize2_offer max_blksize (Some v) - 1) = 0"
    unfolding off using R b8 pow2_at_least_MIN by blast
qed

lemma blksize_fits:
  fixes v :: u64 and max_blksize :: u32
  assumes "\<not> v < of_nat MIN_SEGSIZE" "\<not> ucast max_blksize < v"
  shows "of_nat MIN_SEGSIZE \<le> (ucast v :: u32) \<and> (ucast v :: u32) \<le> max_blksize \<and> ucast (ucast v :: u32) = v"
proof -
  have "unat v \<le> unat max_blksize"
    using assms(2) unat_ucast_wider [where 'b = 64, of max_blksize] by (simp add: word_less_nat_alt)
  then have "unat v < 2 ^ 32" using unat_bound [of max_blksize] by simp
  then have u: "unat (ucast v :: u32) = unat v" by (simp add: unsigned_ucast_eq take_bit_nat_eq_self)
  moreover have "unat (ucast (ucast v :: u32) :: u64) = unat v"
    using u unat_ucast_wider [where 'b = 64, of "ucast v :: u32"] by simp
  ultimately show ?thesis
    using assms(1) \<open>unat v \<le> unat max_blksize\<close>
    by (simp add: MIN_SEGSIZE_def word_le_nat_alt word_less_nat_alt word_unat_eq_iff [of "ucast (ucast v :: u32)"])
qed

lemma choose_blksize:
  assumes max: "of_nat MIN_SEGSIZE \<le> max_blksize"
    and c: "choose_blksize max_blksize blk blk2 = (b, ack1, ack2)"
  shows "of_nat MIN_SEGSIZE \<le> b"
    and "ack1 \<or> ack2 \<Longrightarrow> b \<le> max_blksize"
    and "\<not> ack1 \<Longrightarrow> \<not> ack2 \<Longrightarrow> b = of_nat SEGSIZE"
    and "ack1 \<Longrightarrow> \<exists>v. blk = Some v \<and> ucast b \<le> v"
    and "ack2 \<Longrightarrow> blk2 \<noteq> None \<and> b AND (b - 1) = 0"
proof -
  define b2 where "b2 = blksize2_offer max_blksize blk2"
  define use2 where "use2 = (case blk2 of None \<Rightarrow> False | Some v \<Rightarrow> \<not> v < of_nat MIN_SEGSIZE)"
  have b2: "if use2 then of_nat MIN_SEGSIZE \<le> b2 \<and> b2 \<le> max_blksize \<and> b2 AND (b2 - 1) = 0 \<and> blk2 \<noteq> None else b2 = 0"
    using blksize2_offer [OF max] by (cases blk2) (auto simp: b2_def use2_def)
  have min0: "of_nat MIN_SEGSIZE \<le> x \<Longrightarrow> x \<noteq> 0" for x :: u32
    by (auto simp: MIN_SEGSIZE_def word_le_nat_alt)
  have m0: "max_blksize \<noteq> 0" by (rule min0 [OF max])
  have SEG: "of_nat MIN_SEGSIZE \<le> (of_nat SEGSIZE :: u32)" by (simp add: MIN_SEGSIZE_def SEGSIZE_def)
  note C = c [unfolded choose_blksize_def, folded b2_def use2_def, unfolded Let_def]
  consider (none) "blk = None \<or> (\<exists>v. blk = Some v \<and> (v < of_nat MIN_SEGSIZE \<or> \<not> ucast max_blksize < v \<and> v < ucast b2))"
    | (large) v where "blk = Some v" "\<not> v < of_nat MIN_SEGSIZE" "ucast max_blksize < v"
    | (exact) v where "blk = Some v" "\<not> v < of_nat MIN_SEGSIZE" "\<not> ucast max_blksize < v" "\<not> v < ucast b2"
    by (cases blk) auto
  then have "of_nat MIN_SEGSIZE \<le> b \<and> (ack1 \<or> ack2 \<longrightarrow> b \<le> max_blksize) \<and> (\<not> ack1 \<longrightarrow> \<not> ack2 \<longrightarrow> b = of_nat SEGSIZE)
    \<and> (ack1 \<longrightarrow> (\<exists>v. blk = Some v \<and> ucast b \<le> v)) \<and> (ack2 \<longrightarrow> blk2 \<noteq> None \<and> b AND (b - 1) = 0)"
  proof cases
    case none
    then have "(b, ack1, ack2) = (if \<not> (use2 \<and> b2 \<noteq> 0 \<and> b2 AND (b2 - 1) = 0) then of_nat SEGSIZE else b2, False,
        use2 \<and> b2 \<noteq> 0 \<and> b2 AND (b2 - 1) = 0)"
      using C by (auto split: if_splits)
    then show ?thesis using b2 SEG by (cases use2) auto
  next
    case large
    then have "b = max_blksize" "ack1" "ack2 \<longrightarrow> use2 \<and> b AND (b - 1) = 0" using C m0 by auto
    then show ?thesis using large max b2 by (auto simp: less_imp_le split: if_splits)
  next
    case exact
    note f = blksize_fits [OF exact(2,3)]
    then have "b = ucast v" "ack1" "ack2 \<longrightarrow> use2 \<and> b AND (b - 1) = 0" using C exact min0 by auto
    then show ?thesis using exact(1) f b2 by (auto split: if_splits)
  qed
  then show "of_nat MIN_SEGSIZE \<le> b" "ack1 \<or> ack2 \<Longrightarrow> b \<le> max_blksize"
    "\<not> ack1 \<Longrightarrow> \<not> ack2 \<Longrightarrow> b = of_nat SEGSIZE" "ack1 \<Longrightarrow> \<exists>v. blk = Some v \<and> ucast b \<le> v"
    "ack2 \<Longrightarrow> blk2 \<noteq> None \<and> b AND (b - 1) = 0" by blast+
qed

subsection \<open>What each step leaves alone\<close>

lemma grant_simps [simp]:
  "protocol_options (grant i w) j = (if j = i then protocol_options w i\<lparr>pof_ack := True\<rparr> else protocol_options w j)"
  "protocol_options (grant_value i v w) j =
     (if j = i then protocol_options w i\<lparr>pof_ack := True, po_uint := v\<rparr> else protocol_options w j)"
  "segsize (grant i w) = segsize w" "segsize (grant_value i v w) = segsize w"
  "wndsize (grant i w) = wndsize w" "wndsize (grant_value i v w) = wndsize w"
  "rollover_val (grant i w) = rollover_val w" "rollover_val (grant_value i v w) = rollover_val w"
  "rexmtval (grant i w) = rexmtval w" "rexmtval (grant_value i v w) = rexmtval w"
  "maxtimeout (grant i w) = maxtimeout w" "maxtimeout (grant_value i v w) = maxtimeout w"
  "timeout (grant i w) = timeout w" "timeout (grant_value i v w) = timeout w"
  by (auto simp: grant_def grant_value_def set_option_def)

lemma requested_uint_cong:
  "protocol_options w' i = protocol_options w i \<Longrightarrow> requested_uint i w' = requested_uint i w"
  by (simp add: requested_uint_def opt_requested_def)

text \<open>A step changes the entries of its own options and nothing of the request flags.\<close>

definition touches ::
  "protocol_option_enum set \<Rightarrow> 'a daemon_world_scheme \<Rightarrow> 'a daemon_world_scheme \<Rightarrow> bool" where
  "touches is w w' \<longleftrightarrow>
     (\<forall>i. i \<notin> is \<longrightarrow> protocol_options w' i = protocol_options w i)
     \<and> (\<forall>i. opt_requested i w' = opt_requested i w)
     \<and> (\<forall>i. client_name (protocol_options w' i) = client_name (protocol_options w i)
            \<and> po_str (protocol_options w' i) = po_str (protocol_options w i)
            \<and> dsize (protocol_options w' i) = dsize (protocol_options w i))"

lemma touches_blksize: "touches {PO_BLKSIZE, PO_BLKSIZE2} w (negotiate_blksize m w)"
  by (auto simp: touches_def negotiate_blksize_def opt_requested_def Let_def split: prod.splits)

lemma touches_windowsize: "touches {PO_WINDOWSIZE} w (negotiate_windowsize dopt w)"
  by (auto simp: touches_def negotiate_windowsize_def opt_requested_def Let_def split: option.splits)

lemma touches_tsize: "touches {PO_TSIZE} w (negotiate_tsize w)"
  by (auto simp: touches_def negotiate_tsize_def opt_requested_def split: option.splits tsize_mode.splits)

lemma touches_timeout: "touches {PO_TIMEOUT, PO_UTIMEOUT} w (negotiate_timeout w)"
  by (auto simp: touches_def negotiate_timeout_def opt_requested_def Let_def)

lemma touches_rollover: "touches {PO_ROLLOVER} w (negotiate_rollover w)"
  by (auto simp: touches_def negotiate_rollover_def opt_requested_def split: option.splits)

lemma touches_cookie: "touches {PO_COOKIE} w (negotiate_cookie w)"
  by (auto simp: touches_def negotiate_cookie_def opt_requested_def)

lemma touches_trans: "touches a w w' \<Longrightarrow> touches b w' w'' \<Longrightarrow> touches (a \<union> b) w w''"
  by (auto simp: touches_def)

lemma touches_requested: "touches is w w' \<Longrightarrow> i \<notin> is \<Longrightarrow> requested_uint i w' = requested_uint i w"
  by (rule requested_uint_cong) (simp add: touches_def)

lemma touches_entry: "touches is w w' \<Longrightarrow> i \<notin> is \<Longrightarrow> protocol_options w' i = protocol_options w i"
  by (simp add: touches_def)

lemma negotiate_keeps:
  "segsize (negotiate_windowsize dopt w) = segsize w" "segsize (negotiate_tsize w) = segsize w"
  "segsize (negotiate_timeout w) = segsize w" "segsize (negotiate_rollover w) = segsize w" "segsize (negotiate_cookie w) = segsize w"
  "wndsize (negotiate_tsize w) = wndsize w" "wndsize (negotiate_timeout w) = wndsize w"
  "wndsize (negotiate_rollover w) = wndsize w" "wndsize (negotiate_cookie w) = wndsize w"
  "rollover_val (negotiate_cookie w) = rollover_val w"
  by (auto simp: negotiate_windowsize_def negotiate_tsize_def negotiate_timeout_def negotiate_rollover_def
      negotiate_cookie_def Let_def split: option.splits tsize_mode.splits)

lemma negotiate_keeps_timers:
  "rexmtval (negotiate_blksize m w) = rexmtval w" "rexmtval (negotiate_windowsize dopt w) = rexmtval w"
  "rexmtval (negotiate_tsize w) = rexmtval w" "rexmtval (negotiate_rollover w) = rexmtval w" "rexmtval (negotiate_cookie w) = rexmtval w"
  "timeout (negotiate_blksize m w) = timeout w" "timeout (negotiate_windowsize dopt w) = timeout w"
  "timeout (negotiate_tsize w) = timeout w" "timeout (negotiate_rollover w) = timeout w" "timeout (negotiate_cookie w) = timeout w"
  "maxtimeout (negotiate_blksize m w) = maxtimeout w" "maxtimeout (negotiate_windowsize dopt w) = maxtimeout w"
  "maxtimeout (negotiate_tsize w) = maxtimeout w" "maxtimeout (negotiate_rollover w) = maxtimeout w"
  "maxtimeout (negotiate_cookie w) = maxtimeout w"
  by (auto simp: negotiate_blksize_def negotiate_windowsize_def negotiate_tsize_def negotiate_rollover_def
      negotiate_cookie_def Let_def split: prod.splits option.splits tsize_mode.splits)

subsection \<open>What each step decides\<close>

abbreviation acked :: "protocol_option_enum \<Rightarrow> 'a daemon_world_scheme \<Rightarrow> bool" where
  "acked i w \<equiv> pof_ack (protocol_options w i)"

abbreviation opt_value :: "protocol_option_enum \<Rightarrow> 'a daemon_world_scheme \<Rightarrow> u64" where
  "opt_value i w \<equiv> po_uint (protocol_options w i)"

definition blksize_settled :: "'a daemon_world_scheme \<Rightarrow> 'a daemon_world_scheme \<Rightarrow> bool" where
  "blksize_settled w w' \<longleftrightarrow>
     of_nat MIN_SEGSIZE \<le> segsize w' \<and> segsize w' \<le> of_nat MAX_SEGSIZE
     \<and> (acked PO_BLKSIZE w' \<longrightarrow> opt_requested PO_BLKSIZE w \<and> opt_value PO_BLKSIZE w' = ucast (segsize w')
          \<and> ucast (segsize w') \<le> opt_value PO_BLKSIZE w)
     \<and> (acked PO_BLKSIZE2 w' \<longrightarrow> opt_requested PO_BLKSIZE2 w \<and> opt_value PO_BLKSIZE2 w' = ucast (segsize w')
          \<and> (\<exists>k. unat (segsize w') = 2 ^ k))
     \<and> (\<not> acked PO_BLKSIZE w' \<longrightarrow> \<not> acked PO_BLKSIZE2 w' \<longrightarrow> segsize w' = of_nat SEGSIZE)"

definition window_settled :: "'b daemon_limits_scheme \<Rightarrow> 'a daemon_world_scheme \<Rightarrow> 'a daemon_world_scheme \<Rightarrow> bool" where
  "window_settled dopt w w' \<longleftrightarrow>
     1 \<le> wndsize w' \<and> wndsize w' \<le> max_windowsize dopt
     \<and> (acked PO_WINDOWSIZE w' \<longrightarrow> opt_requested PO_WINDOWSIZE w \<and> opt_value PO_WINDOWSIZE w' = ucast (wndsize w')
          \<and> ucast (wndsize w') \<le> opt_value PO_WINDOWSIZE w)
     \<and> (\<not> acked PO_WINDOWSIZE w' \<longrightarrow> wndsize w' = 1)
     \<and> (wndsize w' = 1 \<or> unat (wndsize w') * unat (segsize w') \<le> unat (max_windowbytes dopt))"

definition timers_ok :: "'a xfer_world_scheme \<Rightarrow> bool" where
  "timers_ok w \<longleftrightarrow>
     MIN_TIMEOUT \<le> rexmtval w \<and> rexmtval w \<le> MAX_TIMEOUT
     \<and> maxtimeout w = rexmtval w * TIMEOUT_LIMIT \<and> timeout w = rexmtval w"

lemma requested_uint_Some:
  "requested_uint i w = Some v \<longleftrightarrow> opt_requested i w \<and> opt_value i w = v"
  "requested_uint i w = None \<longleftrightarrow> \<not> opt_requested i w"
  by (auto simp: requested_uint_def)

lemma negotiate_blksize_settles:
  assumes "of_nat MIN_SEGSIZE \<le> max_blksize" "max_blksize \<le> of_nat MAX_SEGSIZE"
    and "\<not> acked PO_BLKSIZE w" "\<not> acked PO_BLKSIZE2 w"
  shows "blksize_settled w (negotiate_blksize max_blksize w)"
proof -
  obtain b a1 a2 where c:
    "choose_blksize max_blksize (requested_uint PO_BLKSIZE w) (requested_uint PO_BLKSIZE2 w) = (b, a1, a2)"
    by (cases "choose_blksize max_blksize (requested_uint PO_BLKSIZE w) (requested_uint PO_BLKSIZE2 w)") auto
  note C = choose_blksize [OF assms(1) c]
  have seg: "segsize (negotiate_blksize max_blksize w) = b" by (simp add: negotiate_blksize_def c Let_def)
  have a1: "acked PO_BLKSIZE (negotiate_blksize max_blksize w) \<longleftrightarrow> a1"
    "a1 \<Longrightarrow> opt_value PO_BLKSIZE (negotiate_blksize max_blksize w) = ucast b"
    and a2: "acked PO_BLKSIZE2 (negotiate_blksize max_blksize w) \<longleftrightarrow> a2"
    "a2 \<Longrightarrow> opt_value PO_BLKSIZE2 (negotiate_blksize max_blksize w) = ucast b"
    using assms(3,4) by (auto simp: negotiate_blksize_def c Let_def)
  have "b \<le> of_nat MAX_SEGSIZE"
  proof (cases "a1 \<or> a2")
    case True
    then show ?thesis using C(2) assms(2) by (meson order_trans)
  next
    case False
    then show ?thesis using C(3) by (simp add: SEGSIZE_def MAX_SEGSIZE_def)
  qed
  moreover have "b \<noteq> 0" using C(1) by (auto simp: MIN_SEGSIZE_def word_le_nat_alt)
  ultimately show ?thesis
    using C pow2_test [of b] unfolding blksize_settled_def seg a1(1) a2(1)
    by (auto simp: a1(2) a2(2) requested_uint_Some)
qed

lemma negotiate_windowsize_settles:
  assumes "1 \<le> max_windowsize dopt" "segsize w \<noteq> 0" "\<not> acked PO_WINDOWSIZE w"
  shows "window_settled dopt w (negotiate_windowsize dopt w)"
proof (cases "requested_uint PO_WINDOWSIZE w")
  case None
  then show ?thesis using assms by (simp add: window_settled_def negotiate_windowsize_def)
next
  case (Some v)
  define win1 where "win1 = (if ucast (max_windowsize dopt) < v then max_windowsize dopt else ucast v)"
  define win2 where "win2 = (if max_windowbytes dopt < ucast win1 * ucast (segsize w)
      then ucast (max_windowbytes dopt div ucast (segsize w)) else win1)"
  have mw: "unat (ucast x :: u64) = unat x" for x :: u32 by (rule unat_ucast_wider) simp
  have win1: "win1 \<le> max_windowsize dopt" "unat win1 \<le> unat v"
  proof -
    have "unat (ucast v :: u32) = unat v" if "\<not> ucast (max_windowsize dopt) < v"
      using that mw [of "max_windowsize dopt"] unat_bound [of "max_windowsize dopt"]
      by (simp add: word_less_nat_alt unsigned_ucast_eq take_bit_nat_eq_self)
    then show "win1 \<le> max_windowsize dopt" "unat win1 \<le> unat v"
      using mw [of "max_windowsize dopt"] by (auto simp: win1_def word_less_nat_alt word_le_nat_alt)
  qed
  have prod: "unat (ucast win1 * ucast (segsize w) :: u64) = unat win1 * unat (segsize w)"
  proof -
    have "unat win1 * unat (segsize w) \<le> (2 ^ 32 - 1) * (2 ^ 32 - 1)"
      using unat_bound [of win1] unat_bound [of "segsize w"] by (intro mult_le_mono) simp_all
    then show ?thesis by (simp add: unat_word_ariths mw)
  qed
  have win2: "unat win2 \<le> unat win1 \<and> unat win2 * unat (segsize w) \<le> unat (max_windowbytes dopt)"
  proof (cases "max_windowbytes dopt < ucast win1 * ucast (segsize w)")
    case True
    have q: "unat (max_windowbytes dopt div ucast (segsize w)) = unat (max_windowbytes dopt) div unat (segsize w)"
      by (simp add: unat_div_distrib mw)
    have "unat (max_windowbytes dopt) < unat win1 * unat (segsize w)" using True prod by (simp add: word_less_nat_alt)
    then have le: "unat (max_windowbytes dopt) div unat (segsize w) < unat win1"
      using assms(2) by (simp add: less_mult_imp_div_less)
    then have "unat (ucast (max_windowbytes dopt div ucast (segsize w)) :: u32) = unat (max_windowbytes dopt) div unat (segsize w)"
      using unat_bound [of win1] q by (simp add: unsigned_ucast_eq take_bit_nat_eq_self)
    then show ?thesis using True le by (simp add: win2_def div_times_less_eq_dividend)
  next
    case False
    then show ?thesis using prod by (simp add: win2_def word_less_nat_alt)
  qed
  have eq: "negotiate_windowsize dopt w =
     (if \<not> 1 < v then w\<lparr>wndsize := 1\<rparr>
      else if 1 < win2 then (grant_value PO_WINDOWSIZE (ucast win2) w)\<lparr>wndsize := win2\<rparr> else w\<lparr>wndsize := 1\<rparr>)"
    by (simp add: negotiate_windowsize_def Some win1_def [symmetric] win2_def [symmetric])
  have "win2 \<le> max_windowsize dopt" "ucast win2 \<le> v"
    using win1 win2 mw [of win2] by (auto simp: word_le_nat_alt)
  then show ?thesis
    using assms win2 Some unfolding window_settled_def eq by (auto simp: requested_uint_Some less_imp_le)
qed

lemma seconds_in_range:
  assumes "\<not> v < MIN_TIMEOUT_SEC" "\<not> MAX_TIMEOUT_SEC < v"
  shows "MIN_TIMEOUT \<le> v * USEC_PER_SEC" "v * USEC_PER_SEC \<le> MAX_TIMEOUT" "v * USEC_PER_SEC \<noteq> 0"
proof -
  have v: "1 \<le> unat v" "unat v \<le> 255"
    using assms by (simp_all add: MIN_TIMEOUT_SEC_def MAX_TIMEOUT_SEC_def word_less_nat_alt not_less)
  then have "unat (v * USEC_PER_SEC) = unat v * 1000000"
    by (simp add: USEC_PER_SEC_def unat_word_ariths)
  then show "MIN_TIMEOUT \<le> v * USEC_PER_SEC" "v * USEC_PER_SEC \<le> MAX_TIMEOUT" "v * USEC_PER_SEC \<noteq> 0"
    using v by (auto simp: word_le_nat_alt MIN_TIMEOUT_def MAX_TIMEOUT_def USEC_PER_SEC_def simp flip: unat_eq_0)
qed

lemma negotiate_timeout_ok:
  assumes "timers_ok w"
  shows "timers_ok (negotiate_timeout w)"
proof -
  define tos where "tos = (case requested_uint PO_TIMEOUT w of None \<Rightarrow> None
       | Some v \<Rightarrow> if v < MIN_TIMEOUT_SEC \<or> MAX_TIMEOUT_SEC < v then None else Some (v * USEC_PER_SEC))"
  define tou where "tou = (case requested_uint PO_UTIMEOUT w of None \<Rightarrow> None
       | Some v \<Rightarrow> if v < MIN_TIMEOUT \<or> MAX_TIMEOUT < v then None else Some v)"
  define to where "to = (case tou of None \<Rightarrow> (case tos of None \<Rightarrow> 0 | Some t \<Rightarrow> t) | Some t \<Rightarrow> t)"
  have "MIN_TIMEOUT \<le> t \<and> t \<le> MAX_TIMEOUT" if "tos = Some t" for t
    using that seconds_in_range by (auto simp: tos_def split: option.splits if_splits)
  moreover have "MIN_TIMEOUT \<le> t \<and> t \<le> MAX_TIMEOUT" if "tou = Some t" for t
    using that by (auto simp: tou_def not_less split: option.splits if_splits)
  ultimately have "to \<noteq> 0 \<Longrightarrow> MIN_TIMEOUT \<le> to \<and> to \<le> MAX_TIMEOUT"
    by (auto simp: to_def split: option.splits)
  moreover have "rexmtval (negotiate_timeout w) = (if to \<noteq> 0 then to else rexmtval w)"
    "timeout (negotiate_timeout w) = (if to \<noteq> 0 then to else timeout w)"
    "maxtimeout (negotiate_timeout w) = (if to \<noteq> 0 then to * TIMEOUT_LIMIT else maxtimeout w)"
    unfolding negotiate_timeout_def Let_def tos_def [symmetric] tou_def [symmetric] to_def [symmetric] by simp_all
  ultimately show ?thesis using assms by (auto simp: timers_ok_def)
qed

lemma negotiate_rollover_ok:
  assumes "\<not> acked PO_ROLLOVER w"
  shows "rollover_val (negotiate_rollover w) \<le> 1"
    and "\<not> acked PO_ROLLOVER (negotiate_rollover w) \<Longrightarrow> rollover_val (negotiate_rollover w) = 0"
proof -
  have "(ucast v :: u16) \<le> 1" if "v \<le> 1" for v :: u64
  proof -
    have "unat v \<le> 1" using that by (simp add: word_le_nat_alt)
    then have "unat (ucast v :: u16) = unat v" by (simp add: unsigned_ucast_eq take_bit_nat_eq_self)
    then show ?thesis using \<open>unat v \<le> 1\<close> by (simp add: word_le_nat_alt)
  qed
  then show "rollover_val (negotiate_rollover w) \<le> 1"
    "\<not> acked PO_ROLLOVER (negotiate_rollover w) \<Longrightarrow> rollover_val (negotiate_rollover w) = 0"
    using assms by (auto simp: negotiate_rollover_def split: option.splits if_splits)
qed

text \<open>A step acknowledges only what was requested and not refused.\<close>

lemma acked_requested:
  "acked i (negotiate_tsize w) \<Longrightarrow> \<not> acked i w \<Longrightarrow> opt_requested i w"
  "acked i (negotiate_timeout w) \<Longrightarrow> \<not> acked i w \<Longrightarrow> opt_requested i w"
  "acked i (negotiate_rollover w) \<Longrightarrow> \<not> acked i w \<Longrightarrow> opt_requested i w"
  "acked i (negotiate_cookie w) \<Longrightarrow> \<not> acked i w \<Longrightarrow> opt_requested i w"
  by (auto simp: negotiate_tsize_def negotiate_timeout_def negotiate_rollover_def negotiate_cookie_def Let_def
      requested_uint_Some split: option.splits tsize_mode.splits if_splits)

subsection \<open>Settling the texts\<close>

definition settled :: "protocol_option_enum \<Rightarrow> daemon_protocol_option \<Rightarrow> daemon_protocol_option" where
  "settled i po =
     (if opt_granted po then
        (case po_otype i of
           POT_UINT \<Rightarrow> po\<lparr>po_str := Some (decimal (unat (po_uint po))),
                         dsize := of_nat (length (decimal (unat (po_uint po))) + 1)\<rparr>
         | POT_STR \<Rightarrow> po)
      else po\<lparr>po_str := None\<rparr>)"

lemma settle_option_entry:
  "protocol_options (settle_option i w) j = (if j = i then settled i (protocol_options w i) else protocol_options w j)"
  by (auto simp: settle_option_def settled_def set_option_def Let_def split: otype.splits)

lemma fold_settle_entry:
  "distinct is \<Longrightarrow> protocol_options (fold settle_option is w) j
     = (if j \<in> set is then settled j (protocol_options w j) else protocol_options w j)"
  by (induction "is" arbitrary: w) (auto simp: settle_option_entry)

lemma all_options_set: "set all_options = UNIV" "distinct all_options"
  by (auto simp: all_options_def intro: protocol_option_enum.exhaust)

lemma settle_options_entry: "protocol_options (settle_options w) j = settled j (protocol_options w j)"
  using fold_settle_entry [OF all_options_set(2)] by (simp add: settle_options_def all_options_set)

lemma settled_simps [simp]:
  "opt_granted (settled i po) = opt_granted po" "pof_ack (settled i po) = pof_ack po"
  "po_uint (settled i po) = po_uint po" "client_name (settled i po) = client_name po"
  by (auto simp: settled_def opt_granted_def split: otype.splits)

lemma settle_option_frame:
  "segsize (settle_option i w) = segsize w" "wndsize (settle_option i w) = wndsize w"
  "rollover_val (settle_option i w) = rollover_val w" "rexmtval (settle_option i w) = rexmtval w"
  "timeout (settle_option i w) = timeout w" "maxtimeout (settle_option i w) = maxtimeout w"
  by (auto simp: settle_option_def set_option_def Let_def split: otype.splits)

lemma settle_options_frame:
  "segsize (settle_options w) = segsize w" "wndsize (settle_options w) = wndsize w"
  "rollover_val (settle_options w) = rollover_val w" "rexmtval (settle_options w) = rexmtval w"
  "timeout (settle_options w) = timeout w" "maxtimeout (settle_options w) = maxtimeout w"
  by (simp_all add: settle_options_def all_options_def settle_option_frame)

lemma snd_build_oack: "snd (build_oack w) = settle_options w"
  by (simp add: build_oack_def Let_def)

subsection \<open>The table invariant\<close>

text \<open>
  A requested option has the client's spelling of its name, which has the length of the
  canonical one, and its text with \<open>dsize\<close> counting the terminator.
\<close>

definition option_ok :: "protocol_option_enum \<Rightarrow> daemon_protocol_option \<Rightarrow> bool" where
  "option_ok i po \<longleftrightarrow>
     (pof_req po \<longrightarrow>
        length (client_name po) = length (po_name i) \<and> NUL \<notin> set (client_name po)
        \<and> (\<exists>s. po_str po = Some s \<and> NUL \<notin> set s \<and> length s + 1 < 2 ^ 16 \<and> dsize po = of_nat (length s + 1)))"

definition table_ok :: "'a daemon_world_scheme \<Rightarrow> bool" where
  "table_ok w \<longleftrightarrow> (\<forall>i. option_ok i (protocol_options w i))"

lemma po_name_short: "NUL \<notin> set (po_name i)" "length (po_name i) < 2 ^ 64 - 1"
  by (cases i; simp)+

lemma matching_name_length:
  assumes "ascii_strcaseeq (po_name i) opt" "NUL \<notin> set opt"
  shows "length opt = length (po_name i)"
proof -
  have "map (ascii_tolower \<circ> uc) (po_name i) = map (ascii_tolower \<circ> uc) opt"
    using assms strncaseeq_iff [OF po_name_short(1) assms(2), of i "- 1"] po_name_short(2) [of i]
    by (simp add: ascii_strcaseeq_def unsigned_minus_1_eq_mask mask_eq_exp_minus_1)
  then show ?thesis by (metis length_map)
qed

lemma store_option_ok:
  assumes "table_ok w" "ascii_strcaseeq (po_name i) opt" "NUL \<notin> set opt" "NUL \<notin> set val" "length val + 1 < 2 ^ 16"
  shows "table_ok (store_option i opt val w)"
  using assms matching_name_length [OF assms(2,3)]
  by (auto simp: table_ok_def option_ok_def store_option_def set_option_def Let_def split: otype.splits option.splits)

lemma parse_option_ok:
  assumes "table_ok w" "NUL \<notin> set opt" "NUL \<notin> set val" "length val + 1 < 2 ^ 16"
  shows "table_ok (parse_option opt val w)"
proof -
  have "table_ok (parse_option_in is opt val w)" for "is"
    using assms by (induction "is") (simp_all add: store_option_ok)
  then show ?thesis using assms(1) by (simp add: parse_option_def)
qed

lemma parse_option_frame:
  "\<not> acked i w \<Longrightarrow> \<not> acked i (parse_option opt val w)"
  "timers_ok (parse_option opt val w) = timers_ok w"
proof -
  have "(\<not> acked i w \<longrightarrow> \<not> acked i (parse_option_in is opt val w)) \<and> timers_ok (parse_option_in is opt val w) = timers_ok w" for "is"
    by (induction "is")
       (auto simp: store_option_def set_option_def timers_ok_def Let_def split: otype.splits option.splits)
  then show "\<not> acked i w \<Longrightarrow> \<not> acked i (parse_option opt val w)" "timers_ok (parse_option opt val w) = timers_ok w"
    by (simp_all add: parse_option_def)
qed

lemma touches_table_ok:
  assumes "touches is w w'" "table_ok w"
    and "\<And>i. pof_req (protocol_options w' i) = pof_req (protocol_options w i)"
  shows "table_ok w'"
  using assms unfolding table_ok_def option_ok_def touches_def by metis

lemma negotiate_keeps_req:
  "pof_req (protocol_options (negotiate_blksize m w) i) = pof_req (protocol_options w i)"
  "pof_req (protocol_options (negotiate_windowsize dopt w) i) = pof_req (protocol_options w i)"
  "pof_req (protocol_options (negotiate_tsize w) i) = pof_req (protocol_options w i)"
  "pof_req (protocol_options (negotiate_timeout w) i) = pof_req (protocol_options w i)"
  "pof_req (protocol_options (negotiate_rollover w) i) = pof_req (protocol_options w i)"
  "pof_req (protocol_options (negotiate_cookie w) i) = pof_req (protocol_options w i)"
  by (auto simp: negotiate_blksize_def negotiate_windowsize_def negotiate_tsize_def negotiate_timeout_def negotiate_rollover_def
      negotiate_cookie_def Let_def split: prod.splits option.splits tsize_mode.splits)

lemma negotiated_table_ok:
  assumes "table_ok w"
  shows "table_ok (negotiate_cookie (negotiate_rollover (negotiate_timeout (negotiate_tsize
          (negotiate_windowsize dopt (negotiate_blksize m w))))))"
  by (intro touches_table_ok [OF touches_cookie] touches_table_ok [OF touches_rollover] touches_table_ok [OF touches_timeout]
      touches_table_ok [OF touches_tsize] touches_table_ok [OF touches_windowsize] touches_table_ok [OF touches_blksize]
      negotiate_keeps_req assms)

text \<open>The text sent for a granted option.\<close>

definition option_text :: "protocol_option_enum \<Rightarrow> daemon_protocol_option \<Rightarrow> string" where
  "option_text i po = (case po_otype i of POT_UINT \<Rightarrow> decimal (unat (po_uint po)) | POT_STR \<Rightarrow> the (po_str po))"

definition granted_options :: "'a daemon_world_scheme \<Rightarrow> protocol_option_enum list" where
  "granted_options w = filter (\<lambda>i. opt_granted (protocol_options w i)) all_options"

lemma decimal_length_bound: "n < 10 ^ k \<Longrightarrow> 0 < k \<Longrightarrow> length (decimal n) \<le> k"
proof (induction n arbitrary: k rule: decimal.induct)
  case (1 n)
  show ?case
  proof (cases "n < 10")
    case True
    then show ?thesis using 1(3) by (subst decimal.simps) simp
  next
    case False
    then obtain j where j: "k = Suc j" "0 < j" using 1(2,3) by (cases k; cases "k - 1") auto
    then have "n div 10 < 10 ^ j" using 1(2) by (simp add: less_mult_imp_div_less mult.commute)
    then show ?thesis using 1(1) [OF False, of j] j False by (subst decimal.simps) simp
  qed
qed

lemma decimal_u64_length: "length (decimal (unat (v :: u64))) \<le> 20"
  using unat_bound [of v] by (intro decimal_length_bound) simp_all

lemma decimal_no_NUL: "NUL \<notin> set (decimal n)"
  using decimal_digits [of n] digit_not_special(4) by (force simp: list_all_iff)

lemma oack_pair_text:
  assumes "option_ok i (protocol_options w i)" "opt_granted (protocol_options w i)"
  shows "oack_pair (settle_options w) i =
      client_name (protocol_options w i) @ [NUL] @ option_text i (protocol_options w i) @ [NUL]"
    and "nsize i + unat (dsize (protocol_options (settle_options w) i)) = length (oack_pair (settle_options w) i)"
    and "0 < nsize i" 
proof -
  define po where "po = protocol_options w i"
  have ok: "option_ok i po" "opt_granted po" using assms by (simp_all add: po_def)
  then obtain s where s: "length (client_name po) = length (po_name i)" "po_str po = Some s" "length s + 1 < 2 ^ 16"
    "dsize po = of_nat (length s + 1)" by (auto simp: option_ok_def opt_granted_def)
  have e: "protocol_options (settle_options w) i = settled i po" by (simp add: settle_options_entry po_def)
  have st: "po_str (settled i po) = Some (option_text i po) \<and> unat (dsize (settled i po)) = length (option_text i po) + 1"
  proof (cases "po_otype i")
    case POT_UINT
    have "unat (of_nat (length (decimal (unat (po_uint po))) + 1) :: u16) = length (decimal (unat (po_uint po))) + 1"
      using decimal_u64_length [of "po_uint po"] by (intro unat_of_nat_small) simp
    then show ?thesis using ok(2) POT_UINT by (simp add: settled_def option_text_def)
  next
    case POT_STR
    have "unat (of_nat (length s + 1) :: u16) = length s + 1" using s(3) by (intro unat_of_nat_small) simp
    then show ?thesis using ok(2) POT_STR s by (simp add: settled_def option_text_def)
  qed
  then have pair: "oack_pair (settle_options w) i = client_name po @ [NUL] @ option_text i po @ [NUL]"
    unfolding oack_pair_def Let_def e by (simp add: c_bytes_def nsize_def s(1) [symmetric])
  then show "oack_pair (settle_options w) i =
      client_name (protocol_options w i) @ [NUL] @ option_text i (protocol_options w i) @ [NUL]" by (simp add: po_def)
  show "nsize i + unat (dsize (protocol_options (settle_options w) i)) = length (oack_pair (settle_options w) i)"
    unfolding pair e using st s(1) by (simp add: nsize_def)
  show "0 < nsize i" by (simp add: nsize_def)
qed

lemma build_oack_text:
  assumes "table_ok w"
  shows "fst (build_oack w) =
    (if granted_options w = [] then None
     else Some (put16 OACK @ concat (map (\<lambda>i. client_name (protocol_options w i) @ [NUL]
            @ option_text i (protocol_options w i) @ [NUL]) (granted_options w))))"
    and "\<And>p. fst (build_oack w) = Some p \<Longrightarrow> length p = oack_bufsize (settle_options w) + 2"
proof -
  define g where "g = granted_options w"
  have g: "filter (\<lambda>i. opt_granted (protocol_options (settle_options w) i)) all_options = g"
    by (simp add: g_def granted_options_def settle_options_entry)
  have pair: "oack_pair (settle_options w) i =
      client_name (protocol_options w i) @ [NUL] @ option_text i (protocol_options w i) @ [NUL]"
    "nsize i + unat (dsize (protocol_options (settle_options w) i)) = length (oack_pair (settle_options w) i)"
    if "i \<in> set g" for i
    using oack_pair_text [of i w] assms that by (auto simp: g_def granted_options_def table_ok_def)
  have size: "oack_bufsize (settle_options w) = sum_list (map (\<lambda>i. length (oack_pair (settle_options w) i)) g)"
    unfolding oack_bufsize_def g using pair(2) by (simp cong: map_cong)
  then have "oack_bufsize (settle_options w) = 0 \<longleftrightarrow> g = []"
    using pair(1) by (cases g) (auto simp: Let_def)
  then show "fst (build_oack w) =
    (if granted_options w = [] then None
     else Some (put16 OACK @ concat (map (\<lambda>i. client_name (protocol_options w i) @ [NUL]
            @ option_text i (protocol_options w i) @ [NUL]) (granted_options w))))"
    using pair(1) unfolding build_oack_def Let_def g g_def [symmetric] by (auto cong: map_cong)
  show "\<And>p. fst (build_oack w) = Some p \<Longrightarrow> length p = oack_bufsize (settle_options w) + 2"
    unfolding build_oack_def Let_def g by (auto simp: size length_concat comp_def split: if_splits)
qed

lemma daemon_start_ok:
  "table_ok (daemon_start w)" "\<not> acked i (daemon_start w)" "timers_ok (daemon_start w) = timers_ok w"
  "protocol_options (daemon_start w) i = option_init" "tsize_mode (daemon_start w) = TSIZE_NAK"
  by (simp_all add: daemon_start_def xfer_world.defs option_init_def table_ok_def option_ok_def timers_ok_def)

lemma negotiated_world:
  assumes "\<not> reject_all_options dopt"
  shows "negotiate_options dopt m w = build_oack (negotiate_cookie (negotiate_rollover (negotiate_timeout (negotiate_tsize
          (negotiate_windowsize dopt (negotiate_blksize m w))))))"
  using assms by (simp add: negotiate_options_def)

lemma negotiation_parameters:
  assumes "\<not> reject_all_options dopt" "of_nat MIN_SEGSIZE \<le> m" "m \<le> of_nat MAX_SEGSIZE" "1 \<le> max_windowsize dopt"
    and "timers_ok w" "\<And>i. \<not> acked i w"
  defines "w' \<equiv> snd (negotiate_options dopt m w)"
  shows "blksize_settled w w'" "window_settled dopt w w'" "timers_ok w'"
    "rollover_val w' \<le> 1" "\<not> acked PO_ROLLOVER w' \<Longrightarrow> rollover_val w' = 0"
    "acked i w' \<Longrightarrow> opt_requested i w"
proof -
  define w1 where "w1 = negotiate_blksize m w"
  define w2 where "w2 = negotiate_windowsize dopt w1"
  define w3 where "w3 = negotiate_tsize w2"
  define w4 where "w4 = negotiate_timeout w3"
  define w5 where "w5 = negotiate_rollover w4"
  define w6 where "w6 = negotiate_cookie w5"
  note T = touches_blksize [of w m, folded w1_def] touches_windowsize [of w1 dopt, folded w2_def]
    touches_tsize [of w2, folded w3_def] touches_timeout [of w3, folded w4_def]
    touches_rollover [of w4, folded w5_def] touches_cookie [of w5, folded w6_def]
  have w': "w' = settle_options w6"
    by (simp add: w'_def negotiated_world [OF assms(1)] snd_build_oack w1_def w2_def w3_def w4_def w5_def w6_def)
  have fin: "acked i w' = acked i w6" "opt_value i w' = opt_value i w6" "segsize w' = segsize w1" "wndsize w' = wndsize w2"
    "rollover_val w' = rollover_val w5" for i
    by (simp_all add: w' settle_options_entry settle_options_frame negotiate_keeps w2_def w3_def w4_def w5_def w6_def)
  have e: "protocol_options w6 PO_BLKSIZE = protocol_options w1 PO_BLKSIZE" "protocol_options w6 PO_BLKSIZE2 = protocol_options w1 PO_BLKSIZE2"
    "protocol_options w6 PO_WINDOWSIZE = protocol_options w2 PO_WINDOWSIZE" "protocol_options w1 PO_WINDOWSIZE = protocol_options w PO_WINDOWSIZE"
    "protocol_options w6 PO_ROLLOVER = protocol_options w5 PO_ROLLOVER" "protocol_options w4 PO_ROLLOVER = protocol_options w PO_ROLLOVER"
    using T by (simp_all add: touches_def)
  have b: "blksize_settled w w1" unfolding w1_def by (rule negotiate_blksize_settles [OF assms(2,3) assms(6) assms(6)])
  then show "blksize_settled w w'" by (simp add: blksize_settled_def fin e)
  have "segsize w1 \<noteq> 0" using b by (auto simp: blksize_settled_def MIN_SEGSIZE_def word_le_nat_alt)
  then have "window_settled dopt w1 w2"
    using negotiate_windowsize_settles [OF assms(4), of w1] assms(6) e by (simp add: w2_def)
  then show "window_settled dopt w w'"
    using T(1) by (simp add: window_settled_def fin e touches_def w2_def negotiate_keeps)
  have "timers_ok w3" using assms(5) by (simp add: timers_ok_def negotiate_keeps_timers w1_def w2_def w3_def)
  then have "timers_ok w4" unfolding w4_def by (rule negotiate_timeout_ok)
  then show "timers_ok w'"
    by (simp add: timers_ok_def w' settle_options_frame negotiate_keeps_timers w5_def w6_def)
  have "\<not> acked PO_ROLLOVER w4" using e assms(6) by simp
  from negotiate_rollover_ok [OF this]
  show "rollover_val w' \<le> 1" "\<not> acked PO_ROLLOVER w' \<Longrightarrow> rollover_val w' = 0" by (simp_all add: fin e w5_def)
  have "opt_requested i w" if "acked i w6"
  proof (rule ccontr)
    assume n: "\<not> opt_requested i w"
    have r: "opt_requested i w1 = opt_requested i w" "opt_requested i w2 = opt_requested i w" "opt_requested i w3 = opt_requested i w"
      "opt_requested i w4 = opt_requested i w" "opt_requested i w5 = opt_requested i w" using T by (simp_all add: touches_def)
    have "\<not> acked i w1" using b n T(1) assms(6) by (cases i) (auto simp: blksize_settled_def touches_def)
    then have "\<not> acked i w2"
      using \<open>window_settled dopt w1 w2\<close> n r T(2) by (cases i) (auto simp: window_settled_def touches_def)
    then have "\<not> acked i w3" using acked_requested(1) [of w2 i] n r by (auto simp: w3_def)
    then have "\<not> acked i w4" using acked_requested(2) [of w3 i] n r by (auto simp: w4_def)
    then have "\<not> acked i w5" using acked_requested(3) [of w4 i] n r by (auto simp: w5_def)
    then show False using acked_requested(4) [of w5 i] n r that by (auto simp: w6_def)
  qed
  then show "acked i w' \<Longrightarrow> opt_requested i w" by (simp add: fin)
qed

lemma example_timers: "timers_ok (world_of s 1000000)"
  by (simp add: timers_ok_def world_of_def MIN_TIMEOUT_def MAX_TIMEOUT_def USEC_PER_SEC_def)

lemma example_request_entry:
  "protocol_options example_request i =
     (if i = PO_WINDOWSIZE then example_option ''windowsize'' ''16'' 16
      else if i = PO_BLKSIZE then example_option ''BLKSIZE'' ''1432'' 1432 else option_init)"
  by (auto simp: example_request_def set_option_def daemon_start_ok)

lemma example_request_ok:
  "table_ok example_request" "\<not> acked i example_request" "timers_ok example_request"
proof -
  show "table_ok example_request" "\<not> acked i example_request"
    by (auto simp: table_ok_def option_ok_def example_request_entry example_option_def option_init_def)
  have "timers_ok (daemon_start (world_of (reader_of False 1 8 ''ab'') 1000000))"
    unfolding daemon_start_ok by (rule example_timers)
  then show "timers_ok example_request" by (simp add: example_request_def timers_ok_def set_option_def)
qed

lemma example_negotiated:
  defines "w \<equiv> negotiate_windowsize example_limits (negotiate_blksize 8192 example_request)"
  shows "granted_options w = [PO_BLKSIZE, PO_WINDOWSIZE]"
    "protocol_options w PO_BLKSIZE = (example_option ''BLKSIZE'' ''1432'' 1432)\<lparr>pof_ack := True\<rparr>"
    "protocol_options w PO_WINDOWSIZE = (example_option ''windowsize'' ''16'' 16)\<lparr>pof_ack := True\<rparr>"
proof -
  have r: "requested_uint PO_BLKSIZE example_request = Some 1432" "requested_uint PO_BLKSIZE2 example_request = None"
    by (simp_all add: requested_uint_def opt_requested_def example_request_entry example_option_def option_init_def)
  have "choose_blksize 8192 (Some 1432) None = (1432, True, False)"
    by (simp add: choose_blksize_def blksize2_offer_def MIN_SEGSIZE_def)
  then have b: "negotiate_blksize 8192 example_request = (grant_value PO_BLKSIZE 1432 example_request)\<lparr>segsize := 1432\<rparr>"
    by (simp add: negotiate_blksize_def r)
  have "requested_uint PO_WINDOWSIZE (negotiate_blksize 8192 example_request) = Some 16"
    by (simp add: requested_uint_def opt_requested_def b example_request_entry example_option_def option_init_def)
  then have w: "w = (grant_value PO_WINDOWSIZE 16 (negotiate_blksize 8192 example_request))\<lparr>wndsize := 16\<rparr>"
    unfolding w_def negotiate_windowsize_def by (simp add: example_limits_def b)
  show "protocol_options w PO_BLKSIZE = (example_option ''BLKSIZE'' ''1432'' 1432)\<lparr>pof_ack := True\<rparr>"
    "protocol_options w PO_WINDOWSIZE = (example_option ''windowsize'' ''16'' 16)\<lparr>pof_ack := True\<rparr>"
    by (simp_all add: w b example_request_entry example_option_def)
  show "granted_options w = [PO_BLKSIZE, PO_WINDOWSIZE]"
    by (simp add: granted_options_def all_options_def opt_granted_def w b example_request_entry example_option_def option_init_def)
qed

lemma decimal_1432: "decimal 1432 = ''1432''" "decimal 16 = ''16''"
  by (simp_all add: decimal.simps digit_char_def char_of_def bit_0)

section \<open>Properties\<close>



text \<open>
  C28: the OACK packet consists of the granted options and nothing else, each with the name
  as the client spelled it and the granted value in decimal, and its length is exactly the
  size that was computed for its buffer.
\<close>

theorem oack_carries_granted:
  assumes "table_ok w"
  shows "fst (build_oack w) =
    (if granted_options w = [] then None
     else Some (put16 OACK @ concat (map (\<lambda>i. client_name (protocol_options w i) @ [NUL]
            @ option_text i (protocol_options w i) @ [NUL]) (granted_options w))))
    \<and> (case fst (build_oack w) of None \<Rightarrow> True | Some p \<Rightarrow> length p = oack_bufsize (settle_options w) + 2)"
proof (intro conjI)
  show "case fst (build_oack w) of None \<Rightarrow> True | Some p \<Rightarrow> length p = oack_bufsize (settle_options w) + 2"
    using build_oack_text(2) [OF assms] by (cases "fst (build_oack w)") simp_all
qed (rule build_oack_text(1) [OF assms])

theorem oack_carries_granted_witness:
  "fst (build_oack (negotiate_windowsize example_limits (negotiate_blksize 8192 example_request)))
     = Some (put16 OACK @ ''BLKSIZE'' @ [NUL] @ ''1432'' @ [NUL] @ ''windowsize'' @ [NUL] @ ''16'' @ [NUL])"
proof -
  define w where "w = negotiate_windowsize example_limits (negotiate_blksize 8192 example_request)"
  have "table_ok w" unfolding w_def
    by (intro touches_table_ok [OF touches_windowsize] touches_table_ok [OF touches_blksize] negotiate_keeps_req example_request_ok)
  with oack_carries_granted [of w] show ?thesis
    using example_negotiated by (simp add: w_def option_text_def decimal_1432 example_option_def)
qed

end
