(* ===== verification/Daemon_Config.thy ===== *)
theory Daemon_Config
  imports Subs Path Transport Negotiate
begin

text \<open>
  The daemon's configuration (\<open>main\<close> of \<open>tftpd/tftpd.c\<close> up to the opening of the
  listening sockets): the effect of every command-line option as \<open>getopt_long\<close> delivers
  it, and the checks made after the last one. The options structure of the daemon and the
  one it shares with the client (\<open>dopt\<close> and \<open>xopt\<close>) are one record. A call of \<open>exit\<close>
  is \<open>Inl\<close> of the exit status.

  The build modelled is one with IPv6, regular expressions and \<open>openat2\<close>. The password
  database, \<open>initgroups\<close>, \<open>stat\<close>, \<open>chdir\<close>, \<open>openat2\<close> and the reading of the map
  file are a parameter; log messages are not part of the result.
\<close>

section \<open>Definitions\<close>

datatype log_type = LOG_SYS | LOG_STDOUT | LOG_STDERR | LOG_FILE

datatype ai_family = AI_UNSPEC | AI_INET | AI_INET6

record daemon_options = daemon_limits +
  ai_fam :: ai_family
  xo_rexmtval :: u64
  readonly :: bool
  cancreate :: bool
  secure :: bool
  jail :: bool
  validate :: bool
  unixperms :: bool
  standalone :: bool
  nodaemon :: bool
  systemd :: bool
  spec_umask :: bool
  log_type :: log_type
  log_tagged :: bool
  max_upload :: u64
  verbosity :: int
  map_steps :: int
  waittime :: int
  my_umask :: u32
  service :: string
  logfile :: "string option"
  path_prefix :: "string option"
  rewrite_file :: "string option"
  map_test_file :: "string option"
  pidfile :: "string option"
  listen_addrs :: "string list"
  dirs :: "string list list"
  normalize :: normalizations
  user_name :: string
  refused :: "protocol_option_enum set"

definition OFF_T_MAX :: u64 where
  "OFF_T_MAX = 2 ^ 63 - 1"

definition MAX_MAX_WINDOWSIZE :: u64 where
  "MAX_MAX_WINDOWSIZE = 32768"

definition DAEMON_DEFAULT_MAP_STEPS :: int where
  "DAEMON_DEFAULT_MAP_STEPS = 4096"

definition default_options :: daemon_options where
  "default_options =
     \<lparr>portrange_from = 0, portrange_to = 0, blksize = int MAX_SEGSIZE, max_windowsize = ucast MAX_MAX_WINDOWSIZE,
      max_windowbytes = 0, reject_all_options = False,
      ai_fam = AI_UNSPEC, xo_rexmtval = USEC_PER_SEC, readonly = False, cancreate = False, secure = False, jail = False,
      validate = False, unixperms = False, standalone = False, nodaemon = False, systemd = False, spec_umask = False,
      log_type = LOG_SYS, log_tagged = False, max_upload = OFF_T_MAX, verbosity = 0,
      map_steps = DAEMON_DEFAULT_MAP_STEPS, waittime = - 1, my_umask = 0, service = ''tftp'', logfile = None,
      path_prefix = None, rewrite_file = None, map_test_file = None, pidfile = None, listen_addrs = [], dirs = [],
      normalize = NORM_NONE, user_name = ''nobody'', refused = {}\<rparr>"

definition EX_USAGE :: int where "EX_USAGE = 64"
definition EX_DATAERR :: int where "EX_DATAERR = 65"
definition EX_NOINPUT :: int where "EX_NOINPUT = 66"
definition EX_NOUSER :: int where "EX_NOUSER = 67"
definition EX_OSERR :: int where "EX_OSERR = 71"

type_synonym config = "int + daemon_options"

subsection \<open>Arguments\<close>

definition parse_normalize :: "string option \<Rightarrow> int + normalizations" where
  "parse_normalize str =
     (case str of
        None \<Rightarrow> Inr NORM_PATH
      | Some s \<Rightarrow>
          if s \<in> {'''', ''all'', ''path'', ''yes''} then Inr NORM_PATH
          else if s \<in> {''no'', ''none''} then Inr NORM_NONE
          else if s \<in> {''root'', [slash]} then Inr NORM_ROOT
          else Inl EX_USAGE)"

definition parse_logformat :: "string option \<Rightarrow> daemon_options \<Rightarrow> config" where
  "parse_logformat fmt d =
     (case fmt of
        None \<Rightarrow> Inr d
      | Some s \<Rightarrow>
          if s = '''' then Inl EX_USAGE
          else if s \<in> {''tag'', ''tagged''} then Inr (d\<lparr>log_tagged := True\<rparr>)
          else if s = ''human'' then Inr (d\<lparr>log_tagged := False\<rparr>)
          else Inl EX_USAGE)"

text \<open>\<open>sscanf\<close> with \<open>%u:%u\<close>: both numbers, or \<open>None\<close> when fewer than two were converted.\<close>

definition scan_port_range :: "string \<Rightarrow> (u32 \<times> u32) option" where
  "scan_port_range s =
     (case strtoumax s of
        None \<Rightarrow> None
      | Some (a, r, _) \<Rightarrow>
          if deref r \<noteq> CHR '':'' then None
          else (case strtoumax (tl r) of None \<Rightarrow> None | Some (b, _, _) \<Rightarrow> Some (ucast a, ucast b)))"

fun oct_value :: "nat \<Rightarrow> string \<Rightarrow> nat" where
  "oct_value a [] = a"
| "oct_value a (c # s) = oct_value (8 * a + unat (ascii_digitval c)) s"

text \<open>\<open>strtoul\<close> in base 8 of a whole argument.\<close>

definition parse_umask :: "string \<Rightarrow> u32 option" where
  "parse_umask s =
     (let s1 = dropWhile c_isspace s;
          neg = (deref s1 = CHR ''-'');
          s2 = (if deref s1 = CHR ''-'' \<or> deref s1 = CHR ''+'' then tl s1 else s1);
          ds = takeWhile (\<lambda>c. ascii_digitval c < 8) s2;
          v = oct_value 0 ds
      in if ds = [] \<or> dropWhile (\<lambda>c. ascii_digitval c < 8) s2 \<noteq> [] \<or> 2 ^ 64 \<le> v then None
         else Some (if neg then - of_nat v else of_nat v))"

subsection \<open>One option\<close>

datatype daemon_opt =
  Opt_4 | Opt_6 | Opt_c | Opt_s | Opt_j | Opt_p | Opt_l | Opt_L | Opt_a | Opt_t | Opt_S | Opt_B | Opt_W
  | OPT_WINDOW_BYTES | Opt_T | Opt_R | Opt_u | Opt_U | Opt_r | OPT_REJECT_ALL | Opt_m | OPT_MAP_STEPS | OPT_MAP_TEST
  | Opt_v | OPT_VERBOSITY | OPT_SYSLOG | OPT_STDERR | OPT_STDOUT | OPT_LOGFORMAT | OPT_LOGFILE | OPT_SYSTEMD
  | OPT_PATH_PREFIX | Opt_V | Opt_P | OPT_NORMALIZE | OPT_VALIDATE | OPT_READONLY | OPT_MAX_UPLOAD | Opt_unknown

definition with_number :: "string option \<Rightarrow> u64 \<Rightarrow> u64 \<Rightarrow> (u64 \<Rightarrow> daemon_options) \<Rightarrow> config" where
  "with_number optarg lo hi f =
     (let v = parse_uint optarg lo hi in if v = BAD_NUM then Inl EX_USAGE else Inr (f v))"

definition set_port_range :: "string \<Rightarrow> daemon_options \<Rightarrow> config" where
  "set_port_range optarg d =
     (case scan_port_range optarg of
        None \<Rightarrow> Inl EX_USAGE
      | Some (a, b) \<Rightarrow>
          if a = 0 \<or> b < a \<or> 65535 \<le> b then Inl EX_USAGE
          else Inr (d\<lparr>portrange_from := a, portrange_to := b\<rparr>))"

definition refuse_option :: "string \<Rightarrow> daemon_options \<Rightarrow> config" where
  "refuse_option optarg d =
     (case find (\<lambda>i. ascii_strcaseeq optarg (po_name i)) all_options of
        None \<Rightarrow> Inl EX_USAGE
      | Some i \<Rightarrow> Inr (d\<lparr>refused := insert i (refused d)\<rparr>))"

text \<open>The options that take no number, address or limit.\<close>

definition plain_option :: "daemon_opt \<Rightarrow> string option \<Rightarrow> daemon_options \<Rightarrow> config" where
  "plain_option c optarg d =
     (case c of
        Opt_4 \<Rightarrow> Inr (d\<lparr>ai_fam := AI_INET\<rparr>)
      | Opt_6 \<Rightarrow> Inr (d\<lparr>ai_fam := AI_INET6\<rparr>)
      | Opt_c \<Rightarrow> Inr (d\<lparr>cancreate := True\<rparr>)
      | Opt_s \<Rightarrow> Inr (d\<lparr>secure := True\<rparr>)
      | Opt_j \<Rightarrow> Inr (d\<lparr>jail := True\<rparr>)
      | Opt_p \<Rightarrow> Inr (d\<lparr>unixperms := True\<rparr>)
      | Opt_l \<Rightarrow> Inr (d\<lparr>standalone := True\<rparr>)
      | Opt_L \<Rightarrow> Inr (d\<lparr>standalone := True, nodaemon := True\<rparr>)
      | Opt_v \<Rightarrow> Inr (d\<lparr>verbosity := verbosity d + 1\<rparr>)
      | OPT_SYSLOG \<Rightarrow> Inr (d\<lparr>log_type := LOG_SYS\<rparr>)
      | OPT_STDERR \<Rightarrow> parse_logformat optarg (d\<lparr>log_type := LOG_STDERR\<rparr>)
      | OPT_STDOUT \<Rightarrow> parse_logformat optarg (d\<lparr>log_type := LOG_STDOUT\<rparr>)
      | OPT_LOGFORMAT \<Rightarrow> parse_logformat optarg d
      | OPT_LOGFILE \<Rightarrow>
          (if the optarg = '''' then Inl EX_USAGE else Inr (d\<lparr>log_type := LOG_FILE, logfile := optarg\<rparr>))
      | OPT_SYSTEMD \<Rightarrow> Inr (d\<lparr>nodaemon := True, systemd := True\<rparr>)
      | OPT_PATH_PREFIX \<Rightarrow> Inr (d\<lparr>path_prefix := (if the optarg \<noteq> '''' then optarg else None)\<rparr>)
      | Opt_V \<Rightarrow> Inl 0
      | Opt_P \<Rightarrow> Inr (d\<lparr>pidfile := optarg\<rparr>)
      | OPT_NORMALIZE \<Rightarrow> (case parse_normalize optarg of Inl e \<Rightarrow> Inl e | Inr n \<Rightarrow> Inr (d\<lparr>normalize := n\<rparr>))
      | OPT_VALIDATE \<Rightarrow> Inr (d\<lparr>validate := True\<rparr>)
      | OPT_READONLY \<Rightarrow> Inr (d\<lparr>readonly := True\<rparr>)
      | _ \<Rightarrow> Inr d)"

definition daemon_option :: "daemon_opt \<Rightarrow> string option \<Rightarrow> daemon_options \<Rightarrow> config" where
  "daemon_option c optarg d =
     (case c of
        Opt_a \<Rightarrow> Inr (d\<lparr>standalone := True, listen_addrs := listen_addrs d @ [the optarg]\<rparr>)
      | Opt_t \<Rightarrow>
          (let v = parse_uint optarg 0 (OFF_T_MAX div USEC_PER_SEC)
           in Inr (if v \<noteq> BAD_NUM then d\<lparr>waittime := uint v * 1000000\<rparr> else d))
      | Opt_S \<Rightarrow>
          (case optarg of None \<Rightarrow> Inl EX_USAGE | Some s \<Rightarrow> if s = '''' then Inl EX_USAGE else Inr (d\<lparr>service := s\<rparr>))
      | Opt_B \<Rightarrow>
          (case parse_blocksize_arg (the optarg) (of_nat SEGSIZE) d of
             (ok, d') \<Rightarrow> if ok then Inr d' else Inl EX_USAGE)
      | Opt_W \<Rightarrow> with_number optarg 0 MAX_MAX_WINDOWSIZE (\<lambda>v. d\<lparr>max_windowsize := (if v = 0 then 1 else ucast v)\<rparr>)
      | OPT_WINDOW_BYTES \<Rightarrow> with_number optarg 0 OFF_T_MAX (\<lambda>v. d\<lparr>max_windowbytes := v\<rparr>)
      | Opt_T \<Rightarrow> with_number optarg MIN_TIMEOUT MAX_TIMEOUT (\<lambda>v. d\<lparr>xo_rexmtval := v\<rparr>)
      | Opt_R \<Rightarrow> set_port_range (the optarg) d
      | Opt_u \<Rightarrow> Inr (d\<lparr>user_name := the optarg\<rparr>)
      | Opt_U \<Rightarrow>
          (case parse_umask (the optarg) of
             None \<Rightarrow> Inl EX_USAGE | Some v \<Rightarrow> Inr (d\<lparr>my_umask := v, spec_umask := True\<rparr>))
      | Opt_r \<Rightarrow> refuse_option (the optarg) d
      | OPT_REJECT_ALL \<Rightarrow> Inr (d\<lparr>reject_all_options := True\<rparr>)
      | Opt_m \<Rightarrow> (if rewrite_file d \<noteq> None then Inl EX_USAGE else Inr (d\<lparr>rewrite_file := optarg\<rparr>))
      | OPT_MAP_STEPS \<Rightarrow> with_number optarg 1 (of_int INT_MAX) (\<lambda>v. d\<lparr>map_steps := uint v\<rparr>)
      | OPT_MAP_TEST \<Rightarrow> Inr (d\<lparr>map_test_file := optarg, log_type := LOG_STDERR, log_tagged := False\<rparr>)
      | OPT_VERBOSITY \<Rightarrow> Inr (d\<lparr>verbosity := sint (ucast (parse_uint optarg 0 (of_int INT_MAX)) :: u32)\<rparr>)
      | OPT_MAX_UPLOAD \<Rightarrow> with_number optarg 0 OFF_T_MAX (\<lambda>v. d\<lparr>max_upload := v\<rparr>)
      | _ \<Rightarrow> plain_option c optarg d)"

fun daemon_getopt :: "(daemon_opt \<times> string option) list \<Rightarrow> daemon_options \<Rightarrow> config" where
  "daemon_getopt [] d = Inr d"
| "daemon_getopt ((c, optarg) # os) d =
     (case daemon_option c optarg d of Inl e \<Rightarrow> Inl e | Inr d' \<Rightarrow> daemon_getopt os d')"

subsection \<open>After the last option\<close>

record daemon_os =
  os_rules_readable :: "string \<Rightarrow> bool"
  os_map_test_readable :: "string \<Rightarrow> bool"
  os_is_directory :: "string \<Rightarrow> bool"
  os_getpwnam :: "string \<Rightarrow> bool"
  os_initgroups_fails :: "string \<Rightarrow> bool"
  os_chdir :: "string \<Rightarrow> bool"
  os_openat2_jail :: "string \<Rightarrow> int"

definition ENOSYS :: int where "ENOSYS = 38"

definition derive_options :: "daemon_options \<Rightarrow> daemon_options" where
  "derive_options d =
     d\<lparr>validate := (validate d \<or> (\<not> secure d \<and> \<not> jail d)), readonly := (readonly d \<or> max_upload d = 0)\<rparr>"

text \<open>The directory arguments: whether one of them is bad, and their component lists.\<close>

fun parse_dirs :: "daemon_options \<Rightarrow> string list \<Rightarrow> bool \<times> string list list" where
  "parse_dirs d [] = (False, [])"
| "parse_dirs d (path # args) =
     (case parse_dirs d args of (patherr, ds) \<Rightarrow>
        (case parse_path path (validate d) of
           Dirs pathlist \<Rightarrow> (patherr \<or> (pathlist = [] \<and> path_prefix d = None), pathlist # ds)
         | _ \<Rightarrow> (True, [] # ds)))"

definition check_roots :: "daemon_os \<Rightarrow> daemon_options \<Rightarrow> int option" where
  "check_roots os d =
     (if secure d \<and> jail d then Some EX_USAGE
      else if secure d \<or> jail d then
        (if length (dirs d) \<noteq> 1 then Some EX_USAGE
         else
           let securepath = build_path (path_prefix d) (hd (dirs d)) in
           if secure d then (if os_chdir os securepath then None else Some EX_NOINPUT)
           else if os_openat2_jail os securepath = 0 then None
           else if os_openat2_jail os securepath = ENOSYS \<or> os_openat2_jail os securepath = EINVAL then Some EX_OSERR
           else Some EX_NOINPUT)
      else None)"

definition finish_options :: "daemon_options \<Rightarrow> daemon_options" where
  "finish_options d =
     d\<lparr>pidfile := (if standalone d then pidfile d else None),
       waittime := (if waittime d \<le> 0 then (if waittime d = 0 \<or> standalone d then - 1 else 900 * 1000000) else waittime d)\<rparr>"

definition daemon_configure ::
  "daemon_os \<Rightarrow> (daemon_opt \<times> string option) list \<Rightarrow> string list \<Rightarrow> config" where
  "daemon_configure os opts args =
     (case daemon_getopt opts default_options of Inl e \<Rightarrow> Inl e | Inr d0 \<Rightarrow>
        let d1 = derive_options d0 in
        if rewrite_file d1 \<noteq> None \<and> \<not> os_rules_readable os (the (rewrite_file d1)) then Inl EX_NOINPUT
        else if map_test_file d1 \<noteq> None then
          Inl (if os_map_test_readable os (the (map_test_file d1)) then 0 else EX_NOINPUT)
        else if path_prefix d1 \<noteq> None \<and> \<not> os_is_directory os (the (path_prefix d1)) then Inl EX_DATAERR
        else if \<not> os_getpwnam os (user_name d1) then Inl EX_NOUSER
        else if os_initgroups_fails os (user_name d1) then Inl EX_OSERR
        else
          (case parse_dirs d1 args of (patherr, ds) \<Rightarrow>
             let d2 = d1\<lparr>dirs := ds\<rparr> in
             if patherr then Inl EX_DATAERR
             else if ds = [] then Inl EX_USAGE
             else (case check_roots os d2 of Some e \<Rightarrow> Inl e | None \<Rightarrow> Inr (finish_options d2))))"

text \<open>The option table and the timers that a request starts from.\<close>

definition daemon_ready :: "daemon_options \<Rightarrow> 'a daemon_world_scheme \<Rightarrow> 'a daemon_world_scheme" where
  "daemon_ready d w =
     w\<lparr>protocol_options := (\<lambda>i. option_init\<lparr>pof_refuse := (i \<in> refused d)\<rparr>),
       rexmtval := xo_rexmtval d, timeout := xo_rexmtval d, maxtimeout := xo_rexmtval d * TIMEOUT_LIMIT\<rparr>"

definition example_os :: daemon_os where
  "example_os = \<lparr>os_rules_readable = \<lambda>_. True, os_map_test_readable = \<lambda>_. True, os_is_directory = \<lambda>_. True,
     os_getpwnam = \<lambda>_. True, os_initgroups_fails = \<lambda>_. False, os_chdir = \<lambda>_. True, os_openat2_jail = \<lambda>_. 0\<rparr>"

section \<open>Lemmas\<close>

text \<open>What every sequence of options keeps.\<close>

definition options_ok :: "daemon_options \<Rightarrow> bool" where
  "options_ok d \<longleftrightarrow>
     (portrange_from d = 0 \<or> (portrange_from d \<le> portrange_to d \<and> portrange_to d < 65535))
     \<and> 1 \<le> max_windowsize d \<and> max_windowsize d \<le> 32768
     \<and> blksize d \<le> int MAX_SEGSIZE \<and> - (INT_MAX div 2) \<le> blksize d \<and> (0 < blksize d \<longrightarrow> int SEGSIZE \<le> blksize d)
     \<and> MIN_TIMEOUT \<le> xo_rexmtval d \<and> xo_rexmtval d \<le> MAX_TIMEOUT
     \<and> 1 \<le> map_steps d \<and> - 1 \<le> waittime d \<and> dirs d = []"

text \<open>What the rest of the daemon relies on.\<close>

definition config_ok :: "daemon_options \<Rightarrow> bool" where
  "config_ok d \<longleftrightarrow>
     (validate d \<or> secure d \<or> jail d) \<and> \<not> (secure d \<and> jail d)
     \<and> dirs d \<noteq> [] \<and> (secure d \<or> jail d \<longrightarrow> length (dirs d) = 1)
     \<and> (\<forall>ds \<in> set (dirs d). list_all plain_component ds \<and> (ds = [] \<longrightarrow> path_prefix d \<noteq> None))
     \<and> (max_upload d = 0 \<longrightarrow> readonly d)
     \<and> (waittime d = - 1 \<or> 0 < waittime d) \<and> (pidfile d = None \<or> standalone d)
     \<and> options_ok (d\<lparr>dirs := []\<rparr>)"

lemma default_options_ok: "options_ok default_options"
  by (simp add: options_ok_def default_options_def MAX_MAX_WINDOWSIZE_def MAX_SEGSIZE_def SEGSIZE_def INT_MAX_def
      DAEMON_DEFAULT_MAP_STEPS_def MIN_TIMEOUT_def MAX_TIMEOUT_def USEC_PER_SEC_def)

lemma with_number_Inr:
  assumes "with_number optarg lo hi f = Inr d'"
  obtains v where "lo \<le> v" "v \<le> hi" "d' = f v"
  using assms parse_uint_range [of optarg lo hi] that
  by (auto simp: with_number_def Let_def split: if_splits)

lemma parse_logformat_Inr:
  "parse_logformat fmt d = Inr d' \<Longrightarrow> \<exists>b. d' = d\<lparr>log_tagged := b\<rparr>"
  by (auto simp: parse_logformat_def split: option.splits if_splits intro: exI [of _ "log_tagged d"])

definition options_core where
  "options_core d = (portrange_from d, portrange_to d, max_windowsize d, blksize d, xo_rexmtval d, map_steps d, waittime d, dirs d)"

lemma options_ok_core: "options_core d' = options_core d \<Longrightarrow> options_ok d' = options_ok d"
  by (simp add: options_core_def options_ok_def)

lemma plain_option_core: "plain_option c optarg d = Inr d' \<Longrightarrow> options_core d' = options_core d"
  unfolding options_core_def
  by (cases c; clarsimp simp: plain_option_def dest!: parse_logformat_Inr split: sum.splits if_splits)

lemma plain_option_ok: "options_ok d \<Longrightarrow> plain_option c optarg d = Inr d' \<Longrightarrow> options_ok d'"
  using options_ok_core plain_option_core by blast

lemma set_port_range_ok: "options_ok d \<Longrightarrow> set_port_range s d = Inr d' \<Longrightarrow> options_ok d'"
  by (auto simp: set_port_range_def options_ok_def not_less not_le split: option.splits prod.splits if_splits)

lemma refuse_option_ok: "options_ok d \<Longrightarrow> refuse_option s d = Inr d' \<Longrightarrow> options_ok d'"
  by (auto simp: refuse_option_def options_ok_def split: option.splits)

lemma options_ok_blksize:
  "options_ok d \<Longrightarrow> b \<le> int MAX_SEGSIZE \<Longrightarrow> - (INT_MAX div 2) \<le> b \<Longrightarrow> 0 < b \<longrightarrow> int SEGSIZE \<le> b \<Longrightarrow> options_ok (d\<lparr>blksize := b\<rparr>)"
  by (simp add: options_ok_def)

lemma blocksize_arg_ok:
  assumes "options_ok d" "parse_blocksize_arg s (of_nat SEGSIZE) d = (True, d')"
  shows "options_ok d'"
proof -
  have "uint (of_nat SEGSIZE :: u64) = int SEGSIZE" by (simp add: SEGSIZE_def)
  then obtain b where "d' = d\<lparr>blksize := b\<rparr>" "- (INT_MAX div 2) \<le> b" "b \<le> int MAX_SEGSIZE" "0 < b \<longrightarrow> int SEGSIZE \<le> b"
    using parse_blocksize_arg_range [OF assms(2)] by (fastforce simp: INT_MAX_def MAX_SEGSIZE_def SEGSIZE_def)
  with assms(1) show ?thesis by (simp add: options_ok_blksize)
qed

lemma daemon_option_ok:
  assumes "options_ok d" "daemon_option c optarg d = Inr d'"
  shows "options_ok d'"
proof -
  have keep: "options_core d'' = options_core d \<Longrightarrow> options_ok d''" for d''
    using options_ok_core assms(1) by blast
  show ?thesis
  proof (cases c)
    case Opt_a
    then show ?thesis using assms(2) by (intro keep) (auto simp: daemon_option_def options_core_def)
  next
    case Opt_t
    then have "d' = d \<or> (\<exists>v :: u64. d' = d\<lparr>waittime := uint v * 1000000\<rparr>)"
      using assms(2) by (auto simp: daemon_option_def Let_def split: if_splits)
    moreover have "options_ok (d\<lparr>waittime := uint v * 1000000\<rparr>)" for v :: u64
    proof -
      have "- 1 \<le> uint v * 1000000" by (rule order_trans [of _ 0]) simp_all
      then show ?thesis using assms(1) by (simp add: options_ok_def)
    qed
    ultimately show ?thesis using assms(1) by auto
  next
    case Opt_S
    then show ?thesis
      using assms(2) by (intro keep) (auto simp: daemon_option_def options_core_def split: option.splits if_splits)
  next
    case Opt_B
    then show ?thesis
      using assms blocksize_arg_ok by (auto simp: daemon_option_def split: prod.splits if_splits)
  next
    case Opt_W
    then obtain v where "v \<le> MAX_MAX_WINDOWSIZE" "d' = d\<lparr>max_windowsize := (if v = 0 then 1 else ucast v)\<rparr>"
      using assms(2) by (auto simp: daemon_option_def elim: with_number_Inr)
    moreover from this have "unat (ucast v :: u32) = unat v" "unat v \<le> 32768"
      by (simp_all add: MAX_MAX_WINDOWSIZE_def word_le_nat_alt unsigned_ucast_eq take_bit_nat_eq_self)
    then have "1 \<le> (if v = 0 then 1 else ucast v :: u32)" "(if v = 0 then 1 else ucast v :: u32) \<le> 32768"
      by (auto simp: word_le_nat_alt Suc_le_eq unat_gt_0 unat_eq_0)
    ultimately show ?thesis using assms(1) by (simp add: options_ok_def)
  next
    case OPT_WINDOW_BYTES
    then show ?thesis
      using assms(2) by (intro keep) (auto simp: daemon_option_def options_core_def elim: with_number_Inr)
  next
    case Opt_T
    then obtain v where "MIN_TIMEOUT \<le> v" "v \<le> MAX_TIMEOUT" "d' = d\<lparr>xo_rexmtval := v\<rparr>"
      using assms(2) by (auto simp: daemon_option_def elim: with_number_Inr)
    then show ?thesis using assms(1) by (simp add: options_ok_def)
  next
    case Opt_R
    then show ?thesis using assms set_port_range_ok by (auto simp: daemon_option_def)
  next
    case Opt_r
    then show ?thesis using assms refuse_option_ok by (auto simp: daemon_option_def)
  next
    case OPT_MAP_STEPS
    then have "with_number optarg 1 (of_int INT_MAX) (\<lambda>v. d\<lparr>map_steps := uint v\<rparr>) = Inr d'"
      using assms(2) by (simp add: daemon_option_def)
    then obtain v :: u64 where "1 \<le> v" "v \<le> of_int INT_MAX" "d' = d\<lparr>map_steps := uint v\<rparr>" by (rule with_number_Inr)
    then show ?thesis using assms(1) by (simp add: options_ok_def word_le_def)
  next
    case OPT_MAX_UPLOAD
    then show ?thesis
      using assms(2) by (intro keep) (auto simp: daemon_option_def options_core_def elim: with_number_Inr)
  qed (use assms plain_option_ok in \<open>auto simp: daemon_option_def options_core_def split: option.splits if_splits intro: keep\<close>)
qed

lemma daemon_getopt_ok:
  "options_ok d \<Longrightarrow> daemon_getopt os d = Inr d' \<Longrightarrow> options_ok d'"
  by (induction os d rule: daemon_getopt.induct) (auto dest: daemon_option_ok split: sum.splits)

lemma parse_dirs_ok:
  assumes "parse_dirs d args = (False, ds)" "pl \<in> set ds"
  shows "list_all plain_component pl \<and> (pl = [] \<longrightarrow> path_prefix d \<noteq> None)"
  using assms
proof (induction args arbitrary: ds)
  case (Cons path args)
  obtain e ds' where rest: "parse_dirs d args = (e, ds')" by (cases "parse_dirs d args") auto
  with Cons.prems(1) obtain p where "parse_path path (validate d) = Dirs p" "ds = p # ds'" "\<not> e" "p = [] \<longrightarrow> path_prefix d \<noteq> None"
    by (auto split: path_result.splits)
  then show ?case using Cons.IH [of ds'] rest Cons.prems(2) parse_path_plain by (auto simp: list_all_iff)
qed simp

lemma check_roots_None:
  "check_roots os d = None \<Longrightarrow> \<not> (secure d \<and> jail d) \<and> (secure d \<or> jail d \<longrightarrow> length (dirs d) = 1)"
  by (auto simp: check_roots_def split: if_splits)

lemma derive_core: "options_core (derive_options d) = options_core d"
  by (simp add: options_core_def derive_options_def)

lemma options_ok_dirs: "options_ok d \<Longrightarrow> options_ok (d\<lparr>dirs := []\<rparr>)"
  by (simp add: options_ok_def)

lemma finish_options_ok:
  assumes "options_ok (d\<lparr>dirs := []\<rparr>)" "validate d \<or> secure d \<or> jail d" "\<not> (secure d \<and> jail d)" "dirs d \<noteq> []"
    and "secure d \<or> jail d \<longrightarrow> length (dirs d) = 1"
    and "\<forall>ds \<in> set (dirs d). list_all plain_component ds \<and> (ds = [] \<longrightarrow> path_prefix d \<noteq> None)"
    and "max_upload d = 0 \<longrightarrow> readonly d"
  shows "config_ok (finish_options d)"
proof -
  have "- 1 \<le> waittime d" using assms(1) by (simp add: options_ok_def)
  then have w: "waittime (finish_options d) = - 1 \<or> 0 < waittime (finish_options d)"
    by (simp add: finish_options_def)
  moreover have "options_ok (finish_options d\<lparr>dirs := []\<rparr>)"
    using assms(1) w by (simp add: options_ok_def finish_options_def)
  ultimately show ?thesis using assms unfolding config_ok_def by (simp add: finish_options_def)
qed

lemma scan_1024_2048: "scan_port_range ''1024:2048'' = Some (1024, 2048)"
  by (simp add: scan_port_range_def strtoumax_def Let_def c_isspace_def ascii_isdigit_def ascii_digitval_def uc_def)

lemma parse_srv_tftp: "parse_path ''/srv/tftp'' True = Dirs [''srv'', ''tftp'']"
  by (simp add: parse_path_eq to_result_def path_components_def is_valid_char_def uc_def)

section \<open>Properties\<close>

text \<open>
  C16: a daemon that gets through its option processing has a configuration on which the
  other components can rely: requests are validated unless they are confined by chroot or
  jail, these are exclusive and have one directory, every directory is a list of plain
  components, and port range, window, block size, retransmission time and map steps are
  within their limits.
\<close>

theorem daemon_configure_ok:
  assumes "daemon_configure os opts args = Inr d"
  shows "config_ok d"
proof -
  obtain d0 where d0: "daemon_getopt opts default_options = Inr d0"
    using assms by (auto simp: daemon_configure_def split: sum.splits)
  define d1 where "d1 = derive_options d0"
  obtain e ds where pd: "parse_dirs d1 args = (e, ds)" by (cases "parse_dirs d1 args") auto
  define d2 where "d2 = d1\<lparr>dirs := ds\<rparr>"
  have d: "d = finish_options d2" "\<not> e" "ds \<noteq> []" "check_roots os d2 = None"
    using assms unfolding daemon_configure_def d0 sum.case Let_def d1_def [symmetric] pd prod.case d2_def [symmetric]
    by (auto split: if_splits option.splits)
  have "options_ok d0" using default_options_ok d0 by (rule daemon_getopt_ok)
  then have "options_ok d1" using options_ok_core derive_core d1_def by blast
  then have "options_ok (d2\<lparr>dirs := []\<rparr>)" using options_ok_dirs [of d1] by (simp add: d2_def)
  moreover have "validate d2 \<or> secure d2 \<or> jail d2" "max_upload d2 = 0 \<longrightarrow> readonly d2"
    by (auto simp: d2_def d1_def derive_options_def)
  moreover have "\<forall>ds \<in> set (dirs d2). list_all plain_component ds \<and> (ds = [] \<longrightarrow> path_prefix d2 \<noteq> None)"
    using parse_dirs_ok [of d1 args ds] pd d(2) by (simp add: d2_def)
  moreover have "dirs d2 \<noteq> []" using d(3) by (simp add: d2_def)
  ultimately show ?thesis
    unfolding d(1) using check_roots_None [OF d(4)] by (intro finish_options_ok) blast+
qed

theorem daemon_configure_ok_witness:
  "\<exists>d. daemon_configure example_os [(Opt_l, None), (Opt_c, None), (Opt_R, Some ''1024:2048'')] [''/srv/tftp''] = Inr d
     \<and> config_ok d"
proof -
  define d0 where "d0 = default_options\<lparr>standalone := True, cancreate := True, portrange_from := 1024, portrange_to := 2048\<rparr>"
  have g: "daemon_getopt [(Opt_l, None), (Opt_c, None), (Opt_R, Some ''1024:2048'')] default_options = Inr d0"
    by (simp add: d0_def daemon_option_def plain_option_def set_port_range_def scan_1024_2048)
  define d1 where "d1 = derive_options d0"
  have d1: "rewrite_file d1 = None" "map_test_file d1 = None" "path_prefix d1 = None" "validate d1" "\<not> secure d1" "\<not> jail d1"
    by (simp_all add: d1_def d0_def derive_options_def default_options_def)
  have "daemon_configure example_os [(Opt_l, None), (Opt_c, None), (Opt_R, Some ''1024:2048'')] [''/srv/tftp'']
      = Inr (finish_options (d1\<lparr>dirs := [[''srv'', ''tftp'']]\<rparr>))"
    unfolding daemon_configure_def g sum.case Let_def d1_def [symmetric]
    by (simp add: d1 parse_srv_tftp check_roots_def example_os_def)
  with daemon_configure_ok [of example_os "[(Opt_l, None), (Opt_c, None), (Opt_R, Some ''1024:2048'')]" "[''/srv/tftp'']"]
  show ?thesis by blast
qed

end
