(* ===== verification/Remap.thy ===== *)
theory Remap
  imports Subs Stdio
begin

text \<open>
  The filename remapping engine (\<open>tftpd/remap.c\<close>): the expansion of replacement patterns,
  the reader and parser of the rule file, and the execution of a rule set on a name.

  The regular expression library and the multibyte functions of the C library are
  parameters. \<open>regcomp\<close> compiles or fails; \<open>regexec\<close> gives the return value and the
  offsets of the match and its groups, with \<open>-1\<close> for an unset group. The locale maps the
  bytes of one character to a wide character and its length, changes case, and maps back;
  conversion errors are \<open>None\<close>. The validation callback of a rule with the flag \<open>E\<close>
  opens files, so it passes the world on.

  A pattern that the locale cannot decode makes the expansion loop for ever; the expansion
  is therefore a partial function whose value \<open>None\<close> is non-termination.
\<close>

section \<open>Definitions\<close>

subsection \<open>Rules\<close>

definition RULE_REWRITE :: u32 where "RULE_REWRITE = 0x01"
definition RULE_GLOBAL :: u32 where "RULE_GLOBAL = 0x02"
definition RULE_EXIT :: u32 where "RULE_EXIT = 0x04"
definition RULE_RESTART :: u32 where "RULE_RESTART = 0x08"
definition RULE_ABORT :: u32 where "RULE_ABORT = 0x10"
definition RULE_INVERSE :: u32 where "RULE_INVERSE = 0x20"
definition RULE_IPV4 :: u32 where "RULE_IPV4 = 0x40"
definition RULE_IPV6 :: u32 where "RULE_IPV6 = 0x80"
definition RULE_HASFILE :: u32 where "RULE_HASFILE = 0x100"
definition RULE_RRQ :: u32 where "RULE_RRQ = 0x200"
definition RULE_WRQ :: u32 where "RULE_WRQ = 0x400"
definition RULE_SEDG :: u32 where "RULE_SEDG = 0x800"
definition RULE_JUMP :: u32 where "RULE_JUMP = 0x1000"
definition RULE_LABEL :: u32 where "RULE_LABEL = 0x2000"
definition RULE_NOREGEX :: u32 where "RULE_NOREGEX = 0x4000"

lemmas rule_flag_defs = RULE_REWRITE_def RULE_GLOBAL_def RULE_EXIT_def RULE_RESTART_def RULE_ABORT_def
  RULE_INVERSE_def RULE_IPV4_def RULE_IPV6_def RULE_HASFILE_def RULE_RRQ_def RULE_WRQ_def RULE_SEDG_def
  RULE_JUMP_def RULE_LABEL_def RULE_NOREGEX_def

definition has_flag :: "u32 \<Rightarrow> u32 \<Rightarrow> bool" where
  "has_flag flags f = (flags AND f \<noteq> 0)"

record 'rx rule =
  r_line :: nat
  rule_flags :: u32
  rx :: "'rx option"
  r_pattern :: string

subsection \<open>Character transformation\<close>

datatype xform_func = xform_null | xform_tolower | xform_toupper

record locale_ops =
  mbrtowc :: "string \<Rightarrow> (nat \<times> nat) option"
  towlower :: "nat \<Rightarrow> nat"
  towupper :: "nat \<Rightarrow> nat"
  wcrtomb :: "nat \<Rightarrow> string"

text \<open>\<open>out\<close> is \<open>None\<close> for the pass that only computes the length.\<close>

record xform_state =
  xform :: xform_func
  xout :: "string option"
  xlen :: nat
  xerr :: bool

definition xform_init :: "string option \<Rightarrow> xform_state" where
  "xform_init out = \<lparr>xform = xform_null, xout = out, xlen = 0, xerr = False\<rparr>"

definition apply_xform :: "locale_ops \<Rightarrow> xform_func \<Rightarrow> nat \<Rightarrow> nat" where
  "apply_xform L f wc =
     (case f of xform_null \<Rightarrow> wc | xform_tolower \<Rightarrow> towlower L wc | xform_toupper \<Rightarrow> towupper L wc)"

definition xsmemcpy :: "string \<Rightarrow> xform_state \<Rightarrow> xform_state" where
  "xsmemcpy bytes xs = xs\<lparr>xout := map_option (\<lambda>b. b @ bytes) (xout xs), xlen := xlen xs + length bytes\<rparr>"

text \<open>Returns what is left of the source after \<open>len\<close> bytes, a backslash or a bad character.\<close>

function xform_out :: "locale_ops \<Rightarrow> string \<Rightarrow> nat \<Rightarrow> xform_state \<Rightarrow> string \<times> xform_state" where
  "xform_out L p len xs =
     (if len = 0 \<or> p = [] \<or> hd p = CHR 0x5C then (p, xs)
      else
        (case mbrtowc L (take len p) of
           None \<Rightarrow> (p, xs\<lparr>xerr := True\<rparr>)
         | Some (wc, nb) \<Rightarrow>
             if nb = 0 then (p, xs\<lparr>xerr := True\<rparr>)
             else xform_out L (drop nb p) (len - nb) (xsmemcpy (wcrtomb L (apply_xform L (xform xs) wc)) xs)))"
  by pat_completeness auto
termination
  by (relation "measure (\<lambda>(L, p, len, xs). length p)") auto

subsection \<open>Pattern expansion\<close>

type_synonym pmatch = "nat \<Rightarrow> int \<times> int"

definition clear_pmatch :: pmatch where
  "clear_pmatch = (\<lambda>_. (- 1, - 1))"

definition group_out :: "locale_ops \<Rightarrow> string \<Rightarrow> int \<times> int \<Rightarrow> xform_state \<Rightarrow> xform_state" where
  "group_out L input pm xs =
     (case pm of (so, eo) \<Rightarrow>
        if so \<noteq> - 1 then snd (xform_out L (drop (nat so) input) (nat (eo - so)) xs) else xs)"

text \<open>One round of the loop over the pattern: what is left of it, and the state.\<close>

definition expand_step ::
  "locale_ops \<Rightarrow> (char \<Rightarrow> string option) \<Rightarrow> string \<Rightarrow> pmatch \<Rightarrow> string \<Rightarrow> xform_state \<Rightarrow> string \<times> xform_state" where
  "expand_step L macrosub input pm pattern xs =
     (if hd pattern = CHR 0x5C then
        (let macro = deref (tl pattern); rest = drop 2 pattern in
         if ascii_isdigit macro then (rest, group_out L input (pm (unat (ascii_digitval macro))) xs)
         else if macro = CHR ''L'' then (rest, xs\<lparr>xform := xform_tolower\<rparr>)
         else if macro = CHR ''U'' then (rest, xs\<lparr>xform := xform_toupper\<rparr>)
         else if macro = CHR ''E'' then (rest, xs\<lparr>xform := xform_null\<rparr>)
         else if macro = NUL \<or> macro = CHR 0x5C then (rest, xsmemcpy [CHR 0x5C] xs)
         else
           (case macrosub macro of
              Some macrodata \<Rightarrow> (rest, snd (xform_out L macrodata (length macrodata) xs))
            | None \<Rightarrow> (tl pattern, xs)))
      else xform_out L pattern (length pattern) xs)"

partial_function (option) expand_loop ::
  "locale_ops \<Rightarrow> (char \<Rightarrow> string option) \<Rightarrow> string \<Rightarrow> pmatch \<Rightarrow> string \<Rightarrow> xform_state \<Rightarrow> xform_state option" where
  "expand_loop L macrosub input pm pattern xs =
     (if pattern = [] then Some xs
      else expand_loop L macrosub input pm (fst (expand_step L macrosub input pm pattern xs))
             (snd (expand_step L macrosub input pm pattern xs)))"

text \<open>
  The start is \<open>None\<close> for \<open>MATCHONLY\<close>. The result has the output, the length or \<open>None\<close>
  for the error value, and the position after the expansion.
\<close>

record expansion =
  ex_out :: "string option"
  ex_len :: "nat option"
  ex_next :: nat

text \<open>The copy of what follows the match, and the result.\<close>

definition finish_expansion :: "string \<Rightarrow> xform_state \<Rightarrow> expansion" where
  "finish_expansion tail xs =
     (let xs' = xsmemcpy tail xs
      in \<lparr>ex_out = xout xs', ex_len = (if xerr xs' then None else Some (xlen xs')), ex_next = xlen xs\<rparr>)"

definition do_genmatchstring ::
  "locale_ops \<Rightarrow> (char \<Rightarrow> string option) \<Rightarrow> bool \<Rightarrow> string \<Rightarrow> string \<Rightarrow> pmatch \<Rightarrow> nat option \<Rightarrow> expansion option" where
  "do_genmatchstring L macrosub writing pattern ibuf pm start =
     (let xs0 = xform_init (if writing then Some [] else None); (so, eo) = pm 0 in
      case start of
        None \<Rightarrow> map_option (finish_expansion []) (expand_loop L macrosub ibuf pm pattern xs0)
      | Some st \<Rightarrow>
          if so = - 1 then
            (let xs1 = xsmemcpy (ibuf @ [NUL]) xs0
             in Some \<lparr>ex_out = xout xs1, ex_len = Some (xlen xs1), ex_next = st\<rparr>)
          else
            (let input = drop st ibuf
             in map_option (finish_expansion (take (length input - nat eo) (drop (nat eo) input)))
                  (expand_loop L macrosub input pm pattern (xsmemcpy (take (st + nat so) ibuf) xs0))))"

text \<open>The string, its length and the position after it; \<open>Some None\<close> is the conversion error.\<close>

definition genmatchstring ::
  "locale_ops \<Rightarrow> (char \<Rightarrow> string option) \<Rightarrow> string \<Rightarrow> string \<Rightarrow> pmatch \<Rightarrow> nat option \<Rightarrow> (string \<times> nat \<times> nat) option option" where
  "genmatchstring L macrosub pattern ibuf pm start =
     (case do_genmatchstring L macrosub False pattern ibuf pm start of
        None \<Rightarrow> None
      | Some e \<Rightarrow>
          (case ex_len e of
             None \<Rightarrow> Some None
           | Some len \<Rightarrow>
               map_option (\<lambda>e2. Some (cstr (the (ex_out e2)), the (ex_len e2), ex_next e2))
                 (do_genmatchstring L macrosub True pattern ibuf pm start)))"

subsection \<open>Reading rules\<close>

fun take_token :: "bool \<Rightarrow> string \<Rightarrow> string \<times> string" where
  "take_token wasbs [] = ([], [])"
| "take_token wasbs (c # p) =
     (if \<not> wasbs \<and> (c_isspace c \<or> c = CHR ''#'') then ([], c # p)
      else (case take_token (\<not> wasbs \<and> c = CHR 0x5C) p of (t, r) \<Rightarrow> (c # t, r)))"

definition readescstring :: "string \<Rightarrow> string \<times> string" where
  "readescstring str =
     (let p = dropWhile c_isspace str in if p = [] then ([], []) else take_token False p)"

text \<open>The flags of the rule, and whether \<open>i\<close> and \<open>~\<close> set \<open>REG_ICASE\<close> and \<open>REG_NOSUB\<close>.\<close>

fun parse_flags :: "string \<Rightarrow> u32 \<times> bool \<times> bool \<Rightarrow> (u32 \<times> bool \<times> bool) option" where
  "parse_flags [] fl = Some fl"
| "parse_flags (c # p) (f, icase, nosub) =
     (if c = CHR ''r'' then parse_flags p (f OR RULE_REWRITE, icase, nosub)
      else if c = CHR ''g'' then
        parse_flags p (if has_flag f RULE_GLOBAL then f OR RULE_SEDG else f OR RULE_GLOBAL, icase, nosub)
      else if c = CHR ''e'' then parse_flags p (f OR RULE_EXIT, icase, nosub)
      else if c = CHR ''E'' then parse_flags p (f OR RULE_HASFILE, icase, nosub)
      else if c = CHR ''s'' then parse_flags p (f OR RULE_RESTART, icase, nosub)
      else if c = CHR ''a'' then parse_flags p (f OR RULE_ABORT, icase, nosub)
      else if c = CHR ''j'' then parse_flags p (f OR RULE_JUMP, icase, nosub)
      else if c = CHR ''i'' then parse_flags p (f, True, nosub)
      else if c = CHR ''~'' then parse_flags p (f OR RULE_INVERSE, icase, True)
      else if c = CHR ''4'' then parse_flags p (f OR RULE_IPV4, icase, nosub)
      else if c = CHR ''6'' then parse_flags p (f OR RULE_IPV6, icase, nosub)
      else if c = CHR ''G'' then parse_flags p (f OR RULE_RRQ, icase, nosub)
      else if c = CHR ''P'' then parse_flags p (f OR RULE_WRQ, icase, nosub)
      else None)"

definition badcombos :: "u32 list" where
  "badcombos =
     [RULE_REWRITE OR RULE_INVERSE, RULE_REWRITE OR RULE_ABORT, RULE_REWRITE OR RULE_JUMP,
      RULE_ABORT OR RULE_JUMP, RULE_ABORT OR RULE_RESTART, RULE_EXIT OR RULE_JUMP, RULE_EXIT OR RULE_ABORT,
      RULE_EXIT OR RULE_RESTART, RULE_EXIT OR RULE_HASFILE, RULE_HASFILE OR RULE_JUMP,
      RULE_HASFILE OR RULE_ABORT, RULE_HASFILE OR RULE_RESTART]"

datatype 'rx parsed = NoRule | BadRule | GoodRule "'rx rule"

text \<open>\<open>regcomp\<close> takes the expression, \<open>REG_ICASE\<close> and \<open>REG_NOSUB\<close>.\<close>

definition finish_rule ::
  "(string \<Rightarrow> bool \<Rightarrow> bool \<Rightarrow> 'rx option) \<Rightarrow> string \<Rightarrow> nat \<Rightarrow> u32 \<Rightarrow> bool \<Rightarrow> bool \<Rightarrow> 'rx parsed" where
  "finish_rule regcomp line lineno f icase nosub =
     (if list_ex (\<lambda>bc. f AND bc = bc) badcombos then BadRule
      else
        let f' = (if has_flag f RULE_REWRITE then f else f AND NOT (RULE_GLOBAL OR RULE_SEDG)) in
        if has_flag f' RULE_NOREGEX then
          GoodRule \<lparr>r_line = lineno, rule_flags = f', rx = None, r_pattern = fst (readescstring line)\<rparr>
        else
          (case readescstring line of (rxtext, line') \<Rightarrow>
             if rxtext = [] then BadRule
             else (case regcomp rxtext icase nosub of
                     None \<Rightarrow> BadRule
                   | Some x \<Rightarrow>
                       GoodRule \<lparr>r_line = lineno, rule_flags = f', rx = Some x, r_pattern = fst (readescstring line')\<rparr>)))"

definition parseline :: "(string \<Rightarrow> bool \<Rightarrow> bool \<Rightarrow> 'rx option) \<Rightarrow> string \<Rightarrow> nat \<Rightarrow> 'rx parsed" where
  "parseline regcomp line lineno =
     (case readescstring line of (token, line') \<Rightarrow>
        if token = [] then NoRule
        else
          let lab = (hd token = CHR '':'');
              f0 = (if lab then RULE_LABEL OR RULE_NOREGEX else 0);
              p = (if lab then tl token else token)
          in if lab \<and> p \<noteq> [] then GoodRule \<lparr>r_line = lineno, rule_flags = f0, rx = None, r_pattern = p\<rparr>
             else (case parse_flags p (f0, False, False) of
                     None \<Rightarrow> BadRule
                   | Some (f, icase, nosub) \<Rightarrow> finish_rule regcomp line' lineno f icase nosub))"

text \<open>The line without NUL and CR, the size of the buffer, and the rest; \<open>None\<close> at the end of the file.\<close>

function read_line :: "char list \<Rightarrow> string \<Rightarrow> nat \<Rightarrow> string option \<times> nat \<times> char list" where
  "read_line cs buf bufsize =
     (if \<not> length buf + 1 < bufsize then read_line cs buf (if bufsize < 64 then 64 else 2 * bufsize)
      else
        (case cs of
           [] \<Rightarrow> (if buf = [] then None else Some buf, bufsize, [])
         | c # cs' \<Rightarrow>
             if c = CHR 0x0A then (Some buf, bufsize, cs')
             else if c \<noteq> NUL \<and> c \<noteq> CHR 0x0D then read_line cs' (buf @ [c]) bufsize
             else read_line cs' buf bufsize))"
  by pat_completeness auto
termination
  by (relation "measures [\<lambda>(cs, buf, n). length cs, \<lambda>(cs, buf, n). length buf + 2 - n]") auto

lemma read_line_shorter:
  "read_line cs buf n = (Some l, m, cs') \<Longrightarrow> length cs' \<le> length cs \<and> (buf = [] \<longrightarrow> length cs' < length cs)"
proof (induction cs buf n arbitrary: l m cs' rule: read_line.induct)
  case (1 cs buf n)
  show ?case
  proof (cases "length buf + 1 < n")
    case False
    then show ?thesis using 1(1) [OF False] 1(4) by (subst (asm) (2) read_line.simps) simp
  next
    case True
    show ?thesis
    proof (cases cs)
      case Nil
      then show ?thesis using 1(4) True by (subst (asm) read_line.simps) (auto split: if_splits)
    next
      case (Cons c cs1)
      then show ?thesis
        using 1(2) [of c cs1] 1(3) [of c cs1] 1(4) True
        by (subst (asm) (3) read_line.simps) (auto split: if_splits dest: less_imp_le)
    qed
  qed
qed

declare read_line.simps [simp del]

definition EX_CONFIG :: int where
  "EX_CONFIG = 78"

text \<open>All rules in order, and whether a line was bad.\<close>

function parse_rules ::
  "(string \<Rightarrow> bool \<Rightarrow> bool \<Rightarrow> 'rx option) \<Rightarrow> char list \<Rightarrow> nat \<Rightarrow> nat \<Rightarrow> 'rx rule list \<times> bool" where
  "parse_rules regcomp cs linesize lineno =
     (case read_line cs [] linesize of
        (None, _, _) \<Rightarrow> ([], False)
      | (Some line, linesize', cs') \<Rightarrow>
          (case parse_rules regcomp cs' linesize' (Suc lineno) of (rules, err) \<Rightarrow>
             (case parseline regcomp line (Suc lineno) of
                NoRule \<Rightarrow> (rules, err)
              | BadRule \<Rightarrow> (rules, True)
              | GoodRule r \<Rightarrow> (r # rules, err))))"
  by pat_completeness auto
termination
  by (relation "measure (\<lambda>(rc, cs, n, l). length cs)") (auto dest: read_line_shorter [OF sym])

definition parserulefile :: "(string \<Rightarrow> bool \<Rightarrow> bool \<Rightarrow> 'rx option) \<Rightarrow> char list \<Rightarrow> int + 'rx rule list" where
  "parserulefile regcomp f =
     (case parse_rules regcomp f 0 0 of (rules, err) \<Rightarrow> if err then Inl EX_CONFIG else Inr rules)"

subsection \<open>Executing rules\<close>

datatype regexec_result = REG_OK pmatch | REG_NOMATCH | REG_ERROR

record 'rx remap_env =
  re_locale :: locale_ops
  re_macrosub :: "char \<Rightarrow> string option"
  re_exec :: "'rx \<Rightarrow> string \<Rightarrow> bool \<Rightarrow> regexec_result"

definition rule_match :: "'rx remap_env \<Rightarrow> 'rx rule \<Rightarrow> string \<Rightarrow> bool \<Rightarrow> bool \<times> pmatch" where
  "rule_match E r str notbol =
     (let inverse = has_flag (rule_flags r) RULE_INVERSE in
      case re_exec E (the (rx r)) str notbol of
        REG_OK pm \<Rightarrow> (\<not> inverse, if inverse then clear_pmatch else pm)
      | REG_NOMATCH \<Rightarrow> (inverse, clear_pmatch)
      | REG_ERROR \<Rightarrow> (False, clear_pmatch))"

datatype rewrite_step = StepDone string pmatch nat | StepDead | StepFail

function rewrite_loop ::
  "'rx remap_env \<Rightarrow> 'rx rule \<Rightarrow> nat \<Rightarrow> string \<Rightarrow> pmatch \<Rightarrow> nat \<Rightarrow> rewrite_step option" where
  "rewrite_loop E r deadman newstr pm ggoffset =
     (case genmatchstring (re_locale E) (re_macrosub E) (r_pattern r) newstr pm (Some ggoffset) of
        None \<Rightarrow> None
      | Some None \<Rightarrow> Some StepFail
      | Some (Some (newerstr, len, next)) \<Rightarrow>
          if \<not> has_flag (rule_flags r) RULE_GLOBAL then Some (StepDone newerstr pm deadman)
          else if has_flag (rule_flags r) RULE_SEDG \<and> len \<le> next then Some (StepDone newerstr pm deadman)
          else
            let gg = (if has_flag (rule_flags r) RULE_SEDG then next else 0) in
            (case rule_match E r (drop gg newerstr) (gg \<noteq> 0) of (was_match, pm') \<Rightarrow>
               if \<not> was_match then Some (StepDone newerstr pm' deadman)
               else if deadman = 0 then Some StepDead
               else rewrite_loop E r (deadman - 1) newerstr pm' gg))"
  by pat_completeness auto
termination
  by (relation "measure (\<lambda>(E, r, d, s, pm, g). d)") auto

declare rewrite_loop.simps [simp del]

lemma rewrite_loop_deadman:
  "rewrite_loop E r d s pm g = Some (StepDone s' pm' d') \<Longrightarrow> d' \<le> d"
proof (induction d arbitrary: s pm g rule: less_induct)
  case (less d)
  have IH: "rewrite_loop E r (d - Suc 0) s pm g = Some (StepDone s' pm' d') \<Longrightarrow> 0 < d \<Longrightarrow> d' \<le> d" for s pm g
    using less.IH [of "d - Suc 0" s pm g] by linarith
  from less.prems show ?case
    by (subst (asm) rewrite_loop.simps)
       (auto simp: Let_def IH split: option.splits prod.splits if_splits)
qed

text \<open>What an applied rule leads to; the label of a jump selects the rest of the table.\<close>

datatype rewritten = Rewritten string | Denied "string option"

datatype ('rx, 'w) action = Goto nat "'rx rule list" string 'w | Stop rewritten 'w

definition remap_failure :: rewritten where
  "remap_failure = Denied (Some ''Remap table failure'')"

definition match_string :: "'rx remap_env \<Rightarrow> 'rx rule \<Rightarrow> string \<Rightarrow> pmatch \<Rightarrow> string option option" where
  "match_string E r current pm =
     (if has_flag (rule_flags r) (RULE_ABORT OR RULE_JUMP) then
        map_option (\<lambda>g. case g of
            None \<Rightarrow> None
          | Some (s, len, _) \<Rightarrow> if len = 0 then None else Some s)
          (genmatchstring (re_locale E) (re_macrosub E) (r_pattern r) current pm None)
      else Some None)"

definition find_label :: "'rx rule list \<Rightarrow> string \<Rightarrow> 'rx rule list" where
  "find_label rules lab = dropWhile (\<lambda>r. \<not> (has_flag (rule_flags r) RULE_LABEL \<and> r_pattern r = lab)) rules"

definition after_match ::
  "'rx remap_env \<Rightarrow> 'rx rule list \<Rightarrow> 'rx rule \<Rightarrow> 'rx rule list \<Rightarrow> nat \<Rightarrow> string \<Rightarrow> pmatch \<Rightarrow> 'w \<Rightarrow> ('rx, 'w) action option" where
  "after_match E rules r next deadman current pm w =
     (case match_string E r current pm of
        None \<Rightarrow> None
      | Some newstr \<Rightarrow>
          Some
            (if has_flag (rule_flags r) RULE_ABORT then Stop (Denied newstr) w
             else if has_flag (rule_flags r) (RULE_EXIT OR RULE_HASFILE) then Stop (Rewritten current) w
             else if has_flag (rule_flags r) RULE_RESTART then Goto deadman rules current w
             else if has_flag (rule_flags r) RULE_JUMP then
               (case newstr of
                  None \<Rightarrow> Stop remap_failure w
                | Some lab \<Rightarrow>
                    if find_label rules lab = [] then Stop remap_failure w
                    else Goto deadman (find_label rules lab) current w)
             else Goto deadman next current w))"

definition apply_rule ::
  "'rx remap_env \<Rightarrow> (string \<Rightarrow> 'w \<Rightarrow> int \<times> 'w) \<Rightarrow> 'rx rule list \<Rightarrow> 'rx rule \<Rightarrow> 'rx rule list
     \<Rightarrow> nat \<Rightarrow> string \<Rightarrow> 'w \<Rightarrow> ('rx, 'w) action option" where
  "apply_rule E f_validate rules r next deadman current w =
     (case rule_match E r current False of (was_match, pm) \<Rightarrow>
        if \<not> was_match then Some (Goto deadman next current w)
        else
          (case (if has_flag (rule_flags r) RULE_REWRITE then rewrite_loop E r deadman current pm 0
                 else Some (StepDone current pm deadman)) of
             None \<Rightarrow> None
           | Some StepFail \<Rightarrow> Some (Stop remap_failure w)
           | Some StepDead \<Rightarrow> Some (Stop remap_failure w)
           | Some (StepDone newstr pm' deadman') \<Rightarrow>
               if has_flag (rule_flags r) RULE_HASFILE then
                 (case f_validate newstr w of (ecode, w') \<Rightarrow>
                    if ecode \<noteq> 0 then Some (Goto deadman' next current w')
                    else after_match E rules r next deadman' newstr pm' w')
               else after_match E rules r next deadman' newstr pm' w))"

lemma apply_rule_deadman:
  "apply_rule E v rules r next d cur w = Some (Goto d' rest cur' w') \<Longrightarrow> d' \<le> d"
  by (auto simp: apply_rule_def after_match_def dest: rewrite_loop_deadman
      split: prod.splits if_splits option.splits rewrite_step.splits)

function run_rules ::
  "'rx remap_env \<Rightarrow> (string \<Rightarrow> 'w \<Rightarrow> int \<times> 'w) \<Rightarrow> u32 \<Rightarrow> 'rx rule list \<Rightarrow> nat \<Rightarrow> 'rx rule list \<Rightarrow> string \<Rightarrow> 'w
     \<Rightarrow> (rewritten \<times> 'w) option" where
  "run_rules E f_validate bad_flags rules deadman ruleptr current w =
     (case ruleptr of
        [] \<Rightarrow> Some (Rewritten current, w)
      | r # next \<Rightarrow>
          if has_flag (rule_flags r) bad_flags then run_rules E f_validate bad_flags rules deadman next current w
          else if deadman = 0 then Some (remap_failure, w)
          else
            (case apply_rule E f_validate rules r next (deadman - 1) current w of
               None \<Rightarrow> None
             | Some (Stop result w') \<Rightarrow> Some (result, w')
             | Some (Goto deadman' next' current' w') \<Rightarrow>
                 run_rules E f_validate bad_flags rules deadman' next' current' w'))"
  by pat_completeness auto
termination
  by (relation "measures [\<lambda>(E, v, b, rs, d, p, c, w). d, \<lambda>(E, v, b, rs, d, p, c, w). length p]")
     (auto dest: apply_rule_deadman)

declare run_rules.simps [simp del]

datatype request_mode = Mode_RRQ | Mode_WRQ

definition bad_flags :: "request_mode \<Rightarrow> sa_family \<Rightarrow> u32" where
  "bad_flags mode af =
     RULE_LABEL OR RULE_NOREGEX
     OR (if mode \<noteq> Mode_RRQ then RULE_RRQ else 0) OR (if mode \<noteq> Mode_WRQ then RULE_WRQ else 0)
     OR (if af \<noteq> AF_INET then RULE_IPV4 else 0) OR (if af \<noteq> AF_INET6 then RULE_IPV6 else 0)"

definition rewrite_string ::
  "'rx remap_env \<Rightarrow> (string \<Rightarrow> 'w \<Rightarrow> int \<times> 'w) \<Rightarrow> int \<Rightarrow> string \<Rightarrow> 'rx rule list \<Rightarrow> request_mode \<Rightarrow> sa_family \<Rightarrow> 'w
     \<Rightarrow> (rewritten \<times> 'w) option" where
  "rewrite_string E f_validate map_steps input rules mode af w =
     (if rules = [] then Some (Rewritten input, w)
      else run_rules E f_validate (bad_flags mode af) rules (nat map_steps) rules input w)"

subsection \<open>A locale for examples\<close>

text \<open>The C locale: every byte is a character.\<close>

definition c_locale :: locale_ops where
  "c_locale =
     \<lparr>mbrtowc = (\<lambda>s. case s of [] \<Rightarrow> None | c # _ \<Rightarrow> Some (of_char c, 1)),
      towlower = (\<lambda>wc. if 65 \<le> wc \<and> wc \<le> 90 then wc + 32 else wc),
      towupper = (\<lambda>wc. if 97 \<le> wc \<and> wc \<le> 122 then wc - 32 else wc),
      wcrtomb = (\<lambda>wc. [char_of wc])\<rparr>"

section \<open>Lemmas\<close>

subsection \<open>Termination\<close>

declare xform_out.simps [simp del]

definition decodes :: "locale_ops \<Rightarrow> string \<Rightarrow> bool" where
  "decodes L s \<longleftrightarrow> (\<exists>wc nb. mbrtowc L s = Some (wc, nb) \<and> 0 < nb)"

lemma xform_out_suffix: "suffix (fst (xform_out L p len xs)) p"
proof (induction L p len xs rule: xform_out.induct)
  case (1 L p len xs)
  have "suffix (fst (xform_out L (drop nb p) (len - nb) (xsmemcpy (wcrtomb L (apply_xform L (xform xs) wc)) xs))) p"
    if "\<not> (len = 0 \<or> p = [] \<or> hd p = CHR 0x5C)" "mbrtowc L (take len p) = Some (wc, nb)" "nb \<noteq> 0" for wc nb
    using 1 [OF that(1,2) refl that(3)] suffix_drop [of nb p] by (rule suffix_order.trans)
  then show ?case by (subst xform_out.simps) (auto split: option.splits)
qed

lemma xform_out_progress:
  assumes "p \<noteq> []" "hd p \<noteq> CHR 0x5C" "decodes L p"
  shows "length (fst (xform_out L p (length p) xs)) < length p"
proof -
  obtain wc nb where m: "mbrtowc L p = Some (wc, nb)" "0 < nb" using assms(3) by (auto simp: decodes_def)
  have "fst (xform_out L p (length p) xs)
      = fst (xform_out L (drop nb p) (length p - nb) (xsmemcpy (wcrtomb L (apply_xform L (xform xs) wc)) xs))"
    using assms m by (subst xform_out.simps) simp
  also have "length \<dots> \<le> length (drop nb p)" by (intro suffix_length_le xform_out_suffix)
  also have "length (drop nb p) < length p" using assms(1) m(2) by simp
  finally show ?thesis .
qed

lemma expand_step_progress:
  assumes "pattern \<noteq> []" "\<And>s. suffix s pattern \<Longrightarrow> s \<noteq> [] \<Longrightarrow> decodes L s"
  shows "length (fst (expand_step L m input pm pattern xs)) < length pattern"
    and "suffix (fst (expand_step L m input pm pattern xs)) pattern"
proof -
  have "suffix (tl pattern) pattern" "suffix (drop 2 pattern) pattern" by (simp_all add: suffix_drop suffix_tl)
  moreover have "length (tl pattern) < length pattern" "length (drop 2 pattern) < length pattern"
    using assms(1) by (cases pattern; simp)+
  ultimately show "length (fst (expand_step L m input pm pattern xs)) < length pattern"
    "suffix (fst (expand_step L m input pm pattern xs)) pattern"
    using xform_out_progress [OF assms(1), of L xs] xform_out_suffix [of L pattern] assms
    by (simp_all add: expand_step_def Let_def split: option.splits)
qed

lemma expand_loop_terminates:
  assumes "\<And>s. suffix s pattern \<Longrightarrow> s \<noteq> [] \<Longrightarrow> decodes L s"
  shows "expand_loop L m input pm pattern xs \<noteq> None"
  using assms
proof (induction pattern arbitrary: xs rule: length_induct)
  case (1 pattern)
  show ?case
  proof (cases "pattern = []")
    case True
    then show ?thesis by (subst expand_loop.simps) simp
  next
    case False
    note P = expand_step_progress [OF False 1(2), of m input pm xs]
    have "expand_loop L m input pm (fst (expand_step L m input pm pattern xs)) (snd (expand_step L m input pm pattern xs)) \<noteq> None"
      using 1(1) P 1(2) suffix_order.trans by blast
    then show ?thesis using False by (subst expand_loop.simps) simp
  qed
qed

lemma genmatchstring_terminates:
  assumes "\<And>s. suffix s pattern \<Longrightarrow> s \<noteq> [] \<Longrightarrow> decodes L s"
  shows "genmatchstring L m pattern ibuf pm start \<noteq> None"
proof -
  have "do_genmatchstring L m b pattern ibuf pm start \<noteq> None" for b
    using expand_loop_terminates [OF assms] unfolding do_genmatchstring_def
    by (auto simp: Let_def split: prod.splits option.splits)
  then show ?thesis by (auto simp: genmatchstring_def split: option.splits)
qed

definition rule_decodes :: "locale_ops \<Rightarrow> 'rx rule \<Rightarrow> bool" where
  "rule_decodes L r \<longleftrightarrow> (\<forall>s. suffix s (r_pattern r) \<longrightarrow> s \<noteq> [] \<longrightarrow> decodes L s)"

lemma rewrite_loop_terminates:
  assumes "rule_decodes (re_locale E) r"
  shows "rewrite_loop E r d s pm g \<noteq> None"
proof (induction d arbitrary: s pm g rule: less_induct)
  case (less d)
  have "genmatchstring (re_locale E) (re_macrosub E) (r_pattern r) s pm (Some g) \<noteq> None"
    using assms by (intro genmatchstring_terminates) (simp add: rule_decodes_def)
  moreover have "0 < d \<Longrightarrow> rewrite_loop E r (d - Suc 0) s pm g \<noteq> None" for s pm g by (rule less.IH) simp
  ultimately show ?case
    by (subst rewrite_loop.simps) (auto simp: Let_def split: option.splits prod.splits)
qed

lemma after_match_terminates:
  assumes "rule_decodes (re_locale E) r"
  shows "\<exists>a. after_match E rules r next d c pm w = Some a"
proof -
  have "match_string E r c pm \<noteq> None"
    using genmatchstring_terminates [of "r_pattern r" "re_locale E"] assms by (auto simp: match_string_def rule_decodes_def)
  then show ?thesis by (auto simp: after_match_def split: option.splits)
qed

lemma apply_rule_terminates:
  assumes "rule_decodes (re_locale E) r"
  shows "apply_rule E v rules r next d cur w \<noteq> None"
proof -
  obtain was pm where m: "rule_match E r cur False = (was, pm)" by (cases "rule_match E r cur False") auto
  have "rewrite_loop E r d cur pm 0 \<noteq> None" by (rule rewrite_loop_terminates [OF assms])
  then show ?thesis
    using after_match_terminates [OF assms]
    by (auto simp: apply_rule_def m split: prod.splits rewrite_step.splits)
qed

lemma after_match_goto:
  assumes "after_match E rules r next d cur pm w = Some (Goto d' rest cur' w')" "set next \<subseteq> set rules"
  shows "set rest \<subseteq> set rules"
proof -
  have "set (find_label rules lab) \<subseteq> set rules" for lab
    unfolding find_label_def using set_dropWhileD by fast
  then show ?thesis
    using assms by (auto simp: after_match_def split: if_splits option.splits)
qed

lemma apply_rule_goto:
  assumes "apply_rule E v rules r next d cur w = Some (Goto d' rest cur' w')" "set (r # next) \<subseteq> set rules"
  shows "set rest \<subseteq> set rules"
  using assms
  by (auto simp: apply_rule_def dest!: after_match_goto split: prod.splits if_splits option.splits rewrite_step.splits)

lemma run_rules_terminates:
  assumes "\<forall>r \<in> set rules. rule_decodes (re_locale E) r" "set ruleptr \<subseteq> set rules"
  shows "run_rules E v bad rules d ruleptr cur w \<noteq> None"
proof -
  note goto = apply_rule_goto
  show ?thesis
    using assms
  proof (induction E v bad rules d ruleptr cur w rule: run_rules.induct)
    case (1 E v bad rules d ruleptr cur w)
    note IH = 1(1,2) and prems = 1(3,4)
    show ?case
    proof (cases ruleptr)
      case Nil
      then show ?thesis by (subst run_rules.simps) simp
    next
      case (Cons r "next")
      have sub: "rule_decodes (re_locale E) r" "set next \<subseteq> set rules" using prems Cons by auto
      obtain act where act: "apply_rule E v rules r next (d - 1) cur w = Some act"
        using apply_rule_terminates [OF sub(1), of v rules "next" "d - 1" cur w] by blast
      consider "has_flag (rule_flags r) bad" | "\<not> has_flag (rule_flags r) bad" "d = 0"
        | "\<not> has_flag (rule_flags r) bad" "d \<noteq> 0" by blast
      then show ?thesis
      proof cases
        case 1
        then show ?thesis using IH(1) [OF Cons] prems(1) sub(2) Cons by (subst run_rules.simps) simp
      next
        case 2
        then show ?thesis using Cons by (subst run_rules.simps) simp
      next
        case 3
        show ?thesis
        proof (cases act)
          case (Goto d' rest cur' w')
          have "run_rules E v bad rules d' rest cur' w' \<noteq> None"
            using IH(2) [OF Cons 3 act Goto] prems goto [OF act [unfolded Goto]] Cons by simp
          then show ?thesis using Cons 3 act Goto by (subst run_rules.simps) simp
        next
          case (Stop res w')
          then show ?thesis using Cons 3 act by (subst run_rules.simps) simp
        qed
      qed
    qed
  qed
qed

subsection \<open>The two passes of the expansion\<close>

text \<open>A state of the length pass and a state of the writing pass after the same steps.\<close>

definition same_pass :: "xform_state \<Rightarrow> xform_state \<Rightarrow> bool" where
  "same_pass xs ys \<longleftrightarrow>
     xform ys = xform xs \<and> xlen ys = xlen xs \<and> xerr ys = xerr xs \<and> xout xs = None
     \<and> (\<exists>b. xout ys = Some b \<and> length b = xlen ys)"

lemma same_pass_memcpy: "same_pass xs ys \<Longrightarrow> same_pass (xsmemcpy s xs) (xsmemcpy s ys)"
  by (auto simp: same_pass_def xsmemcpy_def)

lemma same_pass_out:
  "same_pass xs ys \<Longrightarrow> fst (xform_out L p n ys) = fst (xform_out L p n xs) \<and> same_pass (snd (xform_out L p n xs)) (snd (xform_out L p n ys))"
proof (induction L p n xs arbitrary: ys rule: xform_out.induct)
  case (1 L p n xs)
  note IH = 1(1) and same = 1(2)
  have err: "same_pass (xs\<lparr>xerr := True\<rparr>) (ys\<lparr>xerr := True\<rparr>)" using same by (auto simp: same_pass_def)
  have x: "xform ys = xform xs" using same by (simp add: same_pass_def)
  show ?case
  proof (cases "n = 0 \<or> p = [] \<or> hd p = CHR 0x5C")
    case True
    then show ?thesis using same by (subst (1 2 3 4) xform_out.simps) simp
  next
    case False
    show ?thesis
    proof (cases "mbrtowc L (take n p)")
      case None
      then show ?thesis using False err by (subst (1 2 3 4) xform_out.simps) simp
    next
      case (Some wn)
      obtain wc nb where wn: "wn = (wc, nb)" by (cases wn)
      define t where "t = wcrtomb L (apply_xform L (xform xs) wc)"
      have "nb \<noteq> 0 \<Longrightarrow> fst (xform_out L (drop nb p) (n - nb) (xsmemcpy t ys)) = fst (xform_out L (drop nb p) (n - nb) (xsmemcpy t xs))
          \<and> same_pass (snd (xform_out L (drop nb p) (n - nb) (xsmemcpy t xs))) (snd (xform_out L (drop nb p) (n - nb) (xsmemcpy t ys)))"
        unfolding t_def using IH [OF False Some wn [symmetric]] same_pass_memcpy [OF same] by blast
      then show ?thesis
        using False Some wn err x by (subst (1 2 3 4) xform_out.simps) (simp add: t_def)
    qed
  qed
qed

lemma same_pass_step:
  assumes "same_pass xs ys"
  shows "fst (expand_step L m input pm p ys) = fst (expand_step L m input pm p xs)
    \<and> same_pass (snd (expand_step L m input pm p xs)) (snd (expand_step L m input pm p ys))"
proof -
  have "same_pass (group_out L input g xs) (group_out L input g ys)" for g
    using same_pass_out [OF assms] assms by (auto simp: group_out_def split: prod.splits)
  moreover have "same_pass (xs\<lparr>xform := f\<rparr>) (ys\<lparr>xform := f\<rparr>)" for f using assms by (auto simp: same_pass_def)
  ultimately show ?thesis
    using same_pass_out [OF assms] same_pass_memcpy [OF assms] assms
    by (auto simp: expand_step_def Let_def split: option.splits)
qed

lemma same_pass_loop:
  assumes "expand_loop L m input pm p xs = Some xs'" "same_pass xs ys"
  shows "\<exists>ys'. expand_loop L m input pm p ys = Some ys' \<and> same_pass xs' ys'"
  using assms
proof (induction arbitrary: ys rule: expand_loop.raw_induct [rotated, consumes 1, case_names step])
  case (step loop L m input pm p xs xs')
  show ?case
  proof (cases "p = []")
    case True
    then show ?thesis using step(2,3) by (subst expand_loop.simps) simp
  next
    case False
    note S = same_pass_step [OF step(3), of L m input pm p]
    from step(1) step(2) False S obtain ys' where
      "expand_loop L m input pm (fst (expand_step L m input pm p xs)) (snd (expand_step L m input pm p ys)) = Some ys'"
      "same_pass xs' ys'" by (simp split: if_splits) blast
    then show ?thesis using False S by (subst expand_loop.simps) simp
  qed
qed

lemma finish_passes:
  assumes "map_option (finish_expansion t) (expand_loop L m input pm pattern xs) = Some e" "same_pass xs ys"
  shows "\<exists>e' out. map_option (finish_expansion t) (expand_loop L m input pm pattern ys) = Some e' \<and> ex_out e' = Some out
    \<and> ex_len e' = ex_len e \<and> ex_next e' = ex_next e \<and> (\<forall>n. ex_len e = Some n \<longrightarrow> length out = n)"
proof -
  obtain xs2 where xs2: "expand_loop L m input pm pattern xs = Some xs2" "e = finish_expansion t xs2"
    using assms(1) by auto
  then obtain ys2 where ys2: "expand_loop L m input pm pattern ys = Some ys2" "same_pass xs2 ys2"
    using same_pass_loop [OF _ assms(2)] by blast
  show ?thesis
    using same_pass_memcpy [OF ys2(2), of t] ys2
    by (auto simp: xs2 finish_expansion_def Let_def same_pass_def xsmemcpy_def)
qed

lemma two_passes:
  assumes "do_genmatchstring L m False pattern ibuf pm start = Some e"
  shows "\<exists>e' out. do_genmatchstring L m True pattern ibuf pm start = Some e' \<and> ex_out e' = Some out
    \<and> ex_len e' = ex_len e \<and> ex_next e' = ex_next e \<and> (\<forall>n. ex_len e = Some n \<longrightarrow> length out = n)"
proof -
  obtain so eo where pm0: "pm 0 = (so, eo)" by (cases "pm 0")
  have init: "same_pass (xform_init None) (xform_init (Some []))" by (simp add: same_pass_def xform_init_def)
  note E = do_genmatchstring_def [of L m _ pattern ibuf pm start, unfolded pm0 prod.case Let_def]
  consider "start = None" | st where "start = Some st" "so = - 1" | st where "start = Some st" "so \<noteq> - 1"
    by (cases start) auto
  then show ?thesis
  proof cases
    case 1
    then show ?thesis using assms finish_passes [OF _ init] unfolding E by simp
  next
    case 2
    then show ?thesis using assms unfolding E by (auto simp: xsmemcpy_def xform_init_def)
  next
    case 3
    then show ?thesis using assms finish_passes [OF _ same_pass_memcpy [OF init]] unfolding E by simp
  qed
qed

subsection \<open>Parsed rules\<close>

definition rule_ok :: "'rx rule \<Rightarrow> bool" where
  "rule_ok r \<longleftrightarrow>
     list_all (\<lambda>bc. rule_flags r AND bc \<noteq> bc) badcombos
     \<and> (has_flag (rule_flags r) RULE_NOREGEX \<or> rx r \<noteq> None)
     \<and> (has_flag (rule_flags r) (RULE_GLOBAL OR RULE_SEDG) \<longrightarrow> has_flag (rule_flags r) RULE_REWRITE)"

lemma cleared_flags: "(f AND NOT m) AND b = b \<Longrightarrow> f AND b = b" for f m b :: u32
  by (metis and.assoc and.left_idem)

lemma flags_cleared: "(f AND NOT m) AND m = 0" for f m :: u32
  by (simp add: and.assoc)

lemma finish_rule_ok: "finish_rule regcomp line n f icase nosub = GoodRule r \<Longrightarrow> rule_ok r"
proof -
  assume r: "finish_rule regcomp line n f icase nosub = GoodRule r"
  define f' where "f' = (if has_flag f RULE_REWRITE then f else f AND NOT (RULE_GLOBAL OR RULE_SEDG))"
  have "\<not> list_ex (\<lambda>bc. f AND bc = bc) badcombos" using r by (auto simp: finish_rule_def split: if_splits)
  moreover have "f' AND bc = bc \<Longrightarrow> f AND bc = bc" for bc
    using cleared_flags [of f "RULE_GLOBAL OR RULE_SEDG" bc] unfolding f'_def by presburger
  ultimately have "list_all (\<lambda>bc. f' AND bc \<noteq> bc) badcombos"
    unfolding list_ex_iff list_all_iff by metis
  moreover have "has_flag f' (RULE_GLOBAL OR RULE_SEDG) \<longrightarrow> has_flag f' RULE_REWRITE"
    using flags_cleared [of f "RULE_GLOBAL OR RULE_SEDG"] by (simp add: f'_def has_flag_def del: bit.de_Morgan_disj)
  moreover have "rule_flags r = f'" "has_flag f' RULE_NOREGEX \<or> rx r \<noteq> None"
    using r unfolding finish_rule_def Let_def f'_def [symmetric]
    by (auto split: if_splits prod.splits option.splits)
  ultimately show ?thesis by (simp add: rule_ok_def)
qed

lemma label_rule_ok:
  "rule_ok \<lparr>r_line = n, rule_flags = RULE_LABEL OR RULE_NOREGEX, rx = None, r_pattern = p\<rparr>"
  by (simp add: rule_ok_def has_flag_def badcombos_def rule_flag_defs)

lemma parseline_ok: "parseline regcomp line n = GoodRule r \<Longrightarrow> rule_ok r"
  by (auto simp: parseline_def Let_def label_rule_ok intro: finish_rule_ok
      split: prod.splits if_splits option.splits)

declare parse_rules.simps [simp del]

lemma parse_rules_ok: "list_all rule_ok (fst (parse_rules regcomp cs m n))"
proof (induction regcomp cs m n rule: parse_rules.induct)
  case (1 regcomp cs m n)
  obtain l m' cs' where l: "read_line cs [] m = (l, m', cs')" by (cases "read_line cs [] m")
  show ?case
  proof (cases l)
    case None
    then show ?thesis by (subst parse_rules.simps) (simp add: l)
  next
    case (Some line)
    have "list_all rule_ok (fst (parse_rules regcomp cs' m' (Suc n)))"
      using 1 l Some by auto
    then show ?thesis
      using parseline_ok [of regcomp line "Suc n"]
      by (subst parse_rules.simps) (auto simp: l Some split: prod.splits parsed.splits)
  qed
qed

lemma read_line_room:
  "read_line cs buf n = (Some l, m, rest) \<Longrightarrow> length l + 1 < m"
proof (induction cs buf n arbitrary: l m rest rule: read_line.induct)
  case (1 cs buf n)
  show ?case
  proof (cases "length buf + 1 < n")
    case False
    then show ?thesis using 1(1) [OF False] 1(4) by (subst (asm) (2) read_line.simps) simp
  next
    case True
    show ?thesis
    proof (cases cs)
      case Nil
      then show ?thesis using 1(4) True by (subst (asm) read_line.simps) (auto split: if_splits)
    next
      case (Cons c cs1)
      then show ?thesis
        using 1(2) [of c cs1] 1(3) [of c cs1] 1(4) True
        by (subst (asm) (3) read_line.simps) (auto split: if_splits)
    qed
  qed
qed

lemma take_token_length: "length (fst (take_token b s)) + length (snd (take_token b s)) = length s"
  by (induction b s rule: take_token.induct) (auto split: prod.splits)

lemma readescstring_length: "length (fst (readescstring s)) + length (snd (readescstring s)) \<le> length s"
  using take_token_length [of False "dropWhile c_isspace s"] length_dropWhile_le [of c_isspace s]
  by (auto simp: readescstring_def Let_def)

subsection \<open>Literal replacement\<close>

lemma xsmemcpy_nil [simp]: "xsmemcpy [] xs = xs"
  by (cases xs; cases "xout xs") (simp_all add: xsmemcpy_def)

lemma xform_out_c:
  "xform xs = xform_null \<Longrightarrow> CHR 0x5C \<notin> set (take n p) \<Longrightarrow>
     xform_out c_locale p n xs = (drop n p, xsmemcpy (take n p) xs)"
proof (induction n arbitrary: p xs)
  case 0
  show ?case by (subst xform_out.simps) simp
next
  case (Suc k)
  show ?case
  proof (cases p)
    case Nil
    then show ?thesis by (subst xform_out.simps) simp
  next
    case (Cons c q)
    have "xform_out c_locale q k (xsmemcpy [c] xs) = (drop k q, xsmemcpy (take k q) (xsmemcpy [c] xs))"
      using Suc Cons by (simp add: xsmemcpy_def)
    moreover have "xsmemcpy (take k q) (xsmemcpy [c] xs) = xsmemcpy (c # take k q) xs"
      by (simp add: xsmemcpy_def option.map_comp comp_def)
    ultimately show ?thesis
      using Suc.prems Cons by (subst xform_out.simps) (auto simp: c_locale_def apply_xform_def)
  qed
qed

lemma genmatchstring_literal:
  assumes "CHR 0x5C \<notin> set pattern" "NUL \<notin> set pattern" "NUL \<notin> set ibuf" "pm 0 = (int so, int eo)" "so \<le> eo" "eo \<le> length ibuf"
  shows "genmatchstring c_locale m pattern ibuf pm (Some 0) =
    Some (Some (take so ibuf @ pattern @ drop eo ibuf, length (take so ibuf @ pattern @ drop eo ibuf), so + length pattern))"
proof -
  define xs where "xs w = xsmemcpy (take so ibuf) (xform_init (if w then Some [] else None))" for w :: bool
  have x: "xform (xs w) = xform_null" "\<not> xerr (xs w)" "xlen (xs w) = so" "xout (xs w) = (if w then Some (take so ibuf) else None)" for w
    using assms(5,6) by (simp_all add: xs_def xsmemcpy_def xform_init_def)
  have loop: "expand_loop c_locale m ibuf pm pattern (xs w) = Some (xsmemcpy pattern (xs w))" for w
  proof (cases "pattern = []")
    case True
    then show ?thesis by (subst expand_loop.simps) simp
  next
    case False
    then have "hd pattern \<noteq> CHR 0x5C" using assms(1) hd_in_set by metis
    then have "expand_step c_locale m ibuf pm pattern (xs w) = ([], xsmemcpy pattern (xs w))"
      using xform_out_c [of "xs w" "length pattern" pattern] x(1) [of w] assms(1) by (simp add: expand_step_def)
    then show ?thesis using False by (subst expand_loop.simps) (simp add: expand_loop.simps [where pattern = "[]"])
  qed
  have "do_genmatchstring c_locale m w pattern ibuf pm (Some 0)
      = Some (finish_expansion (drop eo ibuf) (xsmemcpy pattern (xs w)))" for w
    unfolding do_genmatchstring_def assms(4) using loop [of w] by (simp add: Let_def xs_def)
  moreover have "cstr (take so ibuf @ pattern @ drop eo ibuf) = take so ibuf @ pattern @ drop eo ibuf"
  proof -
    have "\<forall>c \<in> set (take so ibuf @ pattern @ drop eo ibuf). c \<noteq> NUL"
      using assms(2,3) in_set_takeD [of _ so ibuf] in_set_dropD [of _ eo ibuf] by auto
    then show ?thesis by (simp add: cstr_def takeWhile_eq_all_conv del: set_append)
  qed
  ultimately show ?thesis
    using assms(5,6) x by (simp add: genmatchstring_def finish_expansion_def Let_def xsmemcpy_def)
qed

lemma c_locale_decodes: "rule_decodes c_locale r"
  by (auto simp: rule_decodes_def decodes_def c_locale_def split: list.splits)

lemma parserulefile_rules: "parserulefile regcomp f = Inr rules \<Longrightarrow> list_all rule_ok rules"
  using parse_rules_ok [of regcomp f 0 0] by (auto simp: parserulefile_def split: prod.splits if_splits)

lemma run_has_regex: "rule_ok r \<Longrightarrow> \<not> has_flag (rule_flags r) (bad_flags mode af) \<Longrightarrow> rx r \<noteq> None"
  by (auto simp: rule_ok_def has_flag_def bad_flags_def bit.conj_disj_distrib or_eq_0_iff)

subsection \<open>The world during remapping\<close>

text \<open>Whatever the validation callback keeps, the execution of the rules keeps.\<close>

lemma after_match_world:
  "after_match E rules r next d cur pm w = Some (Goto d' rest cur' w') \<Longrightarrow> w' = w"
  "after_match E rules r next d cur pm w = Some (Stop res w') \<Longrightarrow> w' = w"
  by (auto simp: after_match_def split: option.splits if_splits)

lemma apply_rule_world:
  assumes "\<And>s w. Q w \<Longrightarrow> Q (snd (v s w))" "Q w"
  shows "apply_rule E v rules r next d cur w = Some (Goto d' rest cur' w') \<Longrightarrow> Q w'"
    and "apply_rule E v rules r next d cur w = Some (Stop res w') \<Longrightarrow> Q w'"
  using assms(2) assms(1) [of w]
  by (auto simp: apply_rule_def dest!: after_match_world
      split: option.splits if_splits prod.splits rewrite_step.splits) (metis snd_conv)+

lemma run_rules_world:
  assumes "\<And>s w. Q w \<Longrightarrow> Q (snd (v s w))"
  shows "Q w \<Longrightarrow> run_rules E v bad rules d ruleptr cur w = Some (res, w') \<Longrightarrow> Q w'"
  using assms
proof (induction E v bad rules d ruleptr cur w rule: run_rules.induct)
  case (1 E v bad rules d ruleptr cur w)
  show ?case
  proof (cases ruleptr)
    case Nil
    then show ?thesis using 1(3,4) by (subst (asm) run_rules.simps) simp
  next
    case (Cons r rest)
    show ?thesis
    proof (cases "has_flag (rule_flags r) bad \<or> d = 0")
      case True
      then show ?thesis
        using 1(1) [OF Cons _ 1(3) _ 1(5)] 1(3,4) Cons by (subst (asm) (2) run_rules.simps) (auto split: if_splits)
    next
      case False
      note world = apply_rule_world [of Q v w E rules r rest "d - 1" cur, OF 1(5) 1(3)]
      show ?thesis
      proof (cases "apply_rule E v rules r rest (d - 1) cur w")
        case None
        then show ?thesis using 1(4) Cons False by (subst (asm) run_rules.simps) simp
      next
        case (Some act)
        show ?thesis
        proof (cases act)
          case (Stop result w1)
          then show ?thesis using 1(4) Cons False Some world by (subst (asm) run_rules.simps) simp
        next
          case (Goto d1 next1 cur1 w1)
          then have "run_rules E v bad rules d1 next1 cur1 w1 = Some (res, w')"
            using 1(4) Cons False Some by (subst (asm) run_rules.simps) simp
          then show ?thesis using 1(2) [OF Cons _ _ Some Goto] False world(1) Some Goto 1(5) by blast
        qed
      qed
    qed
  qed
qed

lemma rewrite_string_world:
  assumes "\<And>s w. Q w \<Longrightarrow> Q (snd (v s w))" "Q w" "rewrite_string E v steps input rules mode af w = Some (res, w')"
  shows "Q w'"
  using assms(2,3) run_rules_world [of Q v, OF assms(1)] by (auto simp: rewrite_string_def split: if_splits)

section \<open>Properties\<close>



text \<open>
  C29: The expansion of a replacement pattern fills its buffer exactly: the first pass, which only
  counts, and the second, which writes, agree on the length and on the position after the
  replacement, and the text written has the counted length, for every pattern, match and locale.
\<close>

theorem expansion_fits:
  assumes "do_genmatchstring L macrosub False pattern ibuf pm start = Some e"
  shows "\<exists>e' out. do_genmatchstring L macrosub True pattern ibuf pm start = Some e' \<and> ex_out e' = Some out
    \<and> ex_len e' = ex_len e \<and> ex_next e' = ex_next e \<and> (\<forall>n. ex_len e = Some n \<longrightarrow> length out = n)"
  using assms by (rule two_passes)

lemma count_example:
  "do_genmatchstring c_locale (\<lambda>_. None) False ''B'' ''abc'' (\<lambda>_. (1, 2)) (Some 0) =
     Some \<lparr>ex_out = None, ex_len = Some 3, ex_next = 2\<rparr>"
  by (simp add: do_genmatchstring_def xform_init_def xsmemcpy_def expand_loop.simps expand_step_def xform_out_c
      finish_expansion_def)

theorem expansion_fits_witness:
  "map_option (\<lambda>e. (ex_len e, map_option length (ex_out e)))
     (do_genmatchstring c_locale (\<lambda>_. None) True ''B'' ''abc'' (\<lambda>_. (1, 2)) (Some 0)) = Some (Some 3, Some 3)"
  using expansion_fits [OF count_example] by auto

text \<open>
  A rule without groups or escapes replaces exactly the matched part: the result is the name
  before the match, the pattern and the name after the match, with its length and the position
  after the pattern, from which a global rule goes on.
\<close>

theorem literal_replacement:
  assumes "CHR 0x5C \<notin> set pattern" "NUL \<notin> set pattern" "NUL \<notin> set ibuf"
    and "pm 0 = (int so, int eo)" "so \<le> eo" "eo \<le> length ibuf"
  shows "genmatchstring c_locale macrosub pattern ibuf pm (Some 0) =
    Some (Some (take so ibuf @ pattern @ drop eo ibuf, so + length pattern + (length ibuf - eo), so + length pattern))"
  using genmatchstring_literal [of pattern ibuf pm so eo macrosub] assms by simp

theorem literal_replacement_witness:
  "genmatchstring c_locale (\<lambda>_. None) ''boot/'' ''abc.img'' (\<lambda>_. (0, 1)) (Some 0) =
     Some (Some (''boot/bc.img'', 11, 5))"
  using literal_replacement [of "''boot/''" "''abc.img''" "\<lambda>_. (0, 1)" 0 1 "\<lambda>_. None"] by (simp add: numeral_eq_Suc)

text \<open>
  C30: A rule file that is accepted holds only consistent rules: none has one of the forbidden
  combinations of flags, a global rule is a rewriting rule, and every rule that can be executed for
  a request has a compiled regular expression, so the matcher never uses a missing one.
\<close>

theorem rule_file_sound:
  assumes "parserulefile regcomp f = Inr rules" "r \<in> set rules"
  shows "list_all (\<lambda>bc. rule_flags r AND bc \<noteq> bc) badcombos
    \<and> (\<not> has_flag (rule_flags r) (RULE_GLOBAL OR RULE_SEDG) \<or> has_flag (rule_flags r) RULE_REWRITE)
    \<and> (has_flag (rule_flags r) (bad_flags mode af) \<or> rx r \<noteq> None)"
proof -
  have "rule_ok r" using parserulefile_rules [OF assms(1)] assms(2) by (simp add: list_all_iff)
  then show ?thesis using run_has_regex [of r mode af] by (auto simp: rule_ok_def)
qed

lemma parse_example:
  "parserulefile (\<lambda>s i n. Some s) ''rg a b'' =
     Inr [\<lparr>r_line = 1, rule_flags = RULE_REWRITE OR RULE_GLOBAL, rx = Some ''a'', r_pattern = ''b''\<rparr>]"
  by code_simp

theorem rule_file_sound_witness:
  "list_all (\<lambda>bc. (RULE_REWRITE OR RULE_GLOBAL) AND bc \<noteq> bc) badcombos
   \<and> has_flag (RULE_REWRITE OR RULE_GLOBAL) (RULE_GLOBAL OR RULE_SEDG) \<and> has_flag (RULE_REWRITE OR RULE_GLOBAL) RULE_REWRITE"
  using rule_file_sound [OF parse_example list.set_intros(1), of Mode_RRQ AF_INET]
  by (simp add: has_flag_def rule_flag_defs)

end
