(* ===== verification/Errors.thy ===== *)
theory Errors
  imports Subs Transport
begin

text \<open>
  Error texts and error packets: \<open>common/error.c\<close>, the packet type names of
  \<open>common/tftpsubs.h\<close>, and the two functions called \<open>nak\<close> that send an error packet
  (\<open>tftpd/tftpd.c\<close> and \<open>tftp/tftp.c\<close>).

  \<open>strerror\<close> belongs to the C library and is a parameter. Characters are signed, as on
  the platforms the daemon is built for. A packet being printed is the beginning of a
  larger receive buffer; the bytes after it are whatever the buffer held before.
\<close>

section \<open>Definitions\<close>

definition EUNDEF :: int where "EUNDEF = 0"
definition ENOTFOUND :: int where "ENOTFOUND = 1"
definition EACCESS :: int where "EACCESS = 2"
definition ENOSPACE :: int where "ENOSPACE = 3"
definition EBADOP :: int where "EBADOP = 4"
definition EBADID :: int where "EBADID = 5"
definition EEXISTS :: int where "EEXISTS = 6"
definition ENOUSER :: int where "ENOUSER = 7"
definition EOPTNEG :: int where "EOPTNEG = 8"

lemmas tftp_error_defs = EUNDEF_def ENOTFOUND_def EACCESS_def ENOSPACE_def EBADOP_def EBADID_def
  EEXISTS_def ENOUSER_def EOPTNEG_def

definition packet_types :: "string list" where
  "packet_types = [''null'', ''RRQ'', ''WRQ'', ''DATA'', ''ACK'', ''ERROR'', ''OACK'']"

definition errmsgs :: "string list" where
  "errmsgs =
     [''unspecified error'', ''file not found'', ''access denied'', ''insufficient space for upload'',
      ''invalid TFTP operation'', ''unknown transfer ID'', ''file already exists'', ''no such user'',
      ''options negotiation failure'']"

definition packet_type :: "u16 \<Rightarrow> string" where
  "packet_type opcode = (if length packet_types \<le> unat opcode then ''unknown'' else packet_types ! unat opcode)"

definition error_msg :: "(int \<Rightarrow> string) \<Rightarrow> int \<Rightarrow> string" where
  "error_msg strerror err =
     (if err < 0 then strerror (- err) else if err < int (length errmsgs) then errmsgs ! nat err else [])"

text \<open>\<open>%*s\<close> of \<open>printf\<close>: blanks on the left up to the width, never a cut.\<close>

definition pad_left :: "nat \<Rightarrow> string \<Rightarrow> string" where
  "pad_left width s = replicate (width - length s) CHR '' '' @ s"

definition printable :: "char \<Rightarrow> bool" where
  "printable c \<longleftrightarrow> 32 \<le> sint (uc c) \<and> uc c \<noteq> 127"

text \<open>\<open>tp\<close> is the receive buffer, of which the first \<open>n\<close> bytes are the packet.\<close>

definition errpkt_to_string :: "char list \<Rightarrow> int \<Rightarrow> string" where
  "errpkt_to_string tp n =
     (let opcode = get16 tp 0; nerr = get16 tp 2 in
      if n < 2 then ''packet too short''
      else if opcode \<noteq> ERROR then
        (if length packet_types \<le> unat opcode then ''invalid packet type '' @ decimal (unat opcode)
         else ''unexpected '' @ packet_type opcode @ '' packet'')
      else if n < 4 then ''error packet too short''
      else
        let len = length (takeWhile printable (take (nat n - 4) (drop 4 tp)));
            ellipsis = (if 4 + len \<noteq> nat n - 1 \<or> tp ! (4 + len) \<noteq> NUL then ''...'' else '''');
            text = (if len \<noteq> 0 then pad_left len (cstr (drop 4 tp)) else pad_left 13 ''(no message)'')
        in if length errmsgs \<le> unat nerr then ''unknown error '' @ decimal (unat nerr) @ '': '' @ text @ ellipsis
           else errmsgs ! unat nerr @ '': '' @ text @ ellipsis)"

definition tftp_error_code :: "int \<Rightarrow> string \<Rightarrow> int" where
  "tftp_error_code error msg =
     (if error = - ENOENT \<or> error = - ENOTDIR \<or> error = - EPERM then ENOTFOUND
      else if error = - ENOSPC then ENOSPACE
      else if error = - EEXIST then EEXISTS
      else if error < 0 \<or> msg = [] then EUNDEF
      else error)"

definition make_errpacket :: "(int \<Rightarrow> string) \<Rightarrow> int \<Rightarrow> string option \<Rightarrow> packet" where
  "make_errpacket strerror error msg0 =
     (let msg = (case msg0 of None \<Rightarrow> error_msg strerror error | Some m \<Rightarrow> m);
          text = take (SEGSIZE - 1) msg
      in put16 ERROR @ put16 (of_int (tftp_error_code error msg)) @ text @ [NUL])"

text \<open>The daemon's \<open>nak\<close>: its second argument is overwritten before it is used.\<close>

definition daemon_nak_packet :: "(int \<Rightarrow> string) \<Rightarrow> int \<Rightarrow> packet" where
  "daemon_nak_packet strerror error =
     (let msg = error_msg strerror error
      in put16 ERROR @ put16 (of_int (tftp_error_code error msg)) @ msg @ [NUL])"

definition daemon_nak :: "(int \<Rightarrow> string) \<Rightarrow> int \<Rightarrow> string option \<Rightarrow> 'a xfer_world_scheme \<Rightarrow> 'a xfer_world_scheme" where
  "daemon_nak strerror error msg w = snd (socket_send (daemon_nak_packet strerror error) w)"

definition client_nak ::
  "(int \<Rightarrow> string) \<Rightarrow> int \<Rightarrow> string option \<Rightarrow> 'a xfer_world_scheme \<Rightarrow> int \<times> 'a xfer_world_scheme" where
  "client_nak strerror error msg w =
     (case socket_send (make_errpacket strerror error msg) w of (r, w') \<Rightarrow> (if r \<noteq> 0 then errno w' else 0, w'))"

section \<open>Lemmas\<close>

lemma get16_header: "get16 (put16 a @ put16 b @ s) 0 = a" "get16 (put16 a @ put16 b @ s) 2 = b"
  using get16_skip [of a "put16 b @ s" 0] by (simp_all add: numeral_2_eq_2)

lemma drop_header: "drop 4 (put16 a @ put16 b @ s) = s"
  by simp

lemma printable_not_NUL: "printable c \<Longrightarrow> c \<noteq> NUL"
  by (auto simp: printable_def uc_def)

lemma cstr_terminated: "NUL \<notin> set s \<Longrightarrow> cstr (s @ NUL # rest) = s"
  by (induction s) (auto simp: cstr_def)

lemma takeWhile_terminated:
  assumes "list_all printable s"
  shows "takeWhile printable (s @ [NUL]) = s"
proof -
  have "\<not> printable NUL" using printable_not_NUL by blast
  then show ?thesis using assms by (simp add: takeWhile_append2 list_all_iff)
qed

lemma tftp_error_code_known:
  assumes "error < int (length errmsgs)" "length errmsgs = 9"
  shows "0 \<le> tftp_error_code error msg \<and> tftp_error_code error msg < 9"
  using assms by (simp add: tftp_error_code_def tftp_error_defs)

lemma length_errmsgs [simp]: "length errmsgs = 9"
  by (simp add: errmsgs_def)

lemma error_packet_fields:
  "get16 (make_errpacket se e m) 0 = ERROR"
  "get16 (make_errpacket se e m) 2 = of_int (tftp_error_code e (case m of None \<Rightarrow> error_msg se e | Some x \<Rightarrow> x))"
  "drop 4 (make_errpacket se e m) = take 511 (case m of None \<Rightarrow> error_msg se e | Some x \<Rightarrow> x) @ [NUL]"
  unfolding make_errpacket_def Let_def SEGSIZE_def by (simp_all add: get16_header drop_header del: drop_append)

lemma length_make_errpacket:
  "length (make_errpacket se e m) = 5 + min 511 (length (case m of None \<Rightarrow> error_msg se e | Some x \<Rightarrow> x))"
  by (simp add: make_errpacket_def Let_def SEGSIZE_def)

lemma tftp_error_code_id: "0 \<le> e \<Longrightarrow> m \<noteq> [] \<Longrightarrow> tftp_error_code e m = e"
  by (simp add: tftp_error_code_def errno_defs)

lemma errpkt_to_string_message:
  assumes "get16 p 0 = ERROR" "get16 p 2 = of_nat k" "drop 4 p = msg @ [NUL]" "length p = 5 + length msg"
    and "list_all printable msg" "msg \<noteq> []" "k < 9"
  shows "errpkt_to_string (p @ junk) (int (length p)) = errmsgs ! k @ '': '' @ msg"
proof -
  have d: "drop 4 (p @ junk) = msg @ NUL # junk" using assms(3,4) by simp
  have g: "get16 (p @ junk) 0 = ERROR" "get16 (p @ junk) 2 = of_nat k"
    using assms(1,2,4) by (simp_all add: get16_def nth_append)
  have t: "take (nat (int (length p)) - 4) (drop 4 (p @ junk)) = msg @ [NUL]"
    unfolding d nat_int using assms(4) by simp
  have n: "NUL \<notin> set msg" using assms(5) printable_not_NUL by (auto simp: list_all_iff)
  have nul: "(p @ junk) ! (4 + length msg) = NUL"
    using d nth_drop [of 4 "p @ junk" "length msg"] assms(4) by simp
  have u: "unat (of_nat k :: u16) = k" using assms(7) by (simp add: unat_of_nat_small)
  show ?thesis
    unfolding errpkt_to_string_def Let_def g t takeWhile_terminated [OF assms(5)] d cstr_terminated [OF n] u nul
    unfolding nat_int using assms(4,6,7) takeWhile_terminated [OF assms(5)] nul by (simp add: pad_left_def)
qed

section \<open>Properties\<close>



text \<open>
  C32: The text of an error travels: printing the packet made for a code and a printable message
  gives the name of the code and that message, whatever the receive buffer held after the packet.
\<close>

theorem error_text_roundtrip:
  assumes "e < 9" "msg \<noteq> []" "length msg < SEGSIZE" "list_all printable msg"
  shows "errpkt_to_string (make_errpacket strerror (int e) (Some msg) @ junk)
      (int (length (make_errpacket strerror (int e) (Some msg)))) = errmsgs ! e @ '': '' @ msg"
proof (rule errpkt_to_string_message)
  show "get16 (make_errpacket strerror (int e) (Some msg)) 2 = of_nat e"
    using assms(2) by (simp add: error_packet_fields tftp_error_code_id)
qed (use assms in \<open>simp_all add: error_packet_fields length_make_errpacket SEGSIZE_def\<close>)

theorem error_text_roundtrip_witness:
  "errpkt_to_string (make_errpacket (\<lambda>_. []) 1 (Some ''no'') @ ''xyz'')
      (int (length (make_errpacket (\<lambda>_. []) 1 (Some ''no'')))) = ''file not found: no''"
proof -
  have "list_all printable ''no''" by (simp add: printable_def uc_def)
  from error_text_roundtrip [of 1 "''no''" "\<lambda>_. []" "''xyz''"] this
  show ?thesis by (simp add: SEGSIZE_def errmsgs_def)
qed

text \<open>
  The daemon's own construction of an error packet agrees with the shared one used without a
  text, as long as the text of the error fits its limit.
\<close>

theorem daemon_nak_shared:
  assumes "length (error_msg strerror error) < SEGSIZE"
  shows "daemon_nak_packet strerror error = make_errpacket strerror error None"
  using assms by (simp add: daemon_nak_packet_def make_errpacket_def Let_def SEGSIZE_def)

theorem daemon_nak_shared_witness:
  "daemon_nak_packet (\<lambda>_. ''x'') 2 = make_errpacket (\<lambda>_. ''x'') 2 None"
  by (rule daemon_nak_shared) (simp add: error_msg_def errmsgs_def SEGSIZE_def)


end
