(* ===== verification/Access.thy ===== *)
theory Access
  imports Daemon_Config Remap Errors
begin

text \<open>
  Which file a request gets (\<open>tftpd/tftpd.c\<close>): the macros of the remapping rules, the
  remapping of the requested name, the test mode for rules, and \<open>validate_access\<close>, which
  checks the name against the allowed directories, opens the file and checks its
  permissions.

  The file system is a parameter: an opaque state and the system calls on it. Descriptors
  are non-negative, a failing call gives the negated error number. \<open>calls\<close> records the
  calls that open, truncate or remove something, so that theorems can speak about them. The
  model is of the build with \<open>openat2\<close>. A call of \<open>exit\<close> is \<open>Inl\<close> of the status
  and the world; when it happens inside the remapping callback it is recorded in \<open>exited\<close>.
\<close>

section \<open>Definitions\<close>

subsection \<open>System calls\<close>

datatype open_flag = O_TEXT | O_BINARY | O_RDONLY | O_WRONLY | O_CREAT | O_NOFOLLOW | O_DIRECTORY | O_PATH

datatype resolve_flag = RESOLVE_IN_ROOT | RESOLVE_NO_MAGICLINKS

record open_how =
  how_flags :: "open_flag set"
  how_mode :: u32
  how_resolve :: "resolve_flag set"

record stat =
  st_mode :: u32
  st_size :: u64

record 'f server_os =
  sv_openat2 :: "int \<Rightarrow> string \<Rightarrow> open_how \<Rightarrow> 'f \<Rightarrow> int \<times> 'f"
  sv_fstat :: "int \<Rightarrow> 'f \<Rightarrow> stat option"
  sv_lock :: "int \<Rightarrow> bool \<Rightarrow> 'f \<Rightarrow> bool"
  sv_ftruncate :: "int \<Rightarrow> 'f \<Rightarrow> bool \<times> 'f"
  sv_unlinkat :: "int \<Rightarrow> string \<Rightarrow> 'f \<Rightarrow> bool \<times> 'f"
  sv_close :: "int \<Rightarrow> 'f \<Rightarrow> 'f"
  sv_fdopen :: "int \<Rightarrow> bool \<Rightarrow> 'f \<Rightarrow> FILE option"

datatype fs_call = Call_open int string open_how | Call_truncate int | Call_unlink int string

definition AT_FDCWD :: int where "AT_FDCWD = - 100"

record unlink_info =
  ul_parent :: int
  ul_dirname :: string
  ul_filename :: string

record 'f server_world = daemon_world +
  fs :: 'f
  calls :: "fs_call list"
  sv_file :: "(int \<times> FILE) option"
  unlink_info :: "unlink_info option"
  jail_root :: int
  from_family :: sa_family
  from_addr :: "u8 list"
  exited :: "int option"

definition os_open ::
  "'f server_os \<Rightarrow> int \<Rightarrow> string \<Rightarrow> open_how \<Rightarrow> ('f, 'z) server_world_scheme \<Rightarrow> int \<times> ('f, 'z) server_world_scheme" where
  "os_open os parent name how w =
     (case sv_openat2 os parent name how (fs w) of (r, f) \<Rightarrow>
        (r, w\<lparr>fs := f, calls := calls w @ [Call_open parent name how]\<rparr>))"

definition os_truncate ::
  "'f server_os \<Rightarrow> int \<Rightarrow> ('f, 'z) server_world_scheme \<Rightarrow> bool \<times> ('f, 'z) server_world_scheme" where
  "os_truncate os fd w =
     (case sv_ftruncate os fd (fs w) of (ok, f) \<Rightarrow> (ok, w\<lparr>fs := f, calls := calls w @ [Call_truncate fd]\<rparr>))"

definition os_unlink ::
  "'f server_os \<Rightarrow> int \<Rightarrow> string \<Rightarrow> ('f, 'z) server_world_scheme \<Rightarrow> ('f, 'z) server_world_scheme" where
  "os_unlink os parent name w =
     w\<lparr>fs := snd (sv_unlinkat os parent name (fs w)), calls := calls w @ [Call_unlink parent name]\<rparr>"

definition os_close ::
  "'f server_os \<Rightarrow> int \<Rightarrow> ('f, 'z) server_world_scheme \<Rightarrow> ('f, 'z) server_world_scheme" where
  "os_close os fd w = w\<lparr>fs := sv_close os fd (fs w)\<rparr>"

subsection \<open>Formats\<close>

record formats =
  f_mode :: string
  f_convert :: bool

definition format_table :: "formats list" where
  "format_table = [\<lparr>f_mode = ''netascii'', f_convert = True\<rparr>, \<lparr>f_mode = ''octet'', f_convert = False\<rparr>]"

subsection \<open>Opening a file\<close>

definition open_mode :: "daemon_options \<Rightarrow> bool \<Rightarrow> formats \<Rightarrow> open_flag set" where
  "open_mode dopt is_read pf =
     {if f_convert pf then O_TEXT else O_BINARY}
     \<union> (if is_read then {O_RDONLY}
        else {O_WRONLY} \<union> (if cancreate dopt then {O_CREAT, O_NOFOLLOW} else {}))"

definition base_name :: "string \<Rightarrow> string" where
  "base_name filename = rev (takeWhile (\<lambda>c. c \<noteq> slash) (rev filename))"

definition dir_name :: "string \<Rightarrow> string" where
  "dir_name filename = take (length filename - length (base_name filename)) filename"

definition resolve_how :: "int \<Rightarrow> resolve_flag set" where
  "resolve_how parent = (if parent \<noteq> AT_FDCWD then {RESOLVE_IN_ROOT, RESOLVE_NO_MAGICLINKS} else {})"

definition open_target ::
  "'f server_os \<Rightarrow> daemon_options \<Rightarrow> bool \<Rightarrow> formats \<Rightarrow> string \<Rightarrow> ('f, 'z) server_world_scheme \<Rightarrow> int \<times> ('f, 'z) server_world_scheme" where
  "open_target os dopt is_read pf filename w =
     (let root = jail_root w; omode = open_mode dopt is_read pf; res = resolve_how root;
          how = \<lparr>how_flags = omode, how_mode = (if O_CREAT \<in> omode then 438 else 0), how_resolve = res\<rparr>;
          dhow = \<lparr>how_flags = {O_DIRECTORY, O_PATH}, how_mode = 0, how_resolve = res\<rparr>;
          dirname = dir_name filename; base = base_name filename;
          uli = \<lparr>ul_parent = root, ul_dirname = dirname, ul_filename = base\<rparr>
      in if \<not> is_read \<and> cancreate dopt then
           let w1 = w\<lparr>unlink_info := Some uli\<rparr> in
           if dirname \<noteq> [] then
             (case os_open os root dirname dhow w1 of (parent, w2) \<Rightarrow>
                if parent < 0 then (parent, w2)
                else os_open os parent base how (w2\<lparr>unlink_info := Some (uli\<lparr>ul_parent := parent\<rparr>)\<rparr>))
           else os_open os root base how w1
         else os_open os root filename how w)"

text \<open>The checks on the open file. The result is the code and the message.\<close>

definition check_file ::
  "'f server_os \<Rightarrow> daemon_options \<Rightarrow> bool \<Rightarrow> formats \<Rightarrow> int \<Rightarrow> ('f, 'z) server_world_scheme
     \<Rightarrow> (int \<times> ('f, 'z) server_world_scheme) + (int \<times> string option \<times> ('f, 'z) server_world_scheme)" where
  "check_file os dopt is_read pf fd w =
     (case sv_fstat os fd (fs w) of
        None \<Rightarrow> Inl (EX_OSERR, w)
      | Some st \<Rightarrow>
          if \<not> sv_lock os fd (\<not> is_read) (fs w) then Inl (0, w)
          else if is_read \<and> \<not> unixperms dopt \<and> st_mode st AND 4 = 0 then
            Inr (EACCESS, Some ''File must have global read permissions'', os_close os fd w)
          else if \<not> is_read \<and> \<not> unixperms dopt \<and> st_mode st AND 2 = 0 then
            Inr (EACCESS, Some ''File must have global write permissions'', os_close os fd w)
          else
            (case (if is_read then
                     (True, w\<lparr>tsize_size := st_size st, tsize_mode := (if f_convert pf then TSIZE_NAK else TSIZE_READ)\<rparr>)
                   else os_truncate os fd w) of (ok, w1) \<Rightarrow>
               if \<not> ok then Inr (EACCESS, Some ''Cannot reset file size'', os_close os fd w1)
               else
                 let w2 = (if is_read then w1 else w1\<lparr>tsize_mode := TSIZE_WRITE\<rparr>) in
                 (case sv_fdopen os fd is_read (fs w2) of
                    None \<Rightarrow> Inl (EX_OSERR, w2)
                  | Some f \<Rightarrow> Inr (0, None, w2\<lparr>sv_file := Some (fd, f)\<rparr>))))"

text \<open>The name to open, or the message of the refusal.\<close>

definition resolve_name :: "daemon_options \<Rightarrow> string \<Rightarrow> string + string" where
  "resolve_name dopt filename =
     (if validate dopt then
        (case parse_path filename True of
           Dirs pathlist \<Rightarrow>
             if list_ex (\<lambda>d. compare_paths pathlist d AND 2 \<noteq> 0) (dirs dopt)
             then Inr (build_path (path_prefix dopt) pathlist)
             else Inl ''Forbidden directory''
         | _ \<Rightarrow> Inl ''Invalid pathname specified'')
      else Inr filename)"

definition validate_access ::
  "'f server_os \<Rightarrow> daemon_options \<Rightarrow> string \<Rightarrow> bool \<Rightarrow> formats \<Rightarrow> ('f, 'z) server_world_scheme
     \<Rightarrow> (int \<times> ('f, 'z) server_world_scheme) + (int \<times> string option \<times> ('f, 'z) server_world_scheme)" where
  "validate_access os dopt filename is_read pf w =
     (let w0 = w\<lparr>tsize_mode := TSIZE_NAK, unlink_info := None\<rparr> in
      case resolve_name dopt filename of
        Inl msg \<Rightarrow> Inr (EACCESS, Some msg, w0)
      | Inr name \<Rightarrow>
          (case open_target os dopt is_read pf name w0 of (fd, w1) \<Rightarrow>
             if fd < 0 then Inr (fd, None, w1\<lparr>unlink_info := None\<rparr>)
             else check_file os dopt is_read pf fd w1))"

subsection \<open>Remapping the name\<close>

definition hexchar :: "u8 \<Rightarrow> char" where
  "hexchar c = char_of (unat (if 10 \<le> c then c + 65 - 10 else c + 48))"

definition rewrite_macros :: "(sa_family \<Rightarrow> u8 list \<Rightarrow> string option) \<Rightarrow> sa_family \<Rightarrow> u8 list \<Rightarrow> char \<Rightarrow> string option" where
  "rewrite_macros inet_ntop family addr macro =
     (case (case family of AF_INET \<Rightarrow> Some 4 | AF_INET6 \<Rightarrow> Some 16 | _ \<Rightarrow> None) of
        None \<Rightarrow> None
      | Some bytes \<Rightarrow>
          if macro = CHR ''i'' then
            Some (case inet_ntop family addr of Some p \<Rightarrow> p | None \<Rightarrow> [])
          else if macro = CHR ''x'' then
            Some (concat (map (\<lambda>c. [hexchar (drop_bit 4 c), hexchar (c AND 15)]) (take bytes addr)))
          else None)"

text \<open>The callback of the remapping engine; a call of \<open>exit\<close> ends the execution of the rules.\<close>

definition remap_validate ::
  "'f server_os \<Rightarrow> daemon_options \<Rightarrow> bool \<Rightarrow> formats \<Rightarrow> string \<Rightarrow> ('f, 'z) server_world_scheme \<Rightarrow> int \<times> ('f, 'z) server_world_scheme" where
  "remap_validate os dopt is_read pf filename w =
     (case validate_access os dopt filename is_read pf w of
        Inl (e, w') \<Rightarrow> (0, w'\<lparr>exited := Some e\<rparr>)
      | Inr (ecode, _, w') \<Rightarrow> (ecode, w'))"

record 'rx remap_libs =
  lib_locale :: locale_ops
  lib_exec :: "'rx \<Rightarrow> string \<Rightarrow> bool \<Rightarrow> regexec_result"
  lib_ntop :: "sa_family \<Rightarrow> u8 list \<Rightarrow> string option"

definition macro_env :: "'rx remap_libs \<Rightarrow> sa_family \<Rightarrow> u8 list \<Rightarrow> 'rx remap_env" where
  "macro_env L family addr =
     \<lparr>re_locale = lib_locale L, re_macrosub = rewrite_macros (lib_ntop L) family addr, re_exec = lib_exec L\<rparr>"

definition normalize_result :: "normalizations \<Rightarrow> rewritten \<Rightarrow> rewritten" where
  "normalize_result n r =
     (case r of
        Rewritten fn \<Rightarrow> (case normalize_path n (Some fn) of Some p \<Rightarrow> Rewritten p | None \<Rightarrow> Denied None)
      | Denied m \<Rightarrow> Denied m)"

definition rewrite_access ::
  "'rx remap_libs \<Rightarrow> 'f server_os \<Rightarrow> daemon_options \<Rightarrow> 'rx rule list \<Rightarrow> formats \<Rightarrow> string \<Rightarrow> bool
     \<Rightarrow> ('f, 'z) server_world_scheme \<Rightarrow> (rewritten \<times> ('f, 'z) server_world_scheme) option" where
  "rewrite_access L os dopt rules pf filename is_read w =
     map_option (map_prod (normalize_result (normalize dopt)) id)
       (rewrite_string (macro_env L (from_family w) (from_addr w)) (remap_validate os dopt is_read pf)
          (map_steps dopt) filename rules (if is_read then Mode_RRQ else Mode_WRQ) (from_family w) w)"

subsection \<open>The test mode for rules\<close>

definition test_validate_fail :: "string \<Rightarrow> 'w \<Rightarrow> int \<times> 'w" where
  "test_validate_fail filename w = (EACCESS, w)"

definition phony_ip6_addr :: "u8 list" where
  "phony_ip6_addr = [0x20, 0x01, 0x0d, 0xb8, 0x00, 0x00, 0x00, 0x00, 0xfe, 0xed, 0xfa, 0xce, 0xde, 0xad, 0xbe, 0xef]"

definition phony_ip4_addr :: "u8 list" where
  "phony_ip4_addr = [192, 0, 2, 34]"

text \<open>\<open>fgets\<close> into a buffer of \<open>n + 1\<close> bytes: up to \<open>n\<close> characters, ending with the first newline.\<close>

fun fgets :: "nat \<Rightarrow> char list \<Rightarrow> char list \<times> char list" where
  "fgets 0 s = ([], s)"
| "fgets n [] = ([], [])"
| "fgets (Suc n) (c # s) =
     (if c = CHR 0x0A then ([c], s) else (case fgets n s of (t, r) \<Rightarrow> (c # t, r)))"

lemma fgets_length: "length (fst (fgets n s)) + length (snd (fgets n s)) = length s"
  by (induction n s rule: fgets.induct) (auto split: prod.splits)

lemma fgets_progress: "0 < n \<Longrightarrow> s \<noteq> [] \<Longrightarrow> length (snd (fgets n s)) < length s"
  using fgets_length [of n s] by (cases n; cases s) (auto split: if_splits prod.splits)

lemma MAX_SEGSIZE_pos: "0 < MAX_SEGSIZE"
  by (simp add: MAX_SEGSIZE_def)

function test_lines :: "char list \<Rightarrow> string list" where
  "test_lines s =
     (if s = [] then []
      else
        (case fgets MAX_SEGSIZE s of (chunk, rest) \<Rightarrow>
           (if CHR 0x0A \<in> set (cstr chunk) then [takeWhile (\<lambda>c. c \<noteq> CHR 0x0A) (cstr chunk)] else [])
           @ test_lines rest))"
  by pat_completeness auto
termination
proof (relation "measure length", goal_cases)
  case (2 s chunk rest)
  then show ?case using fgets_progress [of MAX_SEGSIZE s] by (metis MAX_SEGSIZE_pos in_measure snd_conv)
qed simp

declare test_lines.simps [simp del]

definition test_line ::
  "'rx remap_libs \<Rightarrow> daemon_options \<Rightarrow> 'rx rule list \<Rightarrow> string \<Rightarrow> rewritten option" where
  "test_line L dopt rules line =
     (let af = (if ai_fam dopt = AI_INET6 then AF_INET6 else AF_INET);
          addr = (if ai_fam dopt = AI_INET6 then phony_ip6_addr else phony_ip4_addr)
      in map_option (\<lambda>(r, _). normalize_result (normalize dopt) r)
           (rewrite_string (macro_env L af addr) test_validate_fail (map_steps dopt) line rules
              (if cancreate dopt then Mode_WRQ else Mode_RRQ) af ()))"

definition rewrite_test ::
  "'rx remap_libs \<Rightarrow> daemon_options \<Rightarrow> 'rx rule list \<Rightarrow> char list \<Rightarrow> rewritten option list" where
  "rewrite_test L dopt rules tf = map (test_line L dopt rules) (test_lines tf)"

subsection \<open>A small server for examples\<close>

text \<open>Every name is the same world-readable and world-writable file.\<close>

definition one_file_os :: "unit server_os" where
  "one_file_os =
     \<lparr>sv_openat2 = (\<lambda>_ _ _ f. (5, f)), sv_fstat = (\<lambda>_ _. Some \<lparr>st_mode = 438, st_size = 2\<rparr>), sv_lock = (\<lambda>_ _ _. True),
      sv_ftruncate = (\<lambda>_ f. (True, f)), sv_unlinkat = (\<lambda>_ _ f. (True, f)), sv_close = (\<lambda>_ f. f),
      sv_fdopen = (\<lambda>_ is_read _. Some \<lparr>f_in = (if is_read then ''hi'' else []), f_in_error = False, f_ferror = False, f_out = [], f_room = None, f_flush = None\<rparr>)\<rparr>"

definition example_server :: "unit server_world" where
  "example_server =
     daemon_world.extend (daemon_start (world_of (reader_of False 1 8 ''ab'') 1000000))
       \<lparr>fs = (), calls = [], sv_file = None, unlink_info = None, jail_root = AT_FDCWD, from_family = AF_INET,
        from_addr = [192, 0, 2, 34], exited = None\<rparr>"

definition example_dopt :: daemon_options where
  "example_dopt = default_options\<lparr>validate := True, dirs := [[''srv'']]\<rparr>"

section \<open>Lemmas\<close>

subsection \<open>Names\<close>

lemma dir_base: "dir_name s @ base_name s = s"
proof -
  have "length (base_name s) \<le> length s"
    using length_takeWhile_le [of _ "rev s"] by (simp add: base_name_def)
  moreover have "rev s = takeWhile (\<lambda>c. c \<noteq> slash) (rev s) @ dropWhile (\<lambda>c. c \<noteq> slash) (rev s)" by simp
  then have "s = rev (dropWhile (\<lambda>c. c \<noteq> slash) (rev s)) @ base_name s"
    unfolding base_name_def by (metis rev_append rev_rev_ident)
  ultimately show ?thesis unfolding dir_name_def
    by (metis append_eq_conv_conj length_append diff_add_inverse2)
qed

lemma base_no_slash: "slash \<notin> set (base_name s)"
  using set_takeWhileD [of _ "\<lambda>c. c \<noteq> slash" "rev s"] by (auto simp: base_name_def)

lemma resolve_name_allowed:
  assumes "resolve_name dopt filename = Inr name" "validate dopt"
  obtains ds d where "d \<in> set (dirs dopt)" "prefix d ds" "list_all plain_component ds" "name = build_path (path_prefix dopt) ds"
proof -
  obtain ds where ds: "parse_path filename True = Dirs ds" "list_ex (\<lambda>d. compare_paths ds d AND 2 \<noteq> 0) (dirs dopt)"
      "name = build_path (path_prefix dopt) ds"
    using assms by (auto simp: resolve_name_def split: path_result.splits if_splits)
  then obtain d where d: "d \<in> set (dirs dopt)" "prefix d ds"
    by (auto simp: list_ex_iff compare_paths_cases split: if_splits)
  moreover have "list_all plain_component ds" using parse_path_plain [OF ds(1)] by (simp add: list_all_iff)
  ultimately show thesis using that ds(3) by blast
qed

subsection \<open>Confinement\<close>

text \<open>
  A call that opens something names a file below an allowed directory: its whole name from
  the root, the directory part of it to hold on to, or the last part below that directory,
  where no link is followed.
\<close>

definition below_allowed :: "daemon_options \<Rightarrow> string \<Rightarrow> bool" where
  "below_allowed dopt name \<longleftrightarrow>
     (\<exists>d ds. d \<in> set (dirs dopt) \<and> prefix d ds \<and> list_all plain_component ds \<and> name = build_path (path_prefix dopt) ds)"

definition open_confined :: "daemon_options \<Rightarrow> int \<Rightarrow> int \<Rightarrow> string \<Rightarrow> open_how \<Rightarrow> bool" where
  "open_confined dopt root parent name how \<longleftrightarrow>
     (validate dopt \<longrightarrow>
        (\<exists>dir base. below_allowed dopt (dir @ base) \<and> slash \<notin> set base
           \<and> (parent = root \<and> name = dir @ base
              \<or> parent = root \<and> name = dir \<and> how_flags how = {O_DIRECTORY, O_PATH}
              \<or> name = base \<and> O_NOFOLLOW \<in> how_flags how)))
     \<and> (root \<noteq> AT_FDCWD \<longrightarrow> RESOLVE_IN_ROOT \<in> how_resolve how)"

fun call_confined :: "daemon_options \<Rightarrow> int \<Rightarrow> fs_call \<Rightarrow> bool" where
  "call_confined dopt root (Call_open parent name how) = open_confined dopt root parent name how"
| "call_confined dopt root _ = True"

text \<open>No call opens a file for writing or changes one.\<close>

fun call_reads :: "fs_call \<Rightarrow> bool" where
  "call_reads (Call_open parent name how) \<longleftrightarrow> O_WRONLY \<notin> how_flags how \<and> O_CREAT \<notin> how_flags how"
| "call_reads _ = False"

text \<open>What the calls of one step add to the record of calls.\<close>

definition adds_calls :: "(fs_call \<Rightarrow> bool) \<Rightarrow> ('f, 'z) server_world_scheme \<Rightarrow> ('f, 'z) server_world_scheme \<Rightarrow> bool" where
  "adds_calls P w w' \<longleftrightarrow>
     (\<exists>cs. calls w' = calls w @ cs \<and> list_all P cs) \<and> jail_root w' = jail_root w
     \<and> from_family w' = from_family w \<and> from_addr w' = from_addr w"

lemma adds_refl: "adds_calls P w w"
  by (simp add: adds_calls_def)

lemma adds_trans: "adds_calls P w w' \<Longrightarrow> adds_calls P w' w'' \<Longrightarrow> adds_calls P w w''"
  by (auto simp: adds_calls_def)

lemma adds_same: "calls w' = calls w \<Longrightarrow> jail_root w' = jail_root w \<Longrightarrow> from_family w' = from_family w
    \<Longrightarrow> from_addr w' = from_addr w \<Longrightarrow> adds_calls P w w'"
  by (simp add: adds_calls_def)

lemma os_open_adds: "P (Call_open parent name how) \<Longrightarrow> adds_calls P w (snd (os_open os parent name how w))"
  by (simp add: os_open_def adds_calls_def split: prod.splits)

lemma os_truncate_adds: "P (Call_truncate fd) \<Longrightarrow> adds_calls P w (snd (os_truncate os fd w))"
  by (simp add: os_truncate_def adds_calls_def split: prod.splits)

lemma os_close_adds: "adds_calls P w (os_close os fd w)"
  by (simp add: os_close_def adds_calls_def)

lemma open_confinedI:
  assumes "validate dopt \<longrightarrow> below_allowed dopt name"
    and "parent = root \<and> n = name \<or> parent = root \<and> n = dir_name name \<and> m = {O_DIRECTORY, O_PATH}
      \<or> n = base_name name \<and> O_NOFOLLOW \<in> m"
  shows "call_confined dopt root (Call_open parent n \<lparr>how_flags = m, how_mode = k, how_resolve = resolve_how root\<rparr>)"
proof -
  have "\<exists>dir base. below_allowed dopt (dir @ base) \<and> slash \<notin> set base
      \<and> (parent = root \<and> n = dir @ base \<or> parent = root \<and> n = dir \<and> m = {O_DIRECTORY, O_PATH}
         \<or> n = base \<and> O_NOFOLLOW \<in> m)" if "validate dopt"
    by (intro exI [of _ "dir_name name"] exI [of _ "base_name name"])
       (use assms that in \<open>simp only: dir_base base_no_slash not_False_eq_True simp_thms\<close>)
  then show ?thesis by (simp add: open_confined_def resolve_how_def)
qed

lemma open_target_adds:
  assumes "open_target os dopt is_read pf name w = (fd, w')"
    and "\<And>k. P (Call_open (jail_root w) name \<lparr>how_flags = open_mode dopt is_read pf, how_mode = k, how_resolve = resolve_how (jail_root w)\<rparr>)"
    and "\<not> is_read \<Longrightarrow> P (Call_open (jail_root w) (dir_name name)
           \<lparr>how_flags = {O_DIRECTORY, O_PATH}, how_mode = 0, how_resolve = resolve_how (jail_root w)\<rparr>)"
    and "\<And>parent k. \<not> is_read \<Longrightarrow> cancreate dopt \<Longrightarrow> P (Call_open parent (base_name name)
           \<lparr>how_flags = open_mode dopt is_read pf, how_mode = k, how_resolve = resolve_how (jail_root w)\<rparr>)"
  shows "adds_calls P w w'"
  using assms unfolding open_target_def Let_def
  by (auto simp: adds_calls_def os_open_def split: prod.splits if_splits)

lemma open_target_confined:
  assumes "validate dopt \<longrightarrow> below_allowed dopt name" "open_target os dopt is_read pf name w = (fd, w')"
  shows "adds_calls (call_confined dopt (jail_root w)) w w'"
  using assms(2) by (rule open_target_adds) (rule open_confinedI [OF assms(1)], simp add: open_mode_def)+

lemma open_target_reads:
  assumes "open_target os dopt True pf name w = (fd, w')"
  shows "adds_calls call_reads w w'"
  using assms by (rule open_target_adds) (simp_all add: open_mode_def)

lemma check_file_adds:
  assumes "is_read \<or> P (Call_truncate fd)"
  shows "check_file os dopt is_read pf fd w = Inl (e, w') \<Longrightarrow> adds_calls P w w'"
    and "check_file os dopt is_read pf fd w = Inr (e, m, w') \<Longrightarrow> adds_calls P w w'"
  using assms unfolding check_file_def
  by (auto simp: adds_calls_def os_truncate_def os_close_def Let_def split: option.splits if_splits prod.splits)

definition access_world :: "(int \<times> 'w) + (int \<times> string option \<times> 'w) \<Rightarrow> 'w" where
  "access_world r = (case r of Inl (e, w) \<Rightarrow> w | Inr (e, m, w) \<Rightarrow> w)"

lemma validate_access_adds:
  fixes w :: "('f, 'z) server_world_scheme"
  assumes "is_read \<or> (\<forall>fd. P (Call_truncate fd))"
    and "\<And>name (w0 :: ('f, 'z) server_world_scheme) fd w'. resolve_name dopt filename = Inr name \<Longrightarrow> jail_root w0 = jail_root w
      \<Longrightarrow> open_target os dopt is_read pf name w0 = (fd, w') \<Longrightarrow> adds_calls P w0 w'"
  shows "adds_calls P w (access_world (validate_access os dopt filename is_read pf w))"
proof (cases "resolve_name dopt filename")
  case (Inl msg)
  then show ?thesis by (simp add: validate_access_def access_world_def Let_def adds_calls_def)
next
  case (Inr name)
  define w0 where "w0 = w\<lparr>tsize_mode := TSIZE_NAK, unlink_info := None\<rparr>"
  obtain fd w1 where o: "open_target os dopt is_read pf name w0 = (fd, w1)" by fastforce
  have "adds_calls P w w0" by (simp add: w0_def adds_calls_def)
  moreover have "adds_calls P w0 w1" using assms(2) [OF Inr _ o] by (simp add: w0_def)
  moreover have "adds_calls P w1 (access_world (check_file os dopt is_read pf fd w1))"
    using check_file_adds [of is_read P fd os dopt pf w1] assms(1)
    by (auto simp: access_world_def split: sum.splits prod.splits)
  ultimately show ?thesis
    unfolding validate_access_def Inr w0_def [symmetric] Let_def
    by (auto simp: o access_world_def adds_calls_def split: sum.splits prod.splits)
qed

lemma validate_access_confined:
  "adds_calls (call_confined dopt (jail_root w)) w (access_world (validate_access os dopt filename is_read pf w))"
proof (rule validate_access_adds)
  fix name w0 fd w'
  assume "resolve_name dopt filename = Inr name" "jail_root w0 = jail_root w" "open_target os dopt is_read pf name w0 = (fd, w')"
  moreover from this(1) have "validate dopt \<longrightarrow> below_allowed dopt name"
    unfolding below_allowed_def using resolve_name_allowed by metis
  ultimately show "adds_calls (call_confined dopt (jail_root w)) w0 w'"
    using open_target_confined by metis
qed simp

lemma validate_access_reads:
  "adds_calls call_reads w (access_world (validate_access os dopt filename True pf w))"
  by (rule validate_access_adds) (use open_target_reads in blast)+

lemma remap_validate_world:
  "adds_calls P w (access_world (validate_access os dopt filename is_read pf w))
     \<Longrightarrow> adds_calls P w (snd (remap_validate os dopt is_read pf filename w))"
  by (auto simp: remap_validate_def access_world_def adds_calls_def split: sum.splits prod.splits)

lemma rewrite_access_world:
  assumes "\<And>s w. Q w \<Longrightarrow> Q (snd (remap_validate os dopt is_read pf s w))" "Q w"
    and "rewrite_access L os dopt rules pf filename is_read w = Some (res, w')"
  shows "Q w'"
  using assms(2,3) rewrite_string_world [of Q, OF assms(1)] by (auto simp: rewrite_access_def)

lemma open_target_file: "open_target os dopt is_read pf name w = (fd, w') \<Longrightarrow> sv_file w' = sv_file w"
  by (auto simp: open_target_def os_open_def Let_def split: if_splits prod.splits)

lemma check_file_Inr:
  assumes "check_file os dopt is_read pf fd w = Inr (e, m, w')"
  shows "if e = 0 then \<exists>st f. sv_fstat os fd (fs w) = Some st \<and> sv_lock os fd (\<not> is_read) (fs w)
            \<and> (unixperms dopt \<or> st_mode st AND (if is_read then 4 else 2) \<noteq> 0) \<and> sv_file w' = Some (fd, f)
          else e = EACCESS \<and> m \<noteq> None \<and> sv_file w' = sv_file w"
  using assms
  by (auto simp: check_file_def os_truncate_def os_close_def EACCESS_def Let_def
      split: option.splits if_splits prod.splits)

lemma validate_access_Inr:
  assumes "validate_access os dopt filename is_read pf w = Inr (e, m, w')"
  obtains (refused) msg where "resolve_name dopt filename = Inl msg" "e = EACCESS" "m = Some msg" "sv_file w' = sv_file w"
  | (unopened) "e < 0" "m = None" "sv_file w' = sv_file w"
  | (opened) name fd w1 where "resolve_name dopt filename = Inr name"
      "open_target os dopt is_read pf name (w\<lparr>tsize_mode := TSIZE_NAK, unlink_info := None\<rparr>) = (fd, w1)" "0 \<le> fd"
      "check_file os dopt is_read pf fd w1 = Inr (e, m, w')" "sv_file w1 = sv_file w"
proof (cases "resolve_name dopt filename")
  case (Inl msg)
  then show thesis using assms by (intro refused) (auto simp: validate_access_def)
next
  case (Inr name)
  obtain fd w1 where o: "open_target os dopt is_read pf name (w\<lparr>tsize_mode := TSIZE_NAK, unlink_info := None\<rparr>) = (fd, w1)"
    by fastforce
  have same: "sv_file w1 = sv_file w" using open_target_file [OF o] by simp
  show thesis
  proof (cases "fd < 0")
    case True
    then show thesis using assms same by (intro unopened) (auto simp: validate_access_def Inr o)
  next
    case False
    then show thesis using assms by (intro opened [OF Inr o]) (auto simp: validate_access_def Inr o same)
  qed
qed

lemma nibble_cases: "c < 16 \<Longrightarrow> c \<in> set (map word_of_nat [0..<16])" for c :: u8
proof -
  assume "c < 16"
  then have "unat c < 16" by (simp add: word_less_nat_alt)
  then show ?thesis by (auto intro!: image_eqI [of _ _ "unat c"])
qed

text \<open>The reading of a hexadecimal digit.\<close>

definition hexval :: "char \<Rightarrow> u8" where
  "hexval c = (if 65 \<le> uc c then uc c - 55 else uc c - 48)"

lemma all_nibbles:
  "list_all (\<lambda>c. hexval (hexchar c) = c \<and> c_isxdigit (hexchar c)) (map word_of_nat [0..<16])"
  by code_simp

lemma hexval_hexchar: "c < 16 \<Longrightarrow> hexval (hexchar c) = c \<and> c_isxdigit (hexchar c)"
  using nibble_cases [of c] all_nibbles unfolding list_all_iff by blast

fun hex_bytes :: "string \<Rightarrow> u8 list" where
  "hex_bytes (a # b # s) = (push_bit 4 (hexval a) OR hexval b) # hex_bytes s"
| "hex_bytes _ = []"

lemma nibbles: "drop_bit 4 c < 16" "c AND 15 < 16" "push_bit 4 (drop_bit 4 c) OR (c AND 15) = c" for c :: u8
proof -
  show "c AND 15 < 16" using word_and_le1 [of c 15] by (rule order_le_less_trans) simp
  show "drop_bit 4 c < 16"
    using unat_bound [of c] by (simp add: word_less_nat_alt drop_bit_eq_div unat_div less_mult_imp_div_less)
  show "push_bit 4 (drop_bit 4 c) OR (c AND 15) = c"
  proof -
    have "c AND 15 = take_bit 4 c" by (simp add: take_bit_eq_mask mask_eq_exp_minus_1)
    then show ?thesis by (intro bit_word_eqI) (auto simp: bit_simps)
  qed
qed

lemma hex_bytes_macro:
  "hex_bytes (concat (map (\<lambda>c. [hexchar (drop_bit 4 c), hexchar (c AND 15)]) cs)) = cs"
  by (induction cs) (simp_all add: hexval_hexchar nibbles)

section \<open>Properties\<close>

text \<open>
  C8: A file is served only with permission: when \<open>validate_access\<close> succeeds, the name resolved, the
  file is open and locked, it is the one handed to the transfer, and it is readable (or, for an
  upload, writable) by everybody unless the daemon relies on Unix permissions.
\<close>

theorem access_needs_permission:
  assumes "validate_access os dopt filename is_read pf w = Inr (0, msg, w')"
  shows "\<exists>name fd w1 st f. resolve_name dopt filename = Inr name
    \<and> open_target os dopt is_read pf name (w\<lparr>tsize_mode := TSIZE_NAK, unlink_info := None\<rparr>) = (fd, w1) \<and> 0 \<le> fd
    \<and> sv_fstat os fd (fs w1) = Some st \<and> sv_lock os fd (\<not> is_read) (fs w1) \<and> sv_file w' = Some (fd, f)
    \<and> (unixperms dopt \<or> st_mode st AND (if is_read then 4 else 2) \<noteq> 0)"
  using assms
proof (cases rule: validate_access_Inr)
  case (opened name fd w1)
  from check_file_Inr [OF opened(4)] opened show ?thesis by auto
qed (simp_all add: EACCESS_def)

lemma example_access:
  "validate_access one_file_os (default_options\<lparr>secure := True\<rparr>) ''f'' True \<lparr>f_mode = ''octet'', f_convert = False\<rparr> example_server =
     Inr (0, None, example_server\<lparr>tsize_size := 2, tsize_mode := TSIZE_READ, unlink_info := None,
       calls := [Call_open AT_FDCWD ''f'' \<lparr>how_flags = {O_BINARY, O_RDONLY}, how_mode = 0, how_resolve = {}\<rparr>],
       sv_file := Some (5, \<lparr>f_in = ''hi'', f_in_error = False, f_ferror = False, f_out = [], f_room = None, f_flush = None\<rparr>)\<rparr>)"
  by (simp add: validate_access_def resolve_name_def default_options_def open_target_def os_open_def check_file_def
      one_file_os_def example_server_def open_mode_def resolve_how_def Let_def insert_commute daemon_world.defs)

theorem access_needs_permission_witness:
  "\<exists>name fd w1 st f. resolve_name (default_options\<lparr>secure := True\<rparr>) ''f'' = Inr name
    \<and> open_target one_file_os (default_options\<lparr>secure := True\<rparr>) True \<lparr>f_mode = ''octet'', f_convert = False\<rparr> name
        (example_server\<lparr>tsize_mode := TSIZE_NAK, unlink_info := None\<rparr>) = (fd, w1)
    \<and> sv_fstat one_file_os fd (fs w1) = Some st \<and> st_mode st AND 4 \<noteq> 0"
  using access_needs_permission [OF example_access] by (auto simp: default_options_def)

text \<open>
  A refusal is reported as the interface promises, and leaves no file behind: the code is the
  access violation with a message, or a negative error number without one, and the file of the
  request is what it was.
\<close>

theorem access_refusal:
  assumes "validate_access os dopt filename is_read pf w = Inr (e, msg, w')" "e \<noteq> 0"
  shows "(e < 0 \<and> msg = None \<or> e = EACCESS \<and> msg \<noteq> None) \<and> sv_file w' = sv_file w"
  using assms(1)
proof (cases rule: validate_access_Inr)
  case (opened name fd w1)
  with check_file_Inr [OF opened(4)] assms(2) show ?thesis by simp
qed simp_all

theorem access_refusal_witness:
  "\<exists>e msg w'. validate_access one_file_os example_dopt ''x'' True \<lparr>f_mode = ''octet'', f_convert = False\<rparr> example_server = Inr (e, msg, w')
     \<and> msg \<noteq> None \<and> sv_file w' = None"
proof -
  have "validate_access one_file_os example_dopt ''x'' True \<lparr>f_mode = ''octet'', f_convert = False\<rparr> example_server
      = Inr (EACCESS, Some ''Invalid pathname specified'', example_server\<lparr>tsize_mode := TSIZE_NAK, unlink_info := None\<rparr>)"
    by (simp add: validate_access_def resolve_name_def example_dopt_def default_options_def parse_path_eq)
  from this access_refusal [OF this] show ?thesis
    by (simp add: EACCESS_def example_server_def daemon_world.defs)
qed

text \<open>
  The macro for the client's address is exact: its text fits the static buffer of 64 bytes, has
  hexadecimal digits only, and determines the address it was made from.
\<close>

theorem address_macro_exact:
  assumes "rewrite_macros inet_ntop family addr CHR ''x'' = Some s"
  shows "length s \<le> 64 \<and> list_all c_isxdigit s
    \<and> hex_bytes s = take (if family = AF_INET then 4 else 16) addr"
proof -
  define n :: nat where "n = (if family = AF_INET then 4 else 16)"
  have s: "s = concat (map (\<lambda>c. [hexchar (drop_bit 4 c), hexchar (c AND 15)]) (take n addr))"
    using assms by (auto simp: rewrite_macros_def n_def split: sa_family.splits)
  have "length (concat (map (\<lambda>c. [hexchar (drop_bit 4 c), hexchar (c AND 15)]) cs)) = 2 * length cs" for cs
    by (induction cs) simp_all
  then have "length s \<le> 64" unfolding s by (auto simp: n_def)
  moreover have "list_all c_isxdigit s" unfolding s by (auto simp: list_all_iff hexval_hexchar nibbles)
  ultimately show ?thesis using hex_bytes_macro [of "take n addr"] by (simp add: s n_def)
qed

theorem address_macro_exact_witness:
  "hex_bytes (the (rewrite_macros (\<lambda>_ _. None) AF_INET [192, 0, 2, 34] CHR ''x'')) = [192, 0, 2, 34]"
  using address_macro_exact [of "\<lambda>_ _. None" AF_INET "[192, 0, 2, 34]"] by (simp add: rewrite_macros_def)

end
