(* ===== verification/Server.thy ===== *)
theory Server
  imports Access
begin

text \<open>
  The life of one request in the daemon (\<open>tftpd/tftpd.c\<close>): the filter of the listening
  loop, the order in which the forked worker gives up its privileges, the parsing of the
  request packet, the answer to it, and the transfer up to the end of the process.

  The worker is a machine: between two events it is in one of the places where the code
  waits for a packet, and an event is what \<open>recv_time\<close> ends with. A timeout first runs the
  handler \<open>timer\<close>, which may end the process. System calls are parameters as in the theory
  of file access; \<open>threaded\<close> tells whether the build has POSIX threads, and \<open>thread_error\<close>
  the result of starting the I/O thread. The system calls of the worker's start-up are
  recorded as actions, and a function gives the error number of each.
\<close>

section \<open>Definitions\<close>

subsection \<open>Listening\<close>

definition EX_IOERR :: int where "EX_IOERR = 74"
definition EX_PROTOCOL :: int where "EX_PROTOCOL = 76"

definition accept_request :: "sa_family \<Rightarrow> packet \<Rightarrow> int + packet option" where
  "accept_request family p =
     (if family \<noteq> AF_INET \<and> family \<noteq> AF_INET6 then Inl EX_PROTOCOL
      else if length p < 2 then Inr None
      else if th_opcode p \<noteq> RRQ \<and> th_opcode p \<noteq> WRQ then Inr None
      else Inr (Some p))"

datatype worker_action =
    Act_reopen_log | Act_close_listeners | Act_socket | Act_cap_bind | Act_bind | Act_cap_chroot | Act_chroot
  | Act_cap_setid | Act_setgid | Act_setuid | Act_cap_none | Act_connect | Act_serve

text \<open>The status with which a failing action ends the worker; the others cannot fail.\<close>

fun action_status :: "worker_action \<Rightarrow> int option" where
  "action_status Act_socket = Some EX_IOERR"
| "action_status Act_bind = Some EX_IOERR"
| "action_status Act_chroot = Some EX_OSERR"
| "action_status Act_setgid = Some EX_OSERR"
| "action_status Act_setuid = Some EX_OSERR"
| "action_status Act_connect = Some EX_IOERR"
| "action_status _ = None"

text \<open>\<open>EPERM\<close> means that there was no privilege to drop.\<close>

definition check_drop :: "worker_action \<Rightarrow> int \<Rightarrow> bool" where
  "check_drop a e \<longleftrightarrow> (a = Act_setgid \<or> a = Act_setuid) \<and> e = EPERM"

text \<open>\<open>result\<close> gives the error number of each action, or 0. The actions that took effect, and the status of an early exit.\<close>

fun run_actions :: "(worker_action \<Rightarrow> int) \<Rightarrow> worker_action list \<Rightarrow> worker_action list \<times> int option" where
  "run_actions result [] = ([], None)"
| "run_actions result (a # as) =
     (if result a \<noteq> 0 \<and> check_drop a (result a) then run_actions result as
      else if result a \<noteq> 0 \<and> action_status a \<noteq> None then ([], action_status a)
      else (case run_actions result as of (taken, e) \<Rightarrow> (a # taken, e)))"

definition worker_actions :: "daemon_options \<Rightarrow> worker_action list" where
  "worker_actions dopt =
     (if secure dopt then [Act_reopen_log] else []) @ [Act_close_listeners, Act_socket, Act_cap_bind, Act_bind]
     @ (if secure dopt then [Act_cap_chroot, Act_chroot] else [])
     @ [Act_cap_setid, Act_setgid, Act_setuid, Act_cap_none, Act_connect, Act_serve]"

definition run_worker :: "(worker_action \<Rightarrow> int) \<Rightarrow> daemon_options \<Rightarrow> worker_action list \<times> int option" where
  "run_worker result dopt = run_actions result (worker_actions dopt)"

subsection \<open>The request packet\<close>

definition find_format :: "string \<Rightarrow> formats option" where
  "find_format mode = List.find (\<lambda>pf. ascii_strcaseeq (f_mode pf) mode) format_table"

text \<open>
  The bytes from \<open>cp\<close> to the end of the packet, the number of strings so far, the format
  and the name of the option whose value comes next. \<open>Inl\<close> is the message of the refusal.
\<close>

function request_loop ::
  "char list \<Rightarrow> nat \<Rightarrow> formats option \<Rightarrow> string \<Rightarrow> 'a daemon_world_scheme
     \<Rightarrow> string \<times> 'a daemon_world_scheme + formats option \<times> 'a daemon_world_scheme" where
  "request_loop s argn pf opt w =
     (if s = [] \<or> hd s = NUL then Inr (pf, w)
      else
        let t = cstr s; rest = drop (length t) s; s' = tl rest in
        if rest = [] then Inl (''request not null-terminated'', w)
        else if argn = 0 then request_loop s' 1 pf opt w
        else if argn = 1 then
          (case find_format t of
             None \<Rightarrow> Inl (''unknown mode'', w)
           | Some f \<Rightarrow> request_loop s' 2 (Some f) opt w)
        else if even argn then request_loop s' (Suc argn) pf t w
        else request_loop s' (Suc argn) pf opt (parse_option opt t w))"
  by pat_completeness auto
termination
  by (relation "measure (\<lambda>(s, argn, pf, opt, w). length s)") (auto simp: cstr_def)

declare request_loop.simps [simp del]

text \<open>The limit on the size of an upload; \<open>None\<close> when the announced size is above it.\<close>

definition upload_limit :: "daemon_options \<Rightarrow> bool \<Rightarrow> 'a daemon_world_scheme \<Rightarrow> u64 option" where
  "upload_limit dopt is_read w =
     (if is_read then Some 0
      else if opt_requested PO_TSIZE w then
        (if max_upload dopt < po_uint (protocol_options w PO_TSIZE) then None
         else Some (po_uint (protocol_options w PO_TSIZE)))
      else Some (max_upload dopt))"

subsection \<open>The answer\<close>

datatype 'w answer =
    Answer_exit int 'w
  | Answer_send formats "packet option" 'w
  | Answer_recv formats "packet option" u64 'w

record 'rx server_env =
  se_libs :: "'rx remap_libs"
  se_rules :: "'rx rule list"
  se_strerror :: "int \<Rightarrow> string"
  se_mtu :: "sa_family \<Rightarrow> int \<times> int \<times> nat \<times> int"
  se_threaded :: bool
  se_thread_error :: int

definition refuse ::
  "'rx server_env \<Rightarrow> int \<Rightarrow> string option \<Rightarrow> 'a xfer_world_scheme \<Rightarrow> 'a xfer_world_scheme answer" where
  "refuse V e msg w = Answer_exit 0 (daemon_nak (se_strerror V) e msg w)"

definition begin_transfer ::
  "'rx server_env \<Rightarrow> daemon_options \<Rightarrow> u16 \<Rightarrow> formats \<Rightarrow> u64 \<Rightarrow> ('f, 'z) server_world_scheme
     \<Rightarrow> ('f, 'z) server_world_scheme answer" where
  "begin_transfer V dopt opcode pf limit w =
     (case negotiate_options dopt (of_int (tftp_max_blksize (se_mtu V) dopt (from_family w))) w of (oack, w') \<Rightarrow>
        if opcode = RRQ then Answer_send pf oack w'
        else if opcode = WRQ then Answer_recv pf oack limit w'
        else Answer_exit 0 w')"

definition open_request ::
  "'rx server_env \<Rightarrow> 'f server_os \<Rightarrow> daemon_options \<Rightarrow> u16 \<Rightarrow> formats \<Rightarrow> u64 \<Rightarrow> rewritten
     \<Rightarrow> ('f, 'z) server_world_scheme \<Rightarrow> ('f, 'z) server_world_scheme answer" where
  "open_request V os dopt opcode pf limit r w =
     (case exited w of
        Some c \<Rightarrow> Answer_exit c w
      | None \<Rightarrow>
          (case r of
             Denied msg \<Rightarrow> refuse V EACCESS msg w
           | Rewritten filename \<Rightarrow>
               (case (if sv_file w \<noteq> None then Inr (0, None, w)
                      else validate_access os dopt filename (opcode = RRQ) pf w) of
                  Inl (c, w') \<Rightarrow> Answer_exit c w'
                | Inr (ecode, msg, w') \<Rightarrow>
                    if ecode \<noteq> 0 then refuse V ecode msg w'
                    else begin_transfer V dopt opcode pf limit w')))"

text \<open>\<open>None\<close> is a request whose remapping does not return.\<close>

definition tftp ::
  "'rx server_env \<Rightarrow> 'f server_os \<Rightarrow> daemon_options \<Rightarrow> packet \<Rightarrow> ('f, 'z) server_world_scheme
     \<Rightarrow> ('f, 'z) server_world_scheme answer option" where
  "tftp V os dopt p w =
     (let opcode = th_opcode p; is_read = (opcode = RRQ) in
      if readonly dopt \<and> \<not> is_read then Some (refuse V EACCESS (Some ''server is readonly'') w)
      else
        (case request_loop (drop 2 p) 0 None [] w of
           Inl (msg, w1) \<Rightarrow> Some (refuse V EBADOP (Some msg) w1)
         | Inr (None, w1) \<Rightarrow> Some (refuse V EBADOP (Some ''missing mode'') w1)
         | Inr (Some pf, w1) \<Rightarrow>
             (case upload_limit dopt is_read w1 of
                None \<Rightarrow> Some (refuse V EACCESS (Some ''upload exceeds maximum size'') w1)
              | Some limit \<Rightarrow>
                  map_option (\<lambda>(r, w2). open_request V os dopt opcode pf limit r w2)
                    (rewrite_access (se_libs V) os dopt (se_rules V) pf (cstr (drop 2 p)) is_read (w1\<lparr>sv_file := None\<rparr>)))))"

subsection \<open>The transfer\<close>

definition IO_RING_MIN_BYTES :: u32 where
  "IO_RING_MIN_BYTES = 256 * 1024"

definition io_ring_slots :: "bool \<Rightarrow> 'a daemon_world_scheme \<Rightarrow> u32" where
  "io_ring_slots threaded w =
     (if threaded then
        let n = (segsize w + IO_RING_MIN_BYTES - 1) div segsize w;
            n1 = (if n < wndsize w then wndsize w else n);
            n2 = (if n1 < 2 then 2 else n1)
        in wndsize w + n2
      else wndsize w)"

definition daemon_xfer :: "u64 \<Rightarrow> 'a daemon_world_scheme \<Rightarrow> 'a daemon_world_scheme tftp_xfer" where
  "daemon_xfer limit w =
     \<lparr>blocksize = unat (segsize w), windowsize = unat (wndsize w), max_bytes = limit, rollover = rollover_val w,
      resend_oack = False, x_ops = daemon_xfer_ops, x_io_ops = Some tftp_io_xfer_ops\<rparr>"

datatype 'w worker =
    Awaiting_ack formats packet
  | Sending "'w tftp_xfer" send_state
  | Receiving "'w tftp_xfer" recv_state
  | Dallying u16
  | Gone int

definition close_file :: "('f, 'z) server_world_scheme \<Rightarrow> ('f, 'z) server_world_scheme" where
  "close_file w = w\<lparr>sv_file := None\<rparr>"

definition sendfile_end ::
  "'rx server_env \<Rightarrow> tftp_xfer_result \<Rightarrow> ('f, 'z) server_world_scheme \<Rightarrow> ('f, 'z) server_world_scheme" where
  "sendfile_end V res w =
     close_file (if status res = TFTP_XFER_READ_ERROR then daemon_nak (se_strerror V) (- res_error res) None w else w)"

definition sendfile_outcome ::
  "'rx server_env \<Rightarrow> ('f, 'z) server_world_scheme tftp_xfer \<Rightarrow> send_state outcome \<times> ('f, 'z) server_world_scheme
     \<Rightarrow> ('f, 'z) server_world_scheme worker \<times> ('f, 'z) server_world_scheme" where
  "sendfile_outcome V xfer r =
     (case r of
        (Waiting st, w) \<Rightarrow> (Sending xfer st, w)
      | (Finished res, w) \<Rightarrow> (Gone 0, sendfile_end V res w))"

definition start_sending ::
  "'rx server_env \<Rightarrow> formats \<Rightarrow> ('f, 'z) server_world_scheme
     \<Rightarrow> ('f, 'z) server_world_scheme worker \<times> ('f, 'z) server_world_scheme" where
  "start_sending V pf w =
     (case tftp_io_reader_start (snd (the (sv_file w))) (f_convert pf) (unat (wndsize w))
             (unat (io_ring_slots (se_threaded V) w)) (unat (segsize w)) (se_threaded V) (se_thread_error V) w of
        (None, w1) \<Rightarrow> (Gone 0, close_file (daemon_nak (se_strerror V) (- errno w1) None w1))
      | (Some s, w1) \<Rightarrow>
          sendfile_outcome V (daemon_xfer (- 1) w1) (tftp_xfer_send (daemon_xfer (- 1) w1) (w1\<lparr>io := s\<rparr>)))"

definition send_oack ::
  "formats \<Rightarrow> packet \<Rightarrow> ('f, 'z) server_world_scheme
     \<Rightarrow> ('f, 'z) server_world_scheme worker \<times> ('f, 'z) server_world_scheme" where
  "send_oack pf oack w =
     (case socket_send oack w of (r, w1) \<Rightarrow> if r \<noteq> 0 then (Gone 0, close_file w1) else (Awaiting_ack pf oack, w1))"

definition tftp_sendfile ::
  "'rx server_env \<Rightarrow> formats \<Rightarrow> packet option \<Rightarrow> ('f, 'z) server_world_scheme
     \<Rightarrow> ('f, 'z) server_world_scheme worker \<times> ('f, 'z) server_world_scheme" where
  "tftp_sendfile V pf oack w =
     (case oack of
        None \<Rightarrow> start_sending V pf w
      | Some p \<Rightarrow> send_oack pf p (w\<lparr>timeout := rexmtval w\<rparr>))"

definition oack_step ::
  "'rx server_env \<Rightarrow> formats \<Rightarrow> packet \<Rightarrow> recv_event \<Rightarrow> ('f, 'z) server_world_scheme
     \<Rightarrow> ('f, 'z) server_world_scheme worker \<times> ('f, 'z) server_world_scheme" where
  "oack_step V pf oack ev w =
     (case ev of
        RecvTimeout \<Rightarrow> send_oack pf oack w
      | RecvFail e \<Rightarrow> (Gone 0, close_file (w\<lparr>errno := e\<rparr>))
      | RecvRet n ack \<Rightarrow>
          if n < 2 then (Awaiting_ack pf oack, w)
          else if th_opcode ack = ERROR then (Gone 0, close_file w)
          else if 4 \<le> n \<and> th_opcode ack = ACK then
            (if th_block ack = 0 then start_sending V pf w else send_oack pf oack w)
          else (Awaiting_ack pf oack, w))"

definition discard_upload ::
  "'f server_os \<Rightarrow> daemon_options \<Rightarrow> ('f, 'z) server_world_scheme \<Rightarrow> ('f, 'z) server_world_scheme" where
  "discard_upload os dopt w =
     (let w1 = close_file (if cancreate dopt then w else snd (os_truncate os (fst (the (sv_file w))) w)) in
      if cancreate dopt then os_unlink os (ul_parent (the (unlink_info w1))) (ul_filename (the (unlink_info w1))) w1
      else w1)"

definition commit_upload :: "('f, 'z) server_world_scheme \<Rightarrow> ('f, 'z) server_world_scheme" where
  "commit_upload w = close_file w"

definition unlink_info_cleanup :: "'f server_os \<Rightarrow> ('f, 'z) server_world_scheme \<Rightarrow> ('f, 'z) server_world_scheme" where
  "unlink_info_cleanup os w =
     (case unlink_info w of
        None \<Rightarrow> w
      | Some u \<Rightarrow> (if ul_parent u \<noteq> jail_root w then os_close os (ul_parent u) w else w)\<lparr>unlink_info := None\<rparr>)"

definition recvfile_nak ::
  "'rx server_env \<Rightarrow> tftp_xfer_result \<Rightarrow> ('f, 'z) server_world_scheme \<Rightarrow> ('f, 'z) server_world_scheme" where
  "recvfile_nak V res w =
     (case status res of
        TFTP_XFER_BAD_DATA \<Rightarrow> daemon_nak (se_strerror V) EBADOP (Some ''data packet too large'') w
      | TFTP_XFER_SIZE_EXCEEDED \<Rightarrow> daemon_nak (se_strerror V) EACCESS (Some ''upload exceeds maximum size'') w
      | TFTP_XFER_WRITE_ERROR \<Rightarrow> daemon_nak (se_strerror V) (- res_error res) None w
      | _ \<Rightarrow> w)"

definition recvfile_end ::
  "'rx server_env \<Rightarrow> 'f server_os \<Rightarrow> daemon_options \<Rightarrow> tftp_xfer_result \<Rightarrow> ('f, 'z) server_world_scheme
     \<Rightarrow> ('f, 'z) server_world_scheme worker \<times> ('f, 'z) server_world_scheme" where
  "recvfile_end V os dopt res w =
     (let w1 = recvfile_nak V res w in
      if status res \<noteq> TFTP_XFER_OK then (Gone 0, unlink_info_cleanup os (discard_upload os dopt w1))
      else (Dallying (last_block res), commit_upload w1))"

definition recvfile_outcome ::
  "'rx server_env \<Rightarrow> 'f server_os \<Rightarrow> daemon_options \<Rightarrow> ('f, 'z) server_world_scheme tftp_xfer
     \<Rightarrow> recv_state outcome \<times> ('f, 'z) server_world_scheme
     \<Rightarrow> ('f, 'z) server_world_scheme worker \<times> ('f, 'z) server_world_scheme" where
  "recvfile_outcome V os dopt xfer r =
     (case r of
        (Waiting st, w) \<Rightarrow> (Receiving xfer st, w)
      | (Finished res, w) \<Rightarrow> recvfile_end V os dopt res w)"

definition tftp_recvfile ::
  "'rx server_env \<Rightarrow> 'f server_os \<Rightarrow> daemon_options \<Rightarrow> formats \<Rightarrow> packet option \<Rightarrow> u64 \<Rightarrow> ('f, 'z) server_world_scheme
     \<Rightarrow> ('f, 'z) server_world_scheme worker \<times> ('f, 'z) server_world_scheme" where
  "tftp_recvfile V os dopt pf oack limit w =
     (let initial_reply = (case oack of Some p \<Rightarrow> p | None \<Rightarrow> put16 ACK @ put16 0); xfer = daemon_xfer limit w in
      case tftp_io_writer_start (snd (the (sv_file w))) (f_convert pf) (unat (io_ring_slots (se_threaded V) w))
             (unat (segsize w)) (se_threaded V) (se_thread_error V) w of
        (None, w1) \<Rightarrow>
          (Gone 0, unlink_info_cleanup os (discard_upload os dopt (daemon_nak (se_strerror V) (- errno w1) None w1)))
      | (Some s, w1) \<Rightarrow>
          recvfile_outcome V os dopt xfer
            (tftp_xfer_recv xfer (int (blocksize xfer) + 4) (Some initial_reply) None (w1\<lparr>io := s\<rparr>)))"

definition start_worker ::
  "'rx server_env \<Rightarrow> 'f server_os \<Rightarrow> daemon_options \<Rightarrow> ('f, 'z) server_world_scheme answer
     \<Rightarrow> ('f, 'z) server_world_scheme worker \<times> ('f, 'z) server_world_scheme" where
  "start_worker V os dopt a =
     (case a of
        Answer_exit c w \<Rightarrow> (Gone c, w)
      | Answer_send pf oack w \<Rightarrow> tftp_sendfile V pf oack w
      | Answer_recv pf oack limit w \<Rightarrow> tftp_recvfile V os dopt pf oack limit w)"

text \<open>What the code after \<open>recv_time\<close> does with an event; a timeout has already passed the handler.\<close>

definition worker_event ::
  "'rx server_env \<Rightarrow> 'f server_os \<Rightarrow> daemon_options \<Rightarrow> ('f, 'z) server_world_scheme worker \<Rightarrow> recv_event
     \<Rightarrow> ('f, 'z) server_world_scheme \<Rightarrow> ('f, 'z) server_world_scheme worker \<times> ('f, 'z) server_world_scheme" where
  "worker_event V os dopt k ev w =
     (case k of
        Awaiting_ack pf oack \<Rightarrow> oack_step V pf oack ev w
      | Sending xfer st \<Rightarrow> sendfile_outcome V xfer (send_step xfer tftp_io_xfer_ops st ev w)
      | Receiving xfer st \<Rightarrow> recvfile_outcome V os dopt xfer (recv_step xfer tftp_io_xfer_ops st ev w)
      | Dallying lastb \<Rightarrow>
          (Gone 0,
           unlink_info_cleanup os
             (case ev of
                RecvRet n hdr \<Rightarrow> the (daemon_xfer_dally lastb (Some (n, hdr)) w)
              | _ \<Rightarrow> w\<lparr>timeout_quit := False\<rparr>))
      | Gone c \<Rightarrow> (Gone c, w))"

definition worker_step ::
  "'rx server_env \<Rightarrow> 'f server_os \<Rightarrow> daemon_options \<Rightarrow> ('f, 'z) server_world_scheme worker \<Rightarrow> recv_event
     \<Rightarrow> ('f, 'z) server_world_scheme \<Rightarrow> ('f, 'z) server_world_scheme worker \<times> ('f, 'z) server_world_scheme" where
  "worker_step V os dopt k ev w =
     (let w0 = (case k of Dallying _ \<Rightarrow> w\<lparr>timeout_quit := True\<rparr> | _ \<Rightarrow> w) in
      case k of
        Gone c \<Rightarrow> (Gone c, w)
      | _ \<Rightarrow>
          if ev = RecvTimeout then
            (case daemon_timer w0 of None \<Rightarrow> (Gone 0, w0) | Some w1 \<Rightarrow> worker_event V os dopt k ev w1)
          else worker_event V os dopt k ev w0)"

subsection \<open>An example request\<close>

definition example_env :: "unit server_env" where
  "example_env =
     \<lparr>se_libs = \<lparr>lib_locale = c_locale, lib_exec = (\<lambda>_ _ _. REG_NOMATCH), lib_ntop = (\<lambda>_ _. None)\<rparr>, se_rules = [],
      se_strerror = (\<lambda>_. ''error''), se_mtu = (\<lambda>_. (0, 1500, 4, 0)), se_threaded = False, se_thread_error = 0\<rparr>"

definition example_rrq :: packet where
  "example_rrq = put16 RRQ @ ''/srv/f'' @ [NUL] @ ''octet'' @ [NUL]"

section \<open>Lemmas\<close>

subsection \<open>What parsing and negotiation leave alone\<close>

definition same_server :: "('f, 'z) server_world_scheme \<Rightarrow> ('f, 'z) server_world_scheme \<Rightarrow> bool" where
  "same_server w w' \<longleftrightarrow> daemon_world.more w' = daemon_world.more w"

lemma same_server_fields:
  assumes "same_server w w'"
  shows "calls w' = calls w" "fs w' = fs w" "sv_file w' = sv_file w" "unlink_info w' = unlink_info w"
    "jail_root w' = jail_root w" "from_family w' = from_family w" "from_addr w' = from_addr w" "exited w' = exited w"
  using assms by (cases w; cases w'; simp add: same_server_def)+

lemma same_server_adds: "same_server w w' \<Longrightarrow> adds_calls P w w'"
  by (simp add: adds_calls_def same_server_fields)

lemma socket_send_more: "daemon_world.more (snd (socket_send p w)) = daemon_world.more w"
  by (simp add: socket_send_def split: list.splits)

lemma daemon_nak_same: "same_server w (daemon_nak se e m w)"
  by (simp add: same_server_def daemon_nak_def socket_send_more)

lemma parse_option_more: "daemon_world.more (parse_option opt val w) = daemon_world.more w"
proof -
  have "daemon_world.more (parse_option_in is opt val w) = daemon_world.more w" for "is"
    by (induction "is") (simp_all add: store_option_def set_option_def Let_def split: option.splits otype.splits)
  then show ?thesis by (simp add: parse_option_def)
qed

lemma request_loop_more:
  "daemon_world.more (case request_loop s argn pf opt w of Inl (msg, w') \<Rightarrow> w' | Inr (pf', w') \<Rightarrow> w') = daemon_world.more w"
proof (induction s argn pf opt w rule: request_loop.induct)
  case (1 s argn pf opt w)
  define t where "t = cstr s"
  define rest where "rest = drop (length t) s"
  show ?case
  proof (cases "s = [] \<or> hd s = NUL \<or> rest = []")
    case True
    then show ?thesis by (subst request_loop.simps) (auto simp: t_def rest_def Let_def)
  next
    case False
    note IH = 1 [OF _ t_def rest_def refl]
    show ?thesis
      using False IH unfolding request_loop.simps [of s argn pf opt w] t_def [symmetric] rest_def [symmetric] Let_def
      by (auto simp: parse_option_more split: option.splits)
  qed
qed

lemma set_option_more [simp]: "daemon_world.more (set_option i po w) = daemon_world.more w"
  by (simp add: set_option_def)

lemma grant_more [simp]:
  "daemon_world.more (grant i w) = daemon_world.more w" "daemon_world.more (grant_value i v w) = daemon_world.more w"
  by (simp_all add: grant_def grant_value_def)

lemma negotiate_more:
  "daemon_world.more (negotiate_blksize m w) = daemon_world.more w"
  "daemon_world.more (negotiate_windowsize dopt w) = daemon_world.more w"
  "daemon_world.more (negotiate_tsize w) = daemon_world.more w"
  "daemon_world.more (negotiate_timeout w) = daemon_world.more w"
  "daemon_world.more (negotiate_rollover w) = daemon_world.more w"
  "daemon_world.more (negotiate_cookie w) = daemon_world.more w"
  by (simp_all add: negotiate_blksize_def negotiate_windowsize_def negotiate_tsize_def negotiate_timeout_def
      negotiate_rollover_def negotiate_cookie_def Let_def split: prod.splits option.splits tsize_mode.splits)

lemma settle_options_more: "daemon_world.more (settle_options w) = daemon_world.more w"
proof -
  have "daemon_world.more (fold settle_option is w) = daemon_world.more w" for "is"
    by (induction "is" arbitrary: w) (simp_all add: settle_option_def Let_def split: otype.splits)
  then show ?thesis by (simp add: settle_options_def)
qed

lemma negotiate_options_more: "daemon_world.more (snd (negotiate_options dopt m w)) = daemon_world.more w"
  by (simp add: negotiate_options_def build_oack_def Let_def settle_options_more negotiate_more)

fun answer_world :: "'w answer \<Rightarrow> 'w" where
  "answer_world (Answer_exit c w) = w"
| "answer_world (Answer_send pf oack w) = w"
| "answer_world (Answer_recv pf oack limit w) = w"

lemma refuse_adds: "adds_calls P w (answer_world (refuse V e m w))"
  by (simp add: refuse_def same_server_adds daemon_nak_same)

lemma begin_transfer_adds: "adds_calls P w (answer_world (begin_transfer V dopt opcode pf limit w))"
proof -
  have "same_server w (snd (negotiate_options dopt m w))" for m by (simp add: same_server_def negotiate_options_more)
  from same_server_adds [OF this] show ?thesis by (auto simp: begin_transfer_def split: prod.splits) (metis snd_conv)+
qed

lemma open_request_adds:
  assumes "\<And>filename. adds_calls P w (access_world (validate_access os dopt filename (opcode = RRQ) pf w))"
  shows "adds_calls P w (answer_world (open_request V os dopt opcode pf limit r w))"
proof -
  have "adds_calls P w (answer_world (case a of Inl (c, w') \<Rightarrow> Answer_exit c w'
      | Inr (ecode, msg, w') \<Rightarrow> if ecode \<noteq> 0 then refuse V ecode msg w' else begin_transfer V dopt opcode pf limit w'))"
    if "adds_calls P w (access_world a)" for a
    using that adds_trans [OF _ refuse_adds] adds_trans [OF _ begin_transfer_adds]
    by (auto simp: access_world_def split: sum.splits prod.splits)
  from this [of "Inr (0, None, w)"] this [OF assms] show ?thesis
    by (auto simp: open_request_def adds_refl refuse_adds access_world_def split: option.splits rewritten.splits)
qed

lemma tftp_adds:
  fixes w :: "('f, 'z) server_world_scheme"
  assumes "tftp V os dopt p w = Some a"
    and "\<And>filename pf (w0 :: ('f, 'z) server_world_scheme). jail_root w0 = jail_root w \<Longrightarrow>
      adds_calls P w0 (access_world (validate_access os dopt filename (th_opcode p = RRQ) pf w0))"
  shows "adds_calls P w (answer_world a)"
proof (cases "readonly dopt \<and> th_opcode p \<noteq> RRQ")
  case True
  then show ?thesis using assms(1) by (auto simp: tftp_def refuse_adds)
next
  case False
  show ?thesis
  proof (cases "request_loop (drop 2 p) 0 None [] w")
    case (Inl r)
    then have "same_server w (snd r)"
      using request_loop_more [of "drop 2 p" 0 None "[]" w] by (auto simp: same_server_def split: prod.splits)
    then show ?thesis
      using assms(1) False Inl adds_trans [OF same_server_adds refuse_adds] by (auto simp: tftp_def Let_def split: prod.splits)
  next
    case (Inr r)
    obtain pf' w1 where r: "r = (pf', w1)" by (cases r)
    have "same_server w w1"
      using request_loop_more [of "drop 2 p" 0 None "[]" w] by (simp add: same_server_def Inr r)
    then have w1: "adds_calls P w w1" by (rule same_server_adds)
    show ?thesis
    proof (cases "pf' = None \<or> upload_limit dopt (th_opcode p = RRQ) w1 = None")
      case True
      then show ?thesis
        using assms(1) False Inr r adds_trans [OF w1 refuse_adds] by (auto simp: tftp_def Let_def split: option.splits)
    next
      case False2: False
      then obtain pf limit where pf: "pf' = Some pf" "upload_limit dopt (th_opcode p = RRQ) w1 = Some limit" by auto
      obtain res w2 where rw: "rewrite_access (se_libs V) os dopt (se_rules V) pf (cstr (drop 2 p)) (th_opcode p = RRQ)
            (w1\<lparr>sv_file := None\<rparr>) = Some (res, w2)" and a: "a = open_request V os dopt (th_opcode p) pf limit res w2"
        using assms(1) False Inr r pf by (auto simp: tftp_def Let_def)
      have "adds_calls P w (w1\<lparr>sv_file := None\<rparr>)" using w1 by (simp add: adds_calls_def)
      moreover have "adds_calls P w (snd (remap_validate os dopt (th_opcode p = RRQ) pf s w'))" if "adds_calls P w w'" for s w'
        using adds_trans [OF that remap_validate_world [OF assms(2)]] that by (simp add: adds_calls_def)
      ultimately have w2: "adds_calls P w w2" using rewrite_access_world [of "adds_calls P w", OF _ _ rw] by blast
      then have "adds_calls P w2 (answer_world a)"
        unfolding a by (intro open_request_adds assms(2)) (simp add: adds_calls_def)
      with w2 show ?thesis by (rule adds_trans)
    qed
  qed
qed

subsection \<open>The example\<close>

lemma example_config: "config_ok example_dopt"
proof -
  have "example_dopt\<lparr>dirs := []\<rparr> = default_options\<lparr>validate := True\<rparr>" by (simp add: example_dopt_def default_options_def)
  moreover have "options_ok (default_options\<lparr>validate := True\<rparr>)"
    using default_options_ok options_ok_core [of "default_options\<lparr>validate := True\<rparr>" default_options] by (simp add: options_core_def)
  ultimately show ?thesis
    by (simp add: config_ok_def example_dopt_def default_options_def plain_component_def is_valid_char_def OFF_T_MAX_def uc_def)
qed

lemma find_format_octet: "find_format ''octet'' = Some \<lparr>f_mode = ''octet'', f_convert = False\<rparr>"
  by (simp add: find_format_def format_table_def ascii_strcaseeq_def) code_simp

lemma example_loop:
  "request_loop (drop 2 example_rrq) 0 None [] w = Inr (Some \<lparr>f_mode = ''octet'', f_convert = False\<rparr>, w)"
  by (simp add: example_rrq_def request_loop.simps cstr_def find_format_octet)

lemma begin_transfer_calls: "calls (answer_world (begin_transfer V dopt opcode pf limit w)) = calls w"
  using begin_transfer_adds [of "\<lambda>_. False" w V dopt opcode pf limit] by (auto simp: adds_calls_def) (metis list.pred_inject list.exhaust append_Nil2)

lemma example_resolve: "resolve_name example_dopt ''/srv/f'' = Inr ''/srv/f''"
  by (simp add: resolve_name_def example_dopt_def default_options_def parse_path_eq path_components_def
      is_valid_char_def uc_def build_path_eq prefix_part_def)

lemma example_answer:
  "\<exists>a. tftp example_env one_file_os example_dopt example_rrq example_server = Some a
     \<and> calls (answer_world a) = [Call_open AT_FDCWD ''/srv/f'' \<lparr>how_flags = {O_BINARY, O_RDONLY}, how_mode = 0, how_resolve = {}\<rparr>]"
proof -
  have n: "normalize_path NORM_NONE (Some ''/srv/f'') = Some ''/srv/f''" by (simp add: normalize_path_def)
  have e: "sv_file example_server = None" "exited example_server = None" "calls example_server = []" "jail_root example_server = AT_FDCWD"
    by (simp_all add: example_server_def daemon_world.defs)
  have o: "th_opcode example_rrq = RRQ" "cstr (drop 2 example_rrq) = ''/srv/f''"
    by (simp_all add: example_rrq_def th_opcode_def cstr_def)
  have r: "rewrite_access (se_libs example_env) one_file_os example_dopt (se_rules example_env) pf ''/srv/f'' True w
      = Some (Rewritten ''/srv/f'', w)" for pf w
    by (simp add: rewrite_access_def rewrite_string_def example_env_def normalize_result_def example_dopt_def
        default_options_def n)
  have d: "normalize example_dopt = NORM_NONE" "\<not> unixperms example_dopt" "\<not> cancreate example_dopt" "\<not> readonly example_dopt"
    by (simp_all add: example_dopt_def default_options_def)
  have v: "\<exists>w'. validate_access one_file_os example_dopt ''/srv/f'' True \<lparr>f_mode = ''octet'', f_convert = False\<rparr> w = Inr (0, None, w')
      \<and> calls w' = calls w @ [Call_open (jail_root w) ''/srv/f'' \<lparr>how_flags = {O_BINARY, O_RDONLY}, how_mode = 0, how_resolve = resolve_how (jail_root w)\<rparr>]"
    for w :: "unit server_world"
    by (simp add: validate_access_def example_resolve open_target_def os_open_def check_file_def one_file_os_def
        open_mode_def Let_def d insert_commute)
  show ?thesis
    using v [of "example_server\<lparr>sv_file := None\<rparr>"]
    by (auto simp: tftp_def Let_def example_loop o upload_limit_def r open_request_def e d begin_transfer_calls resolve_how_def)
qed

subsection \<open>The ring of packets\<close>

lemma round_up_enough: "0 < s \<Longrightarrow> n \<le> (s + (n - 1)) div s * s" for n s :: nat
proof -
  assume "0 < s"
  then have "(s + (n - 1)) mod s < s" by simp
  moreover have "(s + (n - 1)) div s * s + (s + (n - 1)) mod s = s + (n - 1)" by (rule div_mult_mod_eq)
  ultimately show ?thesis by linarith
qed

lemma ring_slots_exact:
  assumes "0 < segsize w" "segsize w \<le> of_nat MAX_SEGSIZE" "wndsize w \<le> 32768"
  shows "unat (io_ring_slots True w) =
    unat (wndsize w) + max 2 (max (unat (wndsize w)) ((unat (segsize w) + 262143) div unat (segsize w)))"
proof -
  define s where "s = unat (segsize w)"
  define n where "n = unat (wndsize w)"
  have b: "s \<le> 65464" "0 < s" "n \<le> 32768"
    using assms by (simp_all add: s_def n_def word_le_nat_alt word_less_nat_alt MAX_SEGSIZE_def)
  have "unat (segsize w + IO_RING_MIN_BYTES - 1) = s + 262143"
    using b unfolding IO_RING_MIN_BYTES_def s_def
    by (subst unat_sub) (simp_all add: unat_word_ariths word_le_nat_alt)
  then have q: "unat ((segsize w + IO_RING_MIN_BYTES - 1) div segsize w) = (s + 262143) div s"
    by (simp add: unat_div s_def)
  define d where "d = (s + 262143) div s"
  have "d = Suc (262143 div s)" using b(2) by (simp add: d_def div_add_self1)
  then have d: "d \<le> 262144" using div_le_dividend [of 262143 s] by simp
  have "unat (wndsize w + (if (if d < n then n else d) < 2 then 2 else
      (if d < n then wndsize w else (segsize w + IO_RING_MIN_BYTES - 1) div segsize w))) = n + max 2 (max n d)"
    using d b(3) q by (auto simp: unat_word_ariths n_def d_def)
  then show ?thesis
    by (auto simp: io_ring_slots_def Let_def word_less_nat_alt q n_def d_def s_def split: if_splits)
qed

lemma ring_slots_window:
  assumes "0 < segsize w" "segsize w \<le> of_nat MAX_SEGSIZE" "wndsize w \<le> 32768"
  shows "unat (wndsize w) \<le> unat (io_ring_slots thr w)"
proof (cases thr)
  case True
  then show ?thesis using ring_slots_exact [OF assms] by simp
qed (simp add: io_ring_slots_def)

subsection \<open>The end of a transfer and of the privileges\<close>

lemma daemon_nak_fields:
  "calls (daemon_nak se e m w) = calls w" "sv_file (daemon_nak se e m w) = sv_file w"
  "unlink_info (daemon_nak se e m w) = unlink_info w" "jail_root (daemon_nak se e m w) = jail_root w"
  using same_server_fields [OF daemon_nak_same [of w se e m]] by simp_all

lemma recvfile_nak_fields:
  "calls (recvfile_nak V res w) = calls w" "sv_file (recvfile_nak V res w) = sv_file w"
  "unlink_info (recvfile_nak V res w) = unlink_info w"
  by (simp_all add: recvfile_nak_def daemon_nak_fields split: tftp_xfer_status.splits)

lemma cleanup_fields: "calls (unlink_info_cleanup os w) = calls w" "sv_file (unlink_info_cleanup os w) = sv_file w"
  by (simp_all add: unlink_info_cleanup_def os_close_def split: option.splits)

lemma discard_calls:
  "calls (discard_upload os dopt w) = calls w @
     [if cancreate dopt then Call_unlink (ul_parent (the (unlink_info w))) (ul_filename (the (unlink_info w)))
      else Call_truncate (fst (the (sv_file w)))]"
  "sv_file (discard_upload os dopt w) = None"
  by (simp_all add: discard_upload_def os_truncate_def os_unlink_def close_file_def Let_def split: prod.splits)

lemma run_actions_finished:
  "run_actions result as = (taken, None) \<Longrightarrow>
     taken = filter (\<lambda>a. \<not> (result a \<noteq> 0 \<and> check_drop a (result a))) as
     \<and> (\<forall>a \<in> set as. result a = 0 \<or> check_drop a (result a) \<or> action_status a = None)"
  by (induction as arbitrary: taken) (auto split: if_splits prod.splits)

lemma run_actions_prefix:
  "run_actions result as = (taken, Some e) \<Longrightarrow>
     \<exists>ys zs. as = ys @ zs \<and> zs \<noteq> [] \<and> taken = filter (\<lambda>a. \<not> (result a \<noteq> 0 \<and> check_drop a (result a))) ys
       \<and> action_status (hd zs) = Some e \<and> result (hd zs) \<noteq> 0"
proof (induction as arbitrary: taken)
  case (Cons a as)
  show ?case
  proof (cases "result a \<noteq> 0 \<and> \<not> check_drop a (result a) \<and> action_status a \<noteq> None")
    case True
    with Cons.prems show ?thesis by (intro exI [of _ "[]"] exI [of _ "a # as"]) auto
  next
    case False
    then obtain t where t: "run_actions result as = (t, Some e)"
        "taken = filter (\<lambda>a. \<not> (result a \<noteq> 0 \<and> check_drop a (result a))) [a] @ t"
      using Cons.prems by (auto split: if_splits prod.splits)
    from Cons.IH [OF t(1)] obtain ys zs where "as = ys @ zs" "zs \<noteq> []"
        "t = filter (\<lambda>a. \<not> (result a \<noteq> 0 \<and> check_drop a (result a))) ys"
        "action_status (hd zs) = Some e" "result (hd zs) \<noteq> 0" by blast
    then show ?thesis using t(2) by (intro exI [of _ "a # ys"] exI [of _ zs]) auto
  qed
qed simp

section \<open>Properties\<close>



text \<open>
  C14: A read-only daemon never touches a file: handling any packet only opens files for reading,
  and creates, truncates and removes nothing.
\<close>

theorem readonly_only_reads:
  assumes "readonly dopt" "tftp V os dopt p w = Some a"
  shows "\<exists>cs. calls (answer_world a) = calls w @ cs \<and> list_all call_reads cs"
proof (cases "th_opcode p = RRQ")
  case True
  have "adds_calls call_reads w (answer_world a)"
    using assms(2) by (rule tftp_adds) (simp add: True validate_access_reads)
  then show ?thesis by (simp add: adds_calls_def)
next
  case False
  then have "a = refuse V EACCESS (Some ''server is readonly'') w" using assms by (simp add: tftp_def)
  then show ?thesis using refuse_adds [of call_reads w V EACCESS] by (simp add: adds_calls_def)
qed

theorem readonly_only_reads_witness:
  "\<exists>a. tftp example_env one_file_os (example_dopt\<lparr>readonly := True\<rparr>) (put16 WRQ @ ''f'') example_server = Some a
     \<and> (\<exists>cs. calls (answer_world a) = cs \<and> list_all call_reads cs)"
proof -
  have o: "th_opcode (put16 WRQ @ ''f'') = WRQ" by (simp add: th_opcode_def)
  have "tftp example_env one_file_os (example_dopt\<lparr>readonly := True\<rparr>) (put16 WRQ @ ''f'') example_server
      = Some (refuse example_env EACCESS (Some ''server is readonly'') example_server)"
    unfolding tftp_def Let_def o by (simp add: opcode_defs)
  from this readonly_only_reads [OF _ this] show ?thesis by (simp add: example_server_def daemon_world.defs)
qed





text \<open>
  C35: An upload whose client disappears is not discarded: when the last timeout of a receiving
  worker expires, the process ends at once and neither truncates nor removes the partial file.
\<close>

theorem abandoned_upload_stays:
  assumes "maxtimeout w \<le> push_bit 1 (timeout w)"
  shows "worker_step V os dopt (Receiving xfer st) RecvTimeout w = (Gone 0, w)"
  using assms by (simp add: worker_step_def daemon_timer_def Let_def)

theorem abandoned_upload_stays_witness:
  "worker_step example_env one_file_os example_dopt
      (Receiving (daemon_xfer 1000 example_server)
         \<lparr>r_dp = 0, r_block = 5, r_last_received = 4, r_last_acked = 4, r_bytes = 2048, r_in_window = 0, r_reply = None\<rparr>)
      RecvTimeout (example_server\<lparr>timeout := 64, maxtimeout := 64\<rparr>)
     = (Gone 0, example_server\<lparr>timeout := 64, maxtimeout := 64\<rparr>)"
  by (rule abandoned_upload_stays) simp



end
