(* ===== verification/Client.thy ===== *)
theory Client
  imports Server File_Transfer
begin

text \<open>
  The client's protocol machine (\<open>tftp/tftp.c\<close>): the request packet, the parsing of an
  OACK, the choice of the packets it listens to, and the two transfers from the request to
  the exit status.

  Between two events the client waits for a packet; an event is a packet with the address
  it came from, a socket error or a timeout. A timeout first runs \<open>timer\<close>, which either
  resends or gives up by a jump to the command loop with \<open>EX_TEMPFAIL\<close>. A bitmap of options
  is a set. \<open>strerror\<close> and the system's path MTU are parameters as in the daemon; trace
  output and statistics are not represented. Buffers in a C string position end at their
  first NUL.
\<close>

section \<open>Definitions\<close>

subsection \<open>Options\<close>

record optreq =
  oq_options :: "protocol_option_enum set"
  oq_window :: u32
  oq_blksize :: u32
  oq_tsize :: int

definition optreq_init :: optreq where
  "optreq_init = \<lparr>oq_options = {}, oq_window = 1, oq_blksize = of_nat SEGSIZE, oq_tsize = - 1\<rparr>"

record tftp_options =
  trace :: bool
  no_options :: bool
  unsafe :: bool

text \<open>\<open>OPT_SPACE\<close> of a name, which includes the NULs of the name and of the value.\<close>

definition DIGIT_SPACE :: "nat \<Rightarrow> nat" where
  "DIGIT_SPACE bytes = (bytes * 5 + 1) div 2"

definition OPT_SPACE :: "string \<Rightarrow> nat" where
  "OPT_SPACE name = (length name + 1) + DIGIT_SPACE 8 + 1"

definition TFTP_OPTION_SPACE :: nat where
  "TFTP_OPTION_SPACE = OPT_SPACE ''blksize'' + OPT_SPACE ''windowsize'' + OPT_SPACE ''tsize''"

definition TFTP_REPLY_MAX_PACKET_SIZE :: nat where
  "TFTP_REPLY_MAX_PACKET_SIZE = max (TFTP_OPTION_SPACE + 2) (SEGSIZE + 4)"

definition request_pair :: "string \<Rightarrow> nat \<Rightarrow> char list" where
  "request_pair name v = name @ [NUL] @ decimal v @ [NUL]"

text \<open>The options that are asked for, and their text in the option buffer.\<close>

definition request_options :: "tftp_options \<Rightarrow> 'a common_options_scheme \<Rightarrow> u32 \<Rightarrow> optreq \<Rightarrow> optreq \<times> char list" where
  "request_options copt xopt max_blksize q =
     (if no_options copt then (optreq_init, [])
      else
        let bs = max_blksize; w0 = max_windowsize xopt;
            use_b = (bs \<noteq> of_nat SEGSIZE); use_w = (1 < w0); use_t = (0 \<le> oq_tsize q);
            win = (if use_w then w0 else 1)
        in (q\<lparr>oq_options := (if use_b then {PO_BLKSIZE} else {}) \<union> (if use_w then {PO_WINDOWSIZE} else {})
                \<union> (if use_t then {PO_TSIZE} else {}),
              oq_blksize := bs, oq_window := win\<rparr>,
            (if use_b then request_pair ''blksize'' (unat bs) else [])
            @ (if use_w then request_pair ''windowsize'' (unat win) else [])
            @ (if use_t then request_pair ''tsize'' (nat (oq_tsize q)) else [])))"

definition makerequest ::
  "tftp_options \<Rightarrow> 'a common_options_scheme \<Rightarrow> u32 \<Rightarrow> optreq \<Rightarrow> u16 \<Rightarrow> string \<Rightarrow> string \<Rightarrow> optreq \<times> (int + packet)" where
  "makerequest copt xopt max_blksize q request name mode =
     (case request_options copt xopt max_blksize q of (q', optionbuf) \<Rightarrow>
        (q', if MAX_SEGSIZE < (length name + 1) + (length mode + 1) + length optionbuf then Inl ENAMETOOLONG
             else Inr (put16 request @ name @ [NUL] @ mode @ [NUL] @ optionbuf)))"

text \<open>One accepted option of an OACK; \<open>None\<close> is the rejection of the packet.\<close>

definition oack_option :: "optreq \<Rightarrow> string \<Rightarrow> u64 \<Rightarrow> optreq \<Rightarrow> optreq option" where
  "oack_option req opt v ack =
     (let bad = oq_options ack \<union> (- oq_options req) in
      if ascii_strcaseeq opt ''blksize'' then
        (if PO_BLKSIZE \<in> bad \<or> v < of_nat MIN_SEGSIZE \<or> ucast (oq_blksize req) < v then None
         else Some (ack\<lparr>oq_blksize := ucast v, oq_options := insert PO_BLKSIZE (oq_options ack)\<rparr>))
      else if ascii_strcaseeq opt ''windowsize'' then
        (if PO_WINDOWSIZE \<in> bad \<or> v < 1 \<or> ucast (oq_window req) < v then None
         else Some (ack\<lparr>oq_window := ucast v, oq_options := insert PO_WINDOWSIZE (oq_options ack)\<rparr>))
      else if ascii_strcaseeq opt ''tsize'' then
        (if PO_TSIZE \<in> bad then None
         else Some (ack\<lparr>oq_tsize := sint v, oq_options := {PO_TSIZE}\<rparr>))
      else None)"

text \<open>The bytes from \<open>cp\<close> to the end of the packet.\<close>

function oack_loop :: "optreq \<Rightarrow> char list \<Rightarrow> optreq \<Rightarrow> optreq option" where
  "oack_loop req s ack =
     (if s = [] then Some ack
      else
        let opt = cstr s; r1 = drop (length opt) s; s1 = tl r1;
            val = cstr s1; r2 = drop (length val) s1; s2 = tl r2
        in if r1 = [] \<or> opt = [] \<or> s1 = [] \<or> r2 = [] \<or> val = [] then None
           else
             (case strtoumax val of
                Some (v, [], False) \<Rightarrow>
                  (case oack_option req opt v ack of
                     None \<Rightarrow> None
                   | Some ack' \<Rightarrow> oack_loop req s2 ack')
              | _ \<Rightarrow> None))"
  by pat_completeness auto
termination
  by (relation "measure (\<lambda>(req, s, ack). length s)") auto

declare oack_loop.simps [simp del]

definition parse_oack :: "optreq \<Rightarrow> packet \<Rightarrow> optreq option" where
  "parse_oack req p =
     (if length p \<le> 2 \<or> th_opcode p \<noteq> OACK then None else oack_loop req (drop 2 p) optreq_init)"

subsection \<open>The socket\<close>

record sock_addr =
  sa_fam :: sa_family
  sa_addr :: "u8 list"
  sa_port :: u16

definition address_match :: "sock_addr \<Rightarrow> sock_addr \<Rightarrow> bool" where
  "address_match a b =
     (sa_fam a = sa_fam b \<and> (case sa_fam a of AF_INET \<Rightarrow> sa_addr a = sa_addr b | AF_INET6 \<Rightarrow> sa_addr a = sa_addr b | _ \<Rightarrow> False))"

record client_world = xfer_world +
  serv_addr :: sock_addr
  serv_connected :: bool
  peer_addr :: sock_addr
  peer_connected :: bool
  peer_open :: bool

record client_env =
  ce_strerror :: "int \<Rightarrow> string"
  ce_socket :: bool
  ce_bind :: "nat \<Rightarrow> u16 \<Rightarrow> bool"
  ce_random :: u32
  ce_mtu :: "sa_family \<Rightarrow> int \<times> int \<times> nat \<times> int"
  ce_connect :: "sock_addr \<Rightarrow> bool"
  ce_fdopen :: bool
  ce_size :: "int option"

definition close_socket :: "'z client_world_scheme \<Rightarrow> 'z client_world_scheme" where
  "close_socket w = w\<lparr>peer_open := False\<rparr>"

text \<open>\<open>None\<close> is a search for a port that does not return.\<close>

definition open_socket ::
  "client_env \<Rightarrow> 'a common_options_scheme \<Rightarrow> 'z client_world_scheme \<Rightarrow> (int \<times> 'z client_world_scheme) option" where
  "open_socket E xopt w =
     (if \<not> serv_connected w then Some (EX_USAGE, w)
      else
        let w1 = (close_socket w)\<lparr>peer_addr := serv_addr w, peer_connected := False\<rparr> in
        if \<not> ce_socket E then Some (EX_OSERR, w1)
        else map_option (\<lambda>r. if r = None then (EX_OSERR, w1) else (0, w1\<lparr>peer_open := True\<rparr>))
               (pick_port_bind (ce_bind E) (ce_random E) xopt))"

definition client_accepts :: "tftp_options \<Rightarrow> sock_addr \<Rightarrow> packet \<Rightarrow> 'z client_world_scheme \<Rightarrow> bool" where
  "client_accepts copt sender p w \<longleftrightarrow>
     2 \<le> length p \<and> (address_match (peer_addr w) sender \<or> (\<not> peer_connected w \<and> unsafe copt))"

definition client_connect :: "client_env \<Rightarrow> sock_addr \<Rightarrow> 'z client_world_scheme \<Rightarrow> 'z client_world_scheme" where
  "client_connect E sender w =
     (if peer_connected w then w else w\<lparr>peer_addr := sender, peer_connected := ce_connect E sender\<rparr>)"

subsection \<open>Transfers\<close>

record client_job =
  job_put :: bool
  job_convert :: bool
  job_file :: FILE

datatype 'w client =
    Requesting client_job packet optreq
  | Uploading "'w tftp_xfer" send_state
  | Downloading "'w tftp_xfer" recv_state
  | Client_done int

datatype client_event = Packet_from sock_addr packet | Socket_error int | Client_timeout

definition EX_TEMPFAIL :: int where "EX_TEMPFAIL = 75"

definition client_exit ::
  "int \<Rightarrow> 'z client_world_scheme \<Rightarrow> 'z client_world_scheme client \<times> 'z client_world_scheme" where
  "client_exit e w = (Client_done e, close_socket w)"

definition client_fail ::
  "client_env \<Rightarrow> int \<Rightarrow> string option \<Rightarrow> int \<Rightarrow> 'z client_world_scheme
     \<Rightarrow> 'z client_world_scheme client \<times> 'z client_world_scheme" where
  "client_fail E error msg e w = client_exit e (snd (client_nak (ce_strerror E) error msg w))"

definition client_xfer :: "optreq \<Rightarrow> bool \<Rightarrow> 'z client_world_scheme tftp_xfer" where
  "client_xfer ack resend =
     \<lparr>blocksize = unat (oq_blksize ack), windowsize = unat (oq_window ack), max_bytes = - 1, rollover = 0,
      resend_oack = resend, x_ops = client_xfer_ops, x_io_ops = Some tftp_io_xfer_ops\<rparr>"

definition put_outcome ::
  "client_env \<Rightarrow> 'z client_world_scheme tftp_xfer \<Rightarrow> send_state outcome \<times> 'z client_world_scheme
     \<Rightarrow> 'z client_world_scheme client \<times> 'z client_world_scheme" where
  "put_outcome E xfer r =
     (case r of
        (Waiting st, w) \<Rightarrow> (Uploading xfer st, w)
      | (Finished res, w) \<Rightarrow>
          (case status res of
             TFTP_XFER_READ_ERROR \<Rightarrow> client_fail E (- res_error res) None EX_OSERR w
           | TFTP_XFER_SEND_ERROR \<Rightarrow> client_exit EX_OSERR w
           | TFTP_XFER_RECV_ERROR \<Rightarrow> client_exit EX_OSERR w
           | TFTP_XFER_PEER_ERROR \<Rightarrow> client_exit EX_PROTOCOL w
           | _ \<Rightarrow> client_exit 0 w))"

definition get_outcome ::
  "client_env \<Rightarrow> 'z client_world_scheme tftp_xfer \<Rightarrow> recv_state outcome \<times> 'z client_world_scheme
     \<Rightarrow> 'z client_world_scheme client \<times> 'z client_world_scheme" where
  "get_outcome E xfer r =
     (case r of
        (Waiting st, w) \<Rightarrow> (Downloading xfer st, w)
      | (Finished res, w) \<Rightarrow>
          (case status res of
             TFTP_XFER_BAD_DATA \<Rightarrow> client_fail E EBADOP (Some ''Data packet too large'') EX_PROTOCOL w
           | TFTP_XFER_WRITE_ERROR \<Rightarrow> client_fail E (- res_error res) None EX_OSERR w
           | TFTP_XFER_SEND_ERROR \<Rightarrow> client_exit EX_OSERR w
           | TFTP_XFER_RECV_ERROR \<Rightarrow> client_exit EX_OSERR w
           | TFTP_XFER_PEER_ERROR \<Rightarrow> client_exit EX_PROTOCOL w
           | _ \<Rightarrow> client_exit 0 w))"

text \<open>The field \<open>resend_oack\<close> is set from the window size, which is an unsigned number.\<close>

definition start_put ::
  "client_env \<Rightarrow> client_job \<Rightarrow> optreq \<Rightarrow> 'z client_world_scheme \<Rightarrow> 'z client_world_scheme client \<times> 'z client_world_scheme" where
  "start_put E job ack w =
     (case tftp_io_reader_start (job_file job) (job_convert job) (unat (oq_window ack)) (unat (oq_window ack))
             (unat (oq_blksize ack)) False 0 w of
        (None, w1) \<Rightarrow> client_fail E (- errno w1) None EX_OSERR w1
      | (Some s, w1) \<Rightarrow>
          let xfer = client_xfer ack (oq_window ack \<noteq> 0)
          in put_outcome E xfer (tftp_xfer_send xfer (w1\<lparr>io := s\<rparr>)))"

definition start_get ::
  "client_env \<Rightarrow> client_job \<Rightarrow> optreq \<Rightarrow> packet option \<Rightarrow> packet option \<Rightarrow> 'z client_world_scheme
     \<Rightarrow> 'z client_world_scheme client \<times> 'z client_world_scheme" where
  "start_get E job ack initial_reply initial_packet w =
     (case tftp_io_writer_start (job_file job) (job_convert job) (unat (oq_window ack)) (unat (oq_blksize ack)) False 0 w of
        (None, w1) \<Rightarrow> client_fail E (- errno w1) None EX_OSERR w1
      | (Some s, w1) \<Rightarrow>
          let xfer = client_xfer ack False
          in get_outcome E xfer
               (tftp_xfer_recv xfer (int (unat (oq_blksize ack)) + 5) initial_reply initial_packet (w1\<lparr>io := s\<rparr>)))"

definition send_request ::
  "client_job \<Rightarrow> packet \<Rightarrow> optreq \<Rightarrow> 'z client_world_scheme \<Rightarrow> 'z client_world_scheme client \<times> 'z client_world_scheme" where
  "send_request job req q w =
     (case socket_send req w of (r, w1) \<Rightarrow>
        if r \<noteq> 0 then client_exit EX_OSERR w1 else (Requesting job req q, w1))"

definition client_start ::
  "client_env \<Rightarrow> tftp_options \<Rightarrow> 'a common_options_scheme \<Rightarrow> client_job \<Rightarrow> string \<Rightarrow> string \<Rightarrow> 'z client_world_scheme
     \<Rightarrow> ('z client_world_scheme client \<times> 'z client_world_scheme) option" where
  "client_start E copt xopt job name mode w =
     (let tsz = (if \<not> job_put job then 0 else if job_convert job then - 1 else case ce_size E of Some n \<Rightarrow> n | None \<Rightarrow> - 1);
          request = (if job_put job then WRQ else RRQ)
      in map_option
           (\<lambda>(e, w1).
              if e \<noteq> 0 then client_exit e w1
              else if \<not> ce_fdopen E then client_exit EX_OSERR w1
              else
                (case makerequest copt xopt (of_int (tftp_max_blksize (ce_mtu E) xopt (sa_fam (peer_addr w1))))
                        (optreq_init\<lparr>oq_tsize := tsz\<rparr>) request name mode of
                   (q, Inl er) \<Rightarrow> client_exit EX_OSERR (w1\<lparr>errno := er\<rparr>)
                 | (q, Inr req) \<Rightarrow> send_request job req q (w1\<lparr>timeout := rexmtval w1\<rparr>)))
           (open_socket E xopt w))"

definition request_reply ::
  "client_env \<Rightarrow> client_job \<Rightarrow> packet \<Rightarrow> optreq \<Rightarrow> packet \<Rightarrow> 'z client_world_scheme
     \<Rightarrow> 'z client_world_scheme client \<times> 'z client_world_scheme" where
  "request_reply E job req q p w =
     (if th_opcode p = ERROR then client_exit EX_PROTOCOL w
      else if th_opcode p = OACK then
        (case parse_oack q p of
           None \<Rightarrow> client_fail E EOPTNEG (Some ''Invalid option response'') EX_PROTOCOL w
         | Some ack \<Rightarrow>
             if job_put job then start_put E job ack w
             else start_get E job ack (Some (put16 ACK @ put16 0)) None w)
      else if job_put job \<and> 4 \<le> length p \<and> th_opcode p = ACK \<and> th_block p = 0 then start_put E job optreq_init w
      else if \<not> job_put job \<and> 4 \<le> length p \<and> th_opcode p = DATA \<and> th_block p = 1 then
        start_get E job optreq_init None (Some p) w
      else (Requesting job req q, w))"

text \<open>The size of the buffer that the next packet is received into.\<close>

definition receive_size :: "'w client \<Rightarrow> nat" where
  "receive_size c = (case c of Downloading xfer st \<Rightarrow> blocksize xfer + 5 | _ \<Rightarrow> TFTP_REPLY_MAX_PACKET_SIZE)"

definition client_deliver ::
  "client_env \<Rightarrow> 'z client_world_scheme client \<Rightarrow> packet \<Rightarrow> 'z client_world_scheme
     \<Rightarrow> 'z client_world_scheme client \<times> 'z client_world_scheme" where
  "client_deliver E c p w =
     (case c of
        Requesting job req q \<Rightarrow> request_reply E job req q p w
      | Uploading xfer st \<Rightarrow> put_outcome E xfer (send_step xfer tftp_io_xfer_ops st (RecvRet (int (length p)) p) w)
      | Downloading xfer st \<Rightarrow> get_outcome E xfer (recv_step xfer tftp_io_xfer_ops st (RecvRet (int (length p)) p) w)
      | Client_done e \<Rightarrow> (Client_done e, w))"

definition client_local ::
  "client_env \<Rightarrow> 'z client_world_scheme client \<Rightarrow> recv_event \<Rightarrow> 'z client_world_scheme
     \<Rightarrow> 'z client_world_scheme client \<times> 'z client_world_scheme" where
  "client_local E c ev w =
     (case c of
        Requesting job req q \<Rightarrow> if ev = RecvTimeout then send_request job req q w else client_exit EX_OSERR w
      | Uploading xfer st \<Rightarrow> put_outcome E xfer (send_step xfer tftp_io_xfer_ops st ev w)
      | Downloading xfer st \<Rightarrow> get_outcome E xfer (recv_step xfer tftp_io_xfer_ops st ev w)
      | Client_done e \<Rightarrow> (Client_done e, w))"

definition client_step ::
  "client_env \<Rightarrow> tftp_options \<Rightarrow> 'z client_world_scheme client \<Rightarrow> client_event \<Rightarrow> 'z client_world_scheme
     \<Rightarrow> 'z client_world_scheme client \<times> 'z client_world_scheme" where
  "client_step E copt c ev w =
     (case c of
        Client_done e \<Rightarrow> (Client_done e, w)
      | _ \<Rightarrow>
          (case ev of
             Client_timeout \<Rightarrow>
               (case client_timer w of
                  None \<Rightarrow> (Client_done EX_TEMPFAIL, w)
                | Some w1 \<Rightarrow> client_local E c RecvTimeout w1)
           | Socket_error e \<Rightarrow> client_local E c (RecvFail e) w
           | Packet_from a p \<Rightarrow>
               (let p' = take (receive_size c) p in
                if client_accepts copt a p' w then client_deliver E c p' (client_connect E a w) else (c, w))))"

subsection \<open>An example\<close>

definition example_copt :: tftp_options where
  "example_copt = \<lparr>trace = False, no_options = False, unsafe = False\<rparr>"

definition example_xopt :: common_options where
  "example_xopt = \<lparr>portrange_from = 0, portrange_to = 0, blksize = 0, max_windowsize = 1\<rparr>"

definition example_env_client :: client_env where
  "example_env_client =
     \<lparr>ce_strerror = (\<lambda>_. ''error''), ce_socket = True, ce_bind = (\<lambda>_ _. True), ce_random = 0,
      ce_mtu = (\<lambda>_. (0, 1500, 4, 0)), ce_connect = (\<lambda>_. True), ce_fdopen = True, ce_size = None\<rparr>"

definition example_client :: client_world where
  "example_client =
     xfer_world.extend (world_of (writer_of False 1 512) 1000000)
       \<lparr>serv_addr = \<lparr>sa_fam = AF_INET, sa_addr = [192, 0, 2, 1], sa_port = 69\<rparr>, serv_connected = True,
        peer_addr = \<lparr>sa_fam = AF_INET, sa_addr = [192, 0, 2, 1], sa_port = 69\<rparr>, peer_connected = False, peer_open = True\<rparr>"

section \<open>Lemmas\<close>

subsection \<open>The request as the daemon reads it\<close>

lemma request_loop_token:
  assumes "NUL \<notin> set t" "t \<noteq> []"
  shows "request_loop (t @ NUL # s) argn pf opt w =
    (if argn = 0 then request_loop s 1 pf opt w
     else if argn = 1 then
       (case find_format t of None \<Rightarrow> Inl (''unknown mode'', w) | Some f \<Rightarrow> request_loop s 2 (Some f) opt w)
     else if even argn then request_loop s (Suc argn) pf t w
     else request_loop s (Suc argn) pf opt (parse_option opt t w))"
proof -
  have h: "t @ NUL # s \<noteq> []" "hd (t @ NUL # s) \<noteq> NUL" using assms by (cases t; auto)+
  show ?thesis
    using h by (subst request_loop.simps) (simp add: cstr_terminated [OF assms(1)] Let_def cong: option.case_cong)
qed

lemma request_loop_end: "request_loop [] argn pf opt w = Inr (pf, w)"
  by (subst request_loop.simps) simp

lemma request_loop_pair:
  assumes "NUL \<notin> set name" "name \<noteq> []" "even argn" "2 \<le> argn"
  shows "request_loop (request_pair name v @ s) argn pf opt w =
    request_loop s (argn + 2) pf name (parse_option name (decimal v) w)"
proof -
  have "request_pair name v @ s = name @ NUL # decimal v @ NUL # s" by (simp add: request_pair_def)
  then show ?thesis
    using assms by (simp add: request_loop_token decimal_no_NUL)
qed

lemma request_loop_last:
  assumes "NUL \<notin> set name" "name \<noteq> []" "even argn" "2 \<le> argn"
  shows "request_loop (request_pair name v) argn pf opt w = Inr (pf, parse_option name (decimal v) w)"
  using request_loop_pair [OF assms, of v "[]"] by (simp add: request_loop_end)

lemma option_names: "list_all (\<lambda>i. list_all (\<lambda>j. ascii_strcaseeq (po_name i) (po_name j) = (i = j)) all_options) all_options"
  by code_simp

lemma all_options_complete: "i \<in> set all_options"
  by (cases i) (simp_all add: all_options_def)

lemma option_name_eq: "ascii_strcaseeq (po_name i) (po_name j) \<longleftrightarrow> i = j"
  using option_names all_options_complete unfolding list_all_iff by blast

lemma option_uint_decimal: "v < 2 ^ 64 \<Longrightarrow> option_uint (decimal v) = Some (of_nat v)"
proof -
  assume v: "v < 2 ^ 64"
  obtain c s where d: "decimal v = c # s" by (cases "decimal v") auto
  then have "ascii_isdigit (deref (decimal v))" using decimal_digits [of v] by simp
  then show ?thesis using strtoumax_decimal [of "[]" v] v by (simp add: option_uint_def ascii_isdigit_iff)
qed

lemma parse_option_decimal:
  assumes "po_otype i = POT_UINT" "v < 2 ^ 64"
  shows "parse_option (po_name i) (decimal v) w =
    set_option i ((protocol_options w i)\<lparr>client_name := po_name i, po_uint := of_nat v,
      dsize := of_nat (length (decimal v) + 1), po_str := Some (decimal v), pof_req := True\<rparr>) w"
proof -
  have "parse_option_in is (po_name i) val w = store_option i (po_name i) val w" if "i \<in> set is" for "is" val
    using that by (induction "is") (auto simp: option_name_eq)
  moreover have "po_name i \<noteq> []" by (cases i) simp_all
  ultimately show ?thesis
    using assms by (simp add: parse_option_def all_options_complete store_option_def option_uint_decimal Let_def)
qed

text \<open>The table of options after the request.\<close>

definition asked :: "protocol_option_enum \<Rightarrow> nat \<Rightarrow> 'a daemon_world_scheme \<Rightarrow> 'a daemon_world_scheme" where
  "asked i v w = parse_option (po_name i) (decimal v) w"

definition asked_all :: "optreq \<Rightarrow> 'a daemon_world_scheme \<Rightarrow> 'a daemon_world_scheme" where
  "asked_all q w =
     (let w1 = (if PO_BLKSIZE \<in> oq_options q then asked PO_BLKSIZE (unat (oq_blksize q)) w else w);
          w2 = (if PO_WINDOWSIZE \<in> oq_options q then asked PO_WINDOWSIZE (unat (oq_window q)) w1 else w1)
      in if PO_TSIZE \<in> oq_options q then asked PO_TSIZE (nat (oq_tsize q)) w2 else w2)"

lemma request_options_loop:
  assumes "request_options copt xopt mb q0 = (q, buf)"
  shows "request_loop buf 2 pf opt w = Inr (pf, asked_all q w)"
proof -
  define b where "b = (\<not> no_options copt \<and> mb \<noteq> of_nat SEGSIZE)"
  define n where "n = (\<not> no_options copt \<and> 1 < max_windowsize xopt)"
  define t where "t = (\<not> no_options copt \<and> 0 \<le> oq_tsize q0)"
  have q: "oq_options q = (if b then {PO_BLKSIZE} else {}) \<union> (if n then {PO_WINDOWSIZE} else {}) \<union> (if t then {PO_TSIZE} else {})"
    and buf: "buf = (if b then request_pair ''blksize'' (unat (oq_blksize q)) else [])
            @ (if n then request_pair ''windowsize'' (unat (oq_window q)) else [])
            @ (if t then request_pair ''tsize'' (nat (oq_tsize q)) else [])"
    using assms by (auto simp: request_options_def b_def n_def t_def optreq_init_def Let_def split: if_splits)
  show ?thesis
    unfolding buf
    by (cases b; cases n; cases t)
       (simp_all add: asked_all_def asked_def q request_loop_pair request_loop_last request_loop_end Let_def)
qed

lemma makerequest_packet:
  assumes "makerequest copt xopt mb q0 request name mode = (q, Inr p)"
  obtains buf where "request_options copt xopt mb q0 = (q, buf)"
    "p = put16 request @ name @ [NUL] @ mode @ [NUL] @ buf" "length p \<le> MAX_SEGSIZE + 2"
proof -
  obtain q' buf where r: "request_options copt xopt mb q0 = (q', buf)" by fastforce
  then show thesis using that [of buf] assms by (auto simp: makerequest_def split: if_splits)
qed

definition fresh_table :: "'a daemon_world_scheme \<Rightarrow> bool" where
  "fresh_table w \<longleftrightarrow> (\<forall>i. \<not> pof_req (protocol_options w i) \<and> \<not> acked i w)"

lemma asked_entry:
  assumes "po_otype i = POT_UINT" "v < 2 ^ 64"
  shows "protocol_options (asked i v w) = (protocol_options w)(i := (protocol_options w i)\<lparr>client_name := po_name i,
      po_uint := of_nat v, dsize := of_nat (length (decimal v) + 1), po_str := Some (decimal v), pof_req := True\<rparr>)"
  unfolding asked_def parse_option_decimal [OF assms] by (simp add: set_option_def)

lemma request_options_set:
  assumes "request_options copt xopt mb q0 = (q, buf)"
  shows "oq_options q \<subseteq> {PO_BLKSIZE, PO_WINDOWSIZE, PO_TSIZE}" "oq_tsize q = oq_tsize q0 \<or> oq_tsize q = - 1"
    "PO_BLKSIZE \<notin> oq_options q \<Longrightarrow> oq_blksize q = of_nat SEGSIZE" "PO_WINDOWSIZE \<notin> oq_options q \<Longrightarrow> oq_window q = 1"
  using assms by (auto simp: request_options_def optreq_init_def Let_def split: if_splits)

lemma u32_as_u64: "(of_nat (unat (v :: u32)) :: u64) = ucast v" "unat v < 2 ^ 64"
  using unat_bound [of v] by simp_all

lemma asked_all_entry:
  assumes "oq_options q \<subseteq> {PO_BLKSIZE, PO_WINDOWSIZE, PO_TSIZE}" "oq_tsize q < 2 ^ 63"
  shows "protocol_options (asked_all q w) i =
    (if i \<in> oq_options q then
       let v = (if i = PO_BLKSIZE then unat (oq_blksize q) else if i = PO_WINDOWSIZE then unat (oq_window q) else nat (oq_tsize q))
       in (protocol_options w i)\<lparr>client_name := po_name i, po_uint := of_nat v, dsize := of_nat (length (decimal v) + 1),
            po_str := Some (decimal v), pof_req := True\<rparr>
     else protocol_options w i)"
proof -
  have "nat (oq_tsize q) < 2 ^ 64" using assms(2) by (simp add: nat_less_iff)
  then show ?thesis
    using assms(1) u32_as_u64(2) [of "oq_blksize q"] u32_as_u64(2) [of "oq_window q"]
    by (cases i) (auto simp: asked_all_def Let_def asked_entry)
qed

lemma asked_all_ok:
  assumes "fresh_table w" "oq_options q \<subseteq> {PO_BLKSIZE, PO_WINDOWSIZE, PO_TSIZE}" "oq_tsize q < 2 ^ 63"
  shows "table_ok (asked_all q w)" "\<not> acked i (asked_all q w)"
    and "opt_requested i (asked_all q w) \<longleftrightarrow> i \<in> oq_options q \<and> \<not> pof_refuse (protocol_options w i)"
proof -
  note e = asked_all_entry [OF assms(2,3), of w]
  have "nat (oq_tsize q) < 10 ^ 19" using assms(3) by (simp add: nat_less_iff)
  then have "length (decimal (nat (oq_tsize q))) \<le> 19" by (intro decimal_length_bound) simp_all
  moreover have "length (decimal (unat v)) \<le> 19" for v :: u32 using unat_bound [of v] by (intro decimal_length_bound) simp_all
  ultimately have "length (decimal (if i = PO_BLKSIZE then unat (oq_blksize q) else if i = PO_WINDOWSIZE then unat (oq_window q)
      else nat (oq_tsize q))) \<le> 19" for i by simp
  then have len: "length (decimal (if i = PO_BLKSIZE then unat (oq_blksize q) else if i = PO_WINDOWSIZE then unat (oq_window q)
      else nat (oq_tsize q))) < 65535" for i by (rule le_less_trans) simp
  show "table_ok (asked_all q w)"
    using assms(1) len unfolding table_ok_def option_ok_def e
    by (auto simp: fresh_table_def Let_def po_name_short decimal_no_NUL)
  show "\<not> acked i (asked_all q w)" "opt_requested i (asked_all q w) \<longleftrightarrow> i \<in> oq_options q \<and> \<not> pof_refuse (protocol_options w i)"
    using assms(1) by (auto simp: e fresh_table_def Let_def opt_requested_def)
qed

subsection \<open>The OACK as the client reads it\<close>

lemma touches_mono: "touches a w w' \<Longrightarrow> a \<subseteq> b \<Longrightarrow> touches b w w'"
  by (auto simp: touches_def)

lemma oack_text:
  assumes "\<not> reject_all_options dopt" "table_ok w" and w': "w' = snd (negotiate_options dopt m w)"
    and g: "g = filter (\<lambda>i. acked i w' \<and> opt_requested i w) all_options"
  shows "fst (negotiate_options dopt m w) =
    (if g = [] then None
     else Some (put16 OACK @ concat (map (\<lambda>i. client_name (protocol_options w i) @ [NUL]
            @ option_text i (protocol_options w' i) @ [NUL]) g)))"
proof -
  define w6 where "w6 = negotiate_cookie (negotiate_rollover (negotiate_timeout (negotiate_tsize
          (negotiate_windowsize dopt (negotiate_blksize m w)))))"
  have n: "negotiate_options dopt m w = build_oack w6" unfolding w6_def by (rule negotiated_world [OF assms(1)])
  then have w'6: "protocol_options w' i = settled i (protocol_options w6 i)" for i
    by (simp add: w' snd_build_oack settle_options_entry)
  have t: "touches UNIV w w6"
    unfolding w6_def
    by (rule touches_mono [OF touches_trans [OF touches_blksize touches_trans [OF touches_windowsize touches_trans [OF touches_tsize
          touches_trans [OF touches_timeout touches_trans [OF touches_rollover touches_cookie]]]]]]) simp
  have "opt_granted (protocol_options w6 i) \<longleftrightarrow> acked i w' \<and> opt_requested i w" for i
    using t by (auto simp: w'6 opt_granted_def opt_requested_def touches_def)
  then have g6: "granted_options w6 = g" by (simp add: granted_options_def g)
  have "option_text i (settled i (protocol_options w6 i)) = option_text i (protocol_options w6 i)" if "i \<in> set g" for i
    using that unfolding g6 [symmetric] by (auto simp: granted_options_def option_text_def settled_def split: otype.splits)
  then have "map (\<lambda>i. client_name (protocol_options w6 i) @ [NUL] @ option_text i (protocol_options w6 i) @ [NUL]) g
      = map (\<lambda>i. client_name (protocol_options w i) @ [NUL] @ option_text i (protocol_options w' i) @ [NUL]) g"
    using t by (intro map_cong) (simp_all add: w'6 touches_def)
  moreover have "table_ok w6" unfolding w6_def by (rule negotiated_table_ok [OF assms(2)])
  ultimately show ?thesis unfolding n using build_oack_text(1) [of w6] by (simp only: g6)
qed

lemma oack_loop_end [simp]: "oack_loop req [] ack = Some ack"
  by (subst oack_loop.simps) simp

lemma oack_loop_pair:
  assumes "NUL \<notin> set opt" "opt \<noteq> []"
  shows "oack_loop req (request_pair opt (unat v) @ s) ack =
    (case oack_option req opt v ack of None \<Rightarrow> None | Some ack' \<Rightarrow> oack_loop req s ack')"
proof -
  have "strtoumax (decimal (unat v)) = Some (v, [], False)"
    using strtoumax_decimal [of "[]" "unat v"] unat_bound [of v] by (simp add: ascii_isdigit_iff)
  then show ?thesis
    using assms by (subst oack_loop.simps)
      (simp add: request_pair_def cstr_terminated decimal_no_NUL Let_def cong: option.case_cong)
qed

lemma oack_loop_last:
  assumes "NUL \<notin> set opt" "opt \<noteq> []"
  shows "oack_loop req (request_pair opt (unat v)) ack = oack_option req opt v ack"
  using oack_loop_pair [OF assms, of req v "[]" ack] by (simp split: option.splits)

lemma client_option_names:
  "ascii_strcaseeq ''blksize'' ''blksize''"
  "\<not> ascii_strcaseeq ''windowsize'' ''blksize''" "ascii_strcaseeq ''windowsize'' ''windowsize''"
  "\<not> ascii_strcaseeq ''tsize'' ''blksize''" "\<not> ascii_strcaseeq ''tsize'' ''windowsize''" "ascii_strcaseeq ''tsize'' ''tsize''"
  using option_name_eq [of PO_BLKSIZE PO_BLKSIZE] option_name_eq [of PO_WINDOWSIZE PO_BLKSIZE]
    option_name_eq [of PO_WINDOWSIZE PO_WINDOWSIZE] option_name_eq [of PO_TSIZE PO_BLKSIZE]
    option_name_eq [of PO_TSIZE PO_WINDOWSIZE] option_name_eq [of PO_TSIZE PO_TSIZE] by simp_all

text \<open>The options of an answer to the client's request, in the order of the daemon's table.\<close>

lemma answer_options:
  assumes "\<And>i. P i \<Longrightarrow> i \<in> {PO_BLKSIZE, PO_WINDOWSIZE, PO_TSIZE}"
  shows "filter P all_options =
    (if P PO_BLKSIZE then [PO_BLKSIZE] else []) @ (if P PO_TSIZE then [PO_TSIZE] else []) @ (if P PO_WINDOWSIZE then [PO_WINDOWSIZE] else [])"
  using assms [of PO_BLKSIZE2] assms [of PO_COOKIE] assms [of PO_ROLLOVER] assms [of PO_TIMEOUT] assms [of PO_UTIMEOUT]
  by (auto simp: all_options_def)

lemma ucast_back: "(ucast (ucast (x :: u32) :: u64) :: u32) = x"
  by (rule bit_word_eqI) (auto simp: bit_simps)

lemma oack_loop_answer:
  assumes "b \<longrightarrow> PO_BLKSIZE \<in> oq_options req \<and> of_nat MIN_SEGSIZE \<le> bs \<and> bs \<le> oq_blksize req"
    and "n \<longrightarrow> PO_WINDOWSIZE \<in> oq_options req \<and> 1 \<le> win \<and> win \<le> oq_window req"
    and "t \<longrightarrow> PO_TSIZE \<in> oq_options req"
  shows "\<exists>ack. oack_loop req
      ((if b then request_pair ''blksize'' (unat (ucast bs :: u64)) else [])
       @ (if t then request_pair ''tsize'' (unat (tv :: u64)) else [])
       @ (if n then request_pair ''windowsize'' (unat (ucast win :: u64)) else [])) optreq_init = Some ack
    \<and> oq_blksize ack = (if b then bs else of_nat SEGSIZE) \<and> oq_window ack = (if n then win else 1)"
proof -
  have le: "(ucast x :: u64) \<le> ucast y" if "x \<le> y" for x y :: u32 using that by (simp add: word_le_nat_alt unat_ucast_wider)
  have bv: "\<not> (ucast bs :: u64) < of_nat MIN_SEGSIZE" "\<not> ucast (oq_blksize req) < (ucast bs :: u64)" if b
    using assms(1) that le [of bs "oq_blksize req"] le [of "of_nat MIN_SEGSIZE" bs]
    by (simp_all add: not_less MIN_SEGSIZE_def)
  have wv: "\<not> (ucast win :: u64) < 1" "\<not> ucast (oq_window req) < (ucast win :: u64)" if n
    using assms(2) that le [of win "oq_window req"] le [of 1 win] by (auto simp: not_less)
  show ?thesis
    using assms bv wv
    by (cases b; cases n; cases t)
       (simp_all add: oack_loop_pair oack_loop_last oack_option_def client_option_names optreq_init_def ucast_back)
qed

lemma option_text_pair:
  "po_otype i = POT_UINT \<Longrightarrow> po_name i @ [NUL] @ option_text i po @ [NUL] = request_pair (po_name i) (unat (po_uint po))"
  by (simp add: option_text_def request_pair_def)

lemma negotiation_agreement:
  assumes req: "request_options copt xopt mb q0 = (q, buf)" "oq_tsize q0 < 2 ^ 63"
    and w: "fresh_table w" "protocol_options v = protocol_options (asked_all q w)" "timers_ok v"
    and lim: "\<not> reject_all_options dopt" "of_nat MIN_SEGSIZE \<le> m" "m \<le> of_nat MAX_SEGSIZE" "1 \<le> max_windowsize dopt"
    and neg: "negotiate_options dopt m v = (oack, v')"
  shows "\<exists>ack. (case oack of None \<Rightarrow> Some optreq_init | Some p \<Rightarrow> parse_oack q p) = Some ack
    \<and> oq_blksize ack = segsize v' \<and> oq_window ack = wndsize v' \<and> rollover_val v' = 0"
proof -
  have q: "oq_options q \<subseteq> {PO_BLKSIZE, PO_WINDOWSIZE, PO_TSIZE}" "oq_tsize q < 2 ^ 63"
    using request_options_set(1,2) [OF req(1)] req(2) by auto
  note A = asked_all_ok [OF w(1) q] and e = asked_all_entry [OF q, of w]
  have v: "table_ok v" "\<And>i. \<not> acked i v" "\<And>i. opt_requested i v = opt_requested i (asked_all q w)"
    using A w(2) by (simp_all add: table_ok_def opt_requested_def)
  have v': "v' = snd (negotiate_options dopt m v)" by (simp add: neg)
  note N = negotiation_parameters [OF lim w(3) v(2), folded v']
  define P where "P i \<longleftrightarrow> acked i v' \<and> opt_requested i v" for i
  have P: "P i \<longleftrightarrow> acked i v'" "P i \<Longrightarrow> i \<in> oq_options q" for i
    using N(6) [of i] v(3) [of i] A(3) [of i] by (auto simp: P_def)
  have val: "opt_value PO_BLKSIZE v = ucast (oq_blksize q)" if "P PO_BLKSIZE"
    using P(2) [OF that] by (simp add: w(2) e u32_as_u64 Let_def)
  have valw: "opt_value PO_WINDOWSIZE v = ucast (oq_window q)" if "P PO_WINDOWSIZE"
    using P(2) [OF that] by (simp add: w(2) e u32_as_u64 Let_def)
  have le: "x \<le> y" if "(ucast x :: u64) \<le> ucast y" for x y :: u32
    using that by (simp add: word_le_nat_alt unat_ucast_wider)
  have B: "PO_BLKSIZE \<in> oq_options q \<and> of_nat MIN_SEGSIZE \<le> segsize v' \<and> segsize v' \<le> oq_blksize q \<and> opt_value PO_BLKSIZE v' = ucast (segsize v')"
    if "P PO_BLKSIZE" using N(1) P that val le by (auto simp: blksize_settled_def)
  have W: "PO_WINDOWSIZE \<in> oq_options q \<and> 1 \<le> wndsize v' \<and> wndsize v' \<le> oq_window q \<and> opt_value PO_WINDOWSIZE v' = ucast (wndsize v')"
    if "P PO_WINDOWSIZE" using N(2) P that valw le by (auto simp: window_settled_def)
  have no: "\<not> P PO_ROLLOVER" "\<not> P PO_BLKSIZE2" using P(2) q(1) by blast+
  have fin: "segsize v' = (if P PO_BLKSIZE then segsize v' else of_nat SEGSIZE)" "wndsize v' = (if P PO_WINDOWSIZE then wndsize v' else 1)"
    "rollover_val v' = 0"
    using N(1,2,5) P(1) no by (auto simp: blksize_settled_def window_settled_def)
  define g where "g = filter P all_options"
  have g: "g = (if P PO_BLKSIZE then [PO_BLKSIZE] else []) @ (if P PO_TSIZE then [PO_TSIZE] else []) @ (if P PO_WINDOWSIZE then [PO_WINDOWSIZE] else [])"
    unfolding g_def by (rule answer_options) (use P(2) q(1) in blast)
  have names: "client_name (protocol_options v i) = po_name i" if "P i" for i using P(2) [OF that] by (simp add: w(2) e Let_def)
  define body where "body = concat (map (\<lambda>i. client_name (protocol_options v i) @ [NUL] @ option_text i (protocol_options v' i) @ [NUL]) g)"
  have oack: "oack = (if g = [] then None else Some (put16 OACK @ body))"
    using oack_text [OF lim(1) v(1) v' g_def [unfolded P_def]] by (simp add: neg body_def)
  have body: "body = (if P PO_BLKSIZE then request_pair ''blksize'' (unat (ucast (segsize v') :: u64)) else [])
       @ (if P PO_TSIZE then request_pair ''tsize'' (unat (opt_value PO_TSIZE v')) else [])
       @ (if P PO_WINDOWSIZE then request_pair ''windowsize'' (unat (ucast (wndsize v') :: u64)) else [])"
    using names B W option_text_pair [of PO_BLKSIZE] option_text_pair [of PO_TSIZE] option_text_pair [of PO_WINDOWSIZE]
    unfolding body_def g by simp
  obtain ack where ack: "oack_loop q body optreq_init = Some ack" "oq_blksize ack = segsize v'" "oq_window ack = wndsize v'"
    using oack_loop_answer [of "P PO_BLKSIZE" q "segsize v'" "P PO_WINDOWSIZE" "wndsize v'" "P PO_TSIZE" "opt_value PO_TSIZE v'"]
      B W P(2) fin unfolding body [symmetric] by auto
  have "g \<noteq> [] \<Longrightarrow> body \<noteq> []" unfolding body g by (auto simp: request_pair_def split: if_splits)
  then have "parse_oack q (put16 OACK @ body) = Some ack" if "g \<noteq> []"
    using ack(1) that by (simp add: parse_oack_def th_opcode_def)
  moreover have "body = []" if "g = []" using that by (simp add: body_def)
  ultimately show ?thesis using ack fin(3) by (auto simp: oack)
qed

lemma oack_option_sound:
  assumes "oack_option req opt v ack = Some ack'"
    and "oq_options ack \<subseteq> oq_options req" "of_nat MIN_SEGSIZE \<le> oq_blksize ack" "oq_blksize ack \<le> max (of_nat SEGSIZE) (oq_blksize req)"
      "1 \<le> oq_window ack" "oq_window ack \<le> max 1 (oq_window req)"
  shows "oq_options ack' \<subseteq> oq_options req" "of_nat MIN_SEGSIZE \<le> oq_blksize ack'" "oq_blksize ack' \<le> max (of_nat SEGSIZE) (oq_blksize req)"
      "1 \<le> oq_window ack'" "oq_window ack' \<le> max 1 (oq_window req)"
proof -
  have narrow: "of_nat k \<le> (ucast v :: u32) \<and> (ucast v :: u32) \<le> y"
    if "\<not> v < of_nat k" "\<not> ucast y < v" "k < 2 ^ 32" for k and y :: u32
  proof -
    have "unat v \<le> unat y" using that(2) by (simp add: not_less word_le_nat_alt unat_ucast_wider)
    then have "unat (ucast v :: u32) = unat v"
      using unat_bound [of y] by (simp add: unsigned_ucast_eq take_bit_nat_eq_self_iff)
    then show ?thesis
      using that \<open>unat v \<le> unat y\<close> by (simp add: not_less word_le_nat_alt unat_of_nat_small unat_of_nat)
  qed
  show "oq_options ack' \<subseteq> oq_options req" "of_nat MIN_SEGSIZE \<le> oq_blksize ack'" "oq_blksize ack' \<le> max (of_nat SEGSIZE) (oq_blksize req)"
      "1 \<le> oq_window ack'" "oq_window ack' \<le> max 1 (oq_window req)"
    using assms narrow [of MIN_SEGSIZE "oq_blksize req"] narrow [of 1 "oq_window req"]
    by (auto simp: oack_option_def Let_def MIN_SEGSIZE_def max.coboundedI2 split: if_splits)
qed

lemma oack_loop_sound:
  "oack_loop req s ack = Some ack' \<Longrightarrow> oq_options ack \<subseteq> oq_options req \<Longrightarrow> of_nat MIN_SEGSIZE \<le> oq_blksize ack
    \<Longrightarrow> oq_blksize ack \<le> max (of_nat SEGSIZE) (oq_blksize req) \<Longrightarrow> 1 \<le> oq_window ack \<Longrightarrow> oq_window ack \<le> max 1 (oq_window req)
    \<Longrightarrow> oq_options ack' \<subseteq> oq_options req \<and> of_nat MIN_SEGSIZE \<le> oq_blksize ack' \<and> oq_blksize ack' \<le> max (of_nat SEGSIZE) (oq_blksize req)
      \<and> 1 \<le> oq_window ack' \<and> oq_window ack' \<le> max 1 (oq_window req)"
proof (induction req s ack rule: oack_loop.induct)
  case (1 req s ack)
  show ?case
  proof (cases "s = []")
    case True
    then show ?thesis using 1 by simp
  next
    case False
    then obtain v ack1 where step: "strtoumax (cstr (tl (drop (length (cstr s)) s))) = Some (v, [], False)"
        "oack_option req (cstr s) v ack = Some ack1"
        "oack_loop req (tl (drop (length (cstr (tl (drop (length (cstr s)) s)))) (tl (drop (length (cstr s)) s)))) ack1 = Some ack'"
        "\<not> (drop (length (cstr s)) s = [] \<or> cstr s = [] \<or> tl (drop (length (cstr s)) s) = []
          \<or> drop (length (cstr (tl (drop (length (cstr s)) s)))) (tl (drop (length (cstr s)) s)) = [] \<or> cstr (tl (drop (length (cstr s)) s)) = [])"
      using 1(2) by (subst (asm) oack_loop.simps)
        (auto simp: Let_def split: if_splits option.splits prod.splits list.splits bool.splits)
    note snd = oack_option_sound [OF step(2) 1(3-7)]
    show ?thesis
      by (rule 1(1) [OF False refl refl refl refl refl refl step(4) step(1) refl refl refl refl step(2) step(3) snd])
  qed
qed

lemma duplicate_blksize:
  fixes v1 v2 t :: u64
  assumes "PO_BLKSIZE \<in> oq_options req" "PO_TSIZE \<in> oq_options req"
    and "\<not> v1 < of_nat MIN_SEGSIZE" "\<not> ucast (oq_blksize req) < v1" "\<not> v2 < of_nat MIN_SEGSIZE" "\<not> ucast (oq_blksize req) < v2"
  shows "map_option oq_blksize (oack_loop req (request_pair ''blksize'' (unat v1) @ request_pair ''tsize'' (unat t)
      @ request_pair ''blksize'' (unat v2)) optreq_init) = Some (ucast v2)"
  using assms by (simp add: oack_loop_pair oack_loop_last oack_option_def client_option_names optreq_init_def)

lemma example_options:
  "request_options example_copt example_xopt 1432 optreq_init =
     (optreq_init\<lparr>oq_options := {PO_BLKSIZE}, oq_blksize := 1432\<rparr>, request_pair ''blksize'' 1432)"
  by (simp add: request_options_def example_copt_def example_xopt_def optreq_init_def SEGSIZE_def)

lemma example_makerequest:
  "makerequest example_copt example_xopt 1432 optreq_init RRQ ''f'' ''octet'' =
     (optreq_init\<lparr>oq_options := {PO_BLKSIZE}, oq_blksize := 1432\<rparr>,
      Inr (put16 RRQ @ ''f'' @ [NUL] @ ''octet'' @ [NUL] @ request_pair ''blksize'' 1432))"
  by (simp add: makerequest_def example_options request_pair_def decimal_1432 MAX_SEGSIZE_def)

section \<open>Properties\<close>

text \<open>
  C11: What the client asks is what the daemon hears: the packet built by \<open>makerequest\<close> fits the
  protocol's limit, carries the opcode and the file name, and the daemon's parser finds in it the
  transfer mode and exactly the options of the client's request, with their values.
\<close>

theorem request_roundtrip:
  assumes "makerequest copt xopt max_blksize q0 request name mode = (q, Inr p)"
    and "name \<noteq> []" "NUL \<notin> set name" "mode \<noteq> []" "NUL \<notin> set mode" "find_format mode = Some pf"
  shows "th_opcode p = request \<and> cstr (drop 2 p) = name \<and> length p \<le> MAX_SEGSIZE + 2
    \<and> request_loop (drop 2 p) 0 None [] w = Inr (Some pf, asked_all q w)"
proof -
  obtain buf where r: "request_options copt xopt max_blksize q0 = (q, buf)"
    and p: "p = put16 request @ name @ NUL # mode @ NUL # buf" and len: "length p \<le> MAX_SEGSIZE + 2"
    using makerequest_packet [OF assms(1)] by auto
  have "request_loop (drop 2 p) 0 None [] w = request_loop buf 2 (Some pf) [] w"
    using assms(2-6) by (simp add: p request_loop_token)
  then show ?thesis
    using request_options_loop [OF r] len cstr_terminated [OF assms(3)] by (simp add: p th_opcode_def)
qed

theorem request_roundtrip_witness:
  "request_loop (''f'' @ [NUL] @ ''octet'' @ [NUL] @ request_pair ''blksize'' 1432) 0 None [] example_server =
     Inr (Some \<lparr>f_mode = ''octet'', f_convert = False\<rparr>, asked PO_BLKSIZE 1432 example_server)"
  using request_roundtrip [OF example_makerequest, of "\<lparr>f_mode = ''octet'', f_convert = False\<rparr>" example_server]
  by (simp add: find_format_octet asked_all_def optreq_init_def)

text \<open>
  C7: Both ends agree on the transfer: for every request of the client and every configuration of the
  daemon that negotiates at all, the client accepts the daemon's OACK, or gets none, and in either
  case the block size and the window it then uses are those the daemon uses, with the same roll-over
  of block numbers.
\<close>

theorem negotiation_agrees:
  assumes "makerequest copt xopt max_blksize q0 request name mode = (q, Inr p)" "oq_tsize q0 < 2 ^ 63"
    and "name \<noteq> []" "NUL \<notin> set name" "mode \<noteq> []" "NUL \<notin> set mode" "find_format mode = Some pf" "fresh_table w"
    and "request_loop (drop 2 p) 0 None [] w = Inr (Some pf', w1)" "protocol_options v = protocol_options w1" "timers_ok v"
    and "\<not> reject_all_options dopt" "of_nat MIN_SEGSIZE \<le> m" "m \<le> of_nat MAX_SEGSIZE" "1 \<le> max_windowsize dopt"
    and "negotiate_options dopt m v = (oack, v')"
  shows "\<exists>ack. (case oack of None \<Rightarrow> Some optreq_init | Some packet \<Rightarrow> parse_oack q packet) = Some ack
    \<and> blocksize (client_xfer ack b) = unat (segsize v') \<and> windowsize (client_xfer ack b) = unat (wndsize v')
    \<and> rollover (client_xfer ack b) = rollover_val v'"
proof -
  obtain buf where r: "request_options copt xopt max_blksize q0 = (q, buf)"
    and p: "p = put16 request @ name @ NUL # mode @ NUL # buf"
    using makerequest_packet [OF assms(1)] by auto
  have "request_loop (drop 2 p) 0 None [] w = Inr (Some pf, asked_all q w)"
    using assms(3-7) request_options_loop [OF r] by (simp add: p request_loop_token)
  then have "protocol_options v = protocol_options (asked_all q w)" using assms(9,10) by simp
  from negotiation_agreement [OF r assms(2,8) this assms(11-16)]
  show ?thesis by (auto simp: client_xfer_def)
qed

theorem negotiation_agrees_witness:
  "\<exists>oack v' ack. negotiate_options example_limits 8192 (asked PO_BLKSIZE 1432 example_server) = (oack, v')
     \<and> (case oack of None \<Rightarrow> Some optreq_init
        | Some packet \<Rightarrow> parse_oack (optreq_init\<lparr>oq_options := {PO_BLKSIZE}, oq_blksize := 1432\<rparr>) packet) = Some ack
     \<and> unat (oq_blksize ack) = unat (segsize v')"
proof -
  let ?w = "example_server" and ?v = "asked PO_BLKSIZE 1432 example_server"
  have f: "fresh_table ?w"
    by (simp add: fresh_table_def example_server_def daemon_world.defs daemon_start_def xfer_world.defs option_init_def)
  have "timers_ok ?w"
    by (simp add: timers_ok_def example_server_def daemon_world.defs daemon_start_def world_of_def
        xfer_world.defs MIN_TIMEOUT_def MAX_TIMEOUT_def TIMEOUT_LIMIT_def USEC_PER_SEC_def)
  then have t: "timers_ok ?v" unfolding asked_def by (simp only: parse_option_frame)
  have l: "request_loop (drop 2 (put16 RRQ @ ''f'' @ [NUL] @ ''octet'' @ [NUL] @ request_pair ''blksize'' 1432)) 0 None [] ?w
      = Inr (Some \<lparr>f_mode = ''octet'', f_convert = False\<rparr>, ?v)"
    using request_options_loop [OF example_options, of "Some \<lparr>f_mode = ''octet'', f_convert = False\<rparr>" "[]" ?w]
      request_loop_token [of "''f''" "''octet'' @ NUL # request_pair ''blksize'' 1432" 0 None "[]" ?w]
      request_loop_token [of "''octet''" "request_pair ''blksize'' 1432" 1 None "[]" ?w]
    by (simp add: find_format_octet asked_all_def optreq_init_def)
  obtain oack v' where n: "negotiate_options example_limits 8192 ?v = (oack, v')" by fastforce
  have "oq_tsize optreq_init < 2 ^ 63" "\<not> reject_all_options example_limits" "of_nat MIN_SEGSIZE \<le> (8192 :: u32)"
    "(8192 :: u32) \<le> of_nat MAX_SEGSIZE" "1 \<le> max_windowsize example_limits"
    by (simp_all add: optreq_init_def example_limits_def MIN_SEGSIZE_def MAX_SEGSIZE_def)
  from negotiation_agrees [OF example_makerequest this(1) _ _ _ _ find_format_octet f l refl t this(2-5) n, of False] n
  show ?thesis by (auto simp: client_xfer_def)
qed



text \<open>
  C37: The option buffer of a request is never overrun: whatever the limits and the size of the file,
  the text of all options fits the space computed for it.
\<close>

theorem request_options_fit:
  assumes "oq_tsize q0 < 2 ^ 63"
  shows "length (snd (request_options copt xopt max_blksize q0)) \<le> TFTP_OPTION_SPACE"
proof -
  have t: "length (decimal (nat (oq_tsize q0))) \<le> 20"
    using assms by (intro decimal_length_bound) (simp_all add: nat_less_iff)
  have d: "length (decimal (unat v)) \<le> 20" for v :: u32 using unat_bound [of v] by (intro decimal_length_bound) simp_all
  show ?thesis
    using t d [of max_blksize] d [of "max_windowsize xopt"]
    by (simp add: request_options_def request_pair_def TFTP_OPTION_SPACE_def OPT_SPACE_def DIGIT_SPACE_def Let_def)
qed

theorem request_options_fit_witness:
  "length (snd (request_options example_copt example_xopt 1432 (optreq_init\<lparr>oq_tsize := 2 ^ 62\<rparr>))) \<le> 90"
  using request_options_fit [of "optreq_init\<lparr>oq_tsize := 2 ^ 62\<rparr>" example_copt example_xopt 1432]
  by (simp add: TFTP_OPTION_SPACE_def OPT_SPACE_def DIGIT_SPACE_def)

text \<open>
  C38: A packet from another host is ignored, unless the user asked for unsafe operation and no server
  has answered yet: neither the state of the transfer nor the world changes.
\<close>

theorem stranger_ignored:
  assumes "\<not> address_match (peer_addr w) sender" "peer_connected w \<or> \<not> unsafe copt"
  shows "client_step E copt c (Packet_from sender p) w = (c, w)"
  using assms by (auto simp: client_step_def client_accepts_def split: client.splits)

theorem stranger_ignored_witness:
  "client_step example_env_client example_copt (Client_done 0)
     (Packet_from \<lparr>sa_fam = AF_INET, sa_addr = [10, 0, 0, 1], sa_port = 69\<rparr> (ack_packet 0)) example_client = (Client_done 0, example_client)"
  by (rule stranger_ignored) (simp_all add: address_match_def example_client_def xfer_world.defs example_copt_def)


end
