(* ===== verification/Progress.thy ===== *)
theory Progress
  imports File_Transfer
begin

text \<open>
  Progress of a transfer. Where the network delivers every packet once and in order, and
  neither the sockets nor the files fail, a transfer comes to its end: both engines report
  success and the file is complete after at most two deliveries per block.

  The locales \<open>reliable_sender\<close> and \<open>reliable_receiver\<close> add to the contracts of the engines
  what an environment that does not fail gives them; \<open>fit\<close> says that it does not fail.
  They are interpreted on the adapter and both transports.
\<close>

section \<open>The sender\<close>

locale reliable_sender =
  xfer_sender xops xio vw sent src_ok held left
  for xops :: "'a world_scheme tftp_xfer_ops"
    and xio :: "'a world_scheme tftp_xfer_io_ops"
    and vw :: "'a world_scheme \<Rightarrow> 'v"
    and sent :: "'a world_scheme \<Rightarrow> packet list"
    and src_ok :: "'v \<Rightarrow> bool"
    and held :: "'v \<Rightarrow> packet list"
    and left :: "'v \<Rightarrow> char list list" +
  fixes fit :: "'a world_scheme \<Rightarrow> bool" and wnd :: "'v \<Rightarrow> nat"
  assumes send_fit: "fit w \<Longrightarrow> 0 \<le> fst (xsend xops p w) \<and> fit (snd (xsend xops p w))"
    and calls_fit: "fit w \<Longrightarrow> fit (xreceived xops p len w) \<and> fit (xretry_enter xops b w)
          \<and> fit (xretry_leave xops w) \<and> fit (xwait_begin xops w)"
    and window_fit: "fit w \<Longrightarrow> src_ok (vw w) \<Longrightarrow> \<exists>pc fin w'. read_window xio w = (Some (pc, fin), w')
          \<and> fit w' \<and> wnd (vw w') = wnd (vw w) \<and> pc = min (wnd (vw w)) (length (left (vw w)))"
    and packet_fit: "fit w \<Longrightarrow> fit (snd (read_packet xio n w)) \<and> wnd (vw (snd (read_packet xio n w))) = wnd (vw w)"
    and store_fit: "fit w \<Longrightarrow> fit (mstore xio dp h w) \<and> wnd (vw (mstore xio dp h w)) = wnd (vw w)"
    and release_fit: "fit w \<Longrightarrow> fit (read_release xio w) \<and> wnd (vw (read_release xio w)) = wnd (vw w)"
begin

lemma number_packets_fit:
  "number_packets xfer xio ns b w = (Some b', w') \<Longrightarrow> fit w \<Longrightarrow> fit w' \<and> wnd (vw w') = wnd (vw w)"
proof (induction ns arbitrary: b w)
  case (Cons n ns)
  obtain q w1 where rp: "read_packet xio n w = (q, w1)" by (metis surj_pair)
  then obtain dp where q: "q = Some dp" using Cons.prems(1) by (cases q) simp_all
  have w1: "fit w1" "wnd (vw w1) = wnd (vw w)" using packet_fit [OF Cons.prems(2), of n] rp by simp_all
  with Cons.IH [of "next_block b (rollover xfer)"] Cons.prems(1) store_fit [OF w1(1)] rp q show ?case
    by simp
qed simp

lemma send_packets_fit:
  assumes "window_at (rollover xfer) bl k pc (vw w)" "\<forall>n \<in> set ns. n < pc" "x_ops xfer = xops" "fit w"
    and small: "\<forall>d \<in> set bl. length d \<le> blocksize xfer"
  shows "\<exists>w'. send_packets xfer xio ns w = (None, w') \<and> fit w' \<and> vw w' = vw w
    \<and> sent w' = sent w @ map (\<lambda>n. block_packet (rollover xfer) bl (k + n)) ns"
  using assms(1-4)
proof (induction ns arbitrary: w)
  case (Cons n ns)
  let ?b = "block_packet (rollover xfer) bl (k + n)"
  have ok: "src_ok (vw w)" using Cons.prems(1) by (simp add: window_at_def)
  have n: "n < length (held (vw w))" "held (vw w) ! n = ?b" "k + n < length bl"
    using window_nth [OF Cons.prems(1), of n] Cons.prems(1,2) by (simp_all add: window_at_def)
  obtain dp where dp: "read_packet xio n w = (Some dp, w)" "take (length ?b) (mload xio dp w) = ?b"
    by (rule packet_heldE [OF ok n(1)]) (simp add: n(2))
  have len: "read_length xio n w = (int (length ?b), w)" using length_held [OF ok n(1)] n(2) by simp
  have sz: "length ?b = length (bl ! (k + n)) + 4" by (simp add: block_packet_def)
  obtain r1 w1 where s1: "xsend xops ?b w = (r1, w1)" by (metis surj_pair)
  have w1: "0 \<le> r1" "fit w1" "vw w1 = vw w" "sent w1 = sent w @ [?b]"
    using send_fit [OF Cons.prems(4), of ?b] send_vw [of ?b w] send_done [of ?b w] s1 by simp_all
  obtain w' where "send_packets xfer xio ns w1 = (None, w')" "fit w'" "vw w' = vw w1"
      "sent w' = sent w1 @ map (\<lambda>n. block_packet (rollover xfer) bl (k + n)) ns"
    using Cons.IH [of w1] Cons.prems w1 by auto
  moreover have "length (bl ! (k + n)) \<le> blocksize xfer" using small n(3) by simp
  ultimately show ?case using dp len s1 w1 sz Cons.prems(3) by (simp add: nat_add_distrib)
qed simp

lemma open_window_fit:
  assumes ok: "src_ok (vw w)" "left (vw w) = drop k bl" "k < length bl" and x: "x_ops xfer = xops"
    and f: "fit w" "wnd (vw w) = windowsize xfer" "0 < windowsize xfer"
    and small: "\<forall>d \<in> set bl. length d \<le> blocksize xfer"
  shows "\<exists>st w'. open_window xfer xio (seqno (rollover xfer) k) (of_nat (length (concat (take k bl)))) w = (Waiting st, w')
    \<and> send_inv xfer bl k st (vw w') \<and> s_packet_count st = min (windowsize xfer) (length bl - k)
    \<and> sent w' = sent w @ map (block_packet (rollover xfer) bl) [k..<k + s_packet_count st]
    \<and> fit w' \<and> wnd (vw w') = windowsize xfer"
proof -
  obtain pc fin w1 where rw: "read_window xio w = (Some (pc, fin), w1)"
    and w1: "fit w1" "wnd (vw w1) = windowsize xfer" "pc = min (windowsize xfer) (length bl - k)"
    using window_fit [OF f(1) ok(1)] f ok by auto
  have pc: "0 < pc" "pc \<le> windowsize xfer" using w1(3) ok(3) f(3) by auto
  define st where "st = \<lparr>s_block = seqno (rollover xfer) (k + pc), s_bytes = of_nat (length (concat (take k bl))),
    s_packet_count = pc, s_final = fin\<rparr>"
  obtain w2 where num: "number_packets xfer xio [0..<pc] (seqno (rollover xfer) k) w1 = (Some (seqno (rollover xfer) (k + pc)), w2)"
    and w2: "sent w2 = sent w" "send_inv xfer bl k st (vw w2)"
    using window_numbered [OF ok(1,2) rw pc] by (auto simp: st_def)
  note f2 = number_packets_fit [OF num w1(1)]
  let ?w = "xretry_enter xops False w2"
  have win: "window_at (rollover xfer) bl k pc (vw ?w)" using w2(2) by (simp add: send_inv_def st_def)
  obtain w3 where w3: "send_packets xfer xio [0..<pc] ?w = (None, w3)" "fit w3" "vw w3 = vw ?w"
      "sent w3 = sent ?w @ map (\<lambda>n. block_packet (rollover xfer) bl (k + n)) [0..<pc]"
    using send_packets_fit [OF win _ x _ small, of "[0..<pc]"] calls_fit [of w2] f2 by auto
  have "map (\<lambda>n. block_packet (rollover xfer) bl (k + n)) [0..<pc] = map (block_packet (rollover xfer) bl) [k..<k + pc]"
    by (intro nth_equalityI) simp_all
  moreover have "open_window xfer xio (seqno (rollover xfer) k) (of_nat (length (concat (take k bl)))) w
      = (Waiting st, xwait_begin xops w3)"
    using rw num pc x w3(1) by (simp add: open_window_def resend_window_def st_def)
  ultimately show ?thesis
    using w3 w2 f2 w1 calls_fit [of w3] by (auto simp: st_def)
qed

text \<open>The ACK of the last packet of the window: the next window is sent, or the transfer is over.\<close>

lemma ack_fit:
  assumes inv: "send_inv xfer bl k st (vw w)" and x: "x_ops xfer = xops"
    and f: "fit w" "wnd (vw w) = windowsize xfer" "0 < windowsize xfer"
    and small: "\<forall>d \<in> set bl. length d \<le> blocksize xfer"
    and e: "e = k + s_packet_count st"
  shows "\<exists>out w'. send_step xfer xio st (RecvRet 4 (ack_packet (seqno (rollover xfer) (e - 1)))) w = (out, w')
    \<and> (if e = length bl then \<exists>r. out = Finished r \<and> status r = TFTP_XFER_OK
       else \<exists>st'. out = Waiting st' \<and> send_inv xfer bl e st' (vw w')
         \<and> s_packet_count st' = min (windowsize xfer) (length bl - e)
         \<and> sent w' = sent w @ map (block_packet (rollover xfer) bl) [e..<e + s_packet_count st']
         \<and> fit w' \<and> wnd (vw w') = windowsize xfer)"
proof -
  let ?pc = "s_packet_count st" and ?a = "ack_packet (seqno (rollover xfer) (e - 1))"
  let ?w = "xreceived xops ?a 4 w"
  let ?v = "read_release xio ?w"
  have win: "window_at (rollover xfer) bl k ?pc (vw ?w)" using inv by (simp add: send_inv_def)
  then have ok: "src_ok (vw ?w)" and pc: "0 < ?pc" "k + ?pc \<le> length bl" by (simp_all add: window_at_def)
  have last: "?pc - 1 < length (held (vw ?w))" "th_block (held (vw ?w) ! (?pc - 1)) = seqno (rollover xfer) (e - 1)"
    using window_nth [OF win, of "?pc - 1"] pc e by (simp_all add: block_packet_def)
  obtain dp where dp: "read_packet xio (?pc - 1) ?w = (Some dp, ?w)"
      "th_block (mload xio dp ?w) = seqno (rollover xfer) (e - 1)"
    by (rule packet_heldE [OF ok last(1)]) (use last(2) in simp)
  have bytes: "sum_lengths xio [0..<?pc] (s_bytes st) ?w = (of_nat (length (concat (take e bl))), ?w)"
    using sum_lengths_spec [OF win, of 0] inv e by (simp add: send_inv_def take_add)
  have rel: "src_ok (vw ?v)" "sent ?v = sent w" "left (vw ?v) = drop e bl"
    using release_ok [of ?w] win e by (simp_all add: window_at_def add.commute)
  have f2: "fit ?v" "wnd (vw ?v) = windowsize xfer"
    using release_fit [of ?w] calls_fit [OF f(1)] f(2) by simp_all
  have step: "send_step xfer xio st (RecvRet 4 ?a) w =
      (if e = length bl then xfinish xfer TFTP_XFER_OK 0 (of_nat (length (concat (take e bl)))) None 0 0 ?v
       else open_window xfer xio (seqno (rollover xfer) e) (of_nat (length (concat (take e bl)))) ?v)"
    using dp bytes inv x e
    by (simp add: send_step_def send_packet_in_def window_acked_def send_inv_def opcode_defs)
  show ?thesis
  proof (cases "e = length bl")
    case True
    with step show ?thesis by (simp add: xfinish_def)
  next
    case False
    then have "e < length bl" using pc e by simp
    from open_window_fit [OF rel(1,3) this x f2 f(3) small] False step rel(2) show ?thesis by auto
  qed
qed

lemma send_start_fit:
  assumes "src_ok (vw w)" "left (vw w) = bl" "bl \<noteq> []" "x_ops xfer = xops" "x_io_ops xfer = Some xio"
    and "fit w" "wnd (vw w) = windowsize xfer" "0 < windowsize xfer" "\<forall>d \<in> set bl. length d \<le> blocksize xfer"
  shows "\<exists>st w'. tftp_xfer_send xfer w = (Waiting st, w') \<and> send_inv xfer bl 0 st (vw w')
    \<and> s_packet_count st = min (windowsize xfer) (length bl)
    \<and> sent w' = sent w @ map (block_packet (rollover xfer) bl) [0..<s_packet_count st]
    \<and> fit w' \<and> wnd (vw w') = windowsize xfer"
  using open_window_fit [of w 0 bl xfer] assms by (simp add: tftp_xfer_send_def)

end

section \<open>The receiver\<close>

text \<open>\<open>backlog\<close> counts the published packets that are not written yet; \<open>room\<close> is the size of the ring.\<close>

locale reliable_receiver =
  xfer_receiver xops xio vw sent snk_ok cap reserved accepted drained complete
  for xops :: "'a world_scheme tftp_xfer_ops"
    and xio :: "'a world_scheme tftp_xfer_io_ops"
    and vw :: "'a world_scheme \<Rightarrow> 'v"
    and sent :: "'a world_scheme \<Rightarrow> packet list"
    and snk_ok :: "'v \<Rightarrow> bool"
    and cap :: "'v \<Rightarrow> nat"
    and reserved :: "'v \<Rightarrow> nat \<Rightarrow> bool"
    and accepted :: "'v \<Rightarrow> char list \<Rightarrow> bool"
    and drained :: "'v \<Rightarrow> bool"
    and complete :: "'v \<Rightarrow> char list \<Rightarrow> bool" +
  fixes fit :: "'a world_scheme \<Rightarrow> bool" and backlog :: "'v \<Rightarrow> nat" and room :: "'v \<Rightarrow> nat"
  assumes send_fit: "fit w \<Longrightarrow> 0 \<le> fst (xsend xops p w) \<and> fit (snd (xsend xops p w))"
    and calls_fit: "fit w \<Longrightarrow> fit (xreceived xops p len w) \<and> fit (xretry_enter xops b w)
          \<and> fit (xretry_leave xops w) \<and> fit (xwait_begin xops w)"
    and reserve_fit: "fit w \<Longrightarrow> snk_ok (vw w) \<Longrightarrow> (\<And>dp. \<not> reserved (vw w) dp) \<Longrightarrow> backlog (vw w) < room (vw w) \<Longrightarrow>
          \<exists>dp w'. write_reserve xio w = (Some dp, w') \<and> fit w'
            \<and> backlog (vw w') = backlog (vw w) \<and> room (vw w') = room (vw w)"
    and publish_fit: "fit w \<Longrightarrow> snk_ok (vw w) \<Longrightarrow> reserved (vw w) dp \<Longrightarrow> 4 \<le> length p \<Longrightarrow> length p \<le> cap (vw w) + 4 \<Longrightarrow>
          \<exists>w'. write_publish xio (int (length p) - 4) (mstore xio dp p w) = (0, w') \<and> fit w'
            \<and> (\<forall>dp. \<not> reserved (vw w') dp) \<and> backlog (vw w') = Suc (backlog (vw w)) \<and> room (vw w') = room (vw w)"
    and drain_fit: "fit w \<Longrightarrow> snk_ok (vw w) \<Longrightarrow> (\<And>dp. \<not> reserved (vw w) dp) \<Longrightarrow>
          \<exists>w'. write_drain xio w = (0, w') \<and> fit w' \<and> (\<forall>dp. \<not> reserved (vw w') dp)
            \<and> backlog (vw w') = 0 \<and> room (vw w') = room (vw w)"
    and finish_fit: "fit w \<Longrightarrow> \<exists>w'. the (write_finish xio) w = (0, w') \<and> fit w' \<and> room (vw w') = room (vw w)"
begin

lemma recv_reserve_fit:
  assumes "fit w" "snk_ok (vw w)" "\<And>dp. \<not> reserved (vw w) dp" "backlog (vw w) < room (vw w)"
    and "x_ops xfer = xops" "r_reply st = None"
  shows "\<exists>dp w'. recv_reserve xfer xio st w = (Waiting (st\<lparr>r_dp := dp\<rparr>), w') \<and> fit w' \<and> sent w' = sent w
    \<and> backlog (vw w') = backlog (vw w) \<and> room (vw w') = room (vw w)"
proof -
  obtain dp w1 where w1: "write_reserve xio w = (Some dp, w1)" "fit w1"
      "backlog (vw w1) = backlog (vw w)" "room (vw w1) = room (vw w)"
    using reserve_fit [OF assms(1-4)] by blast
  have "sent w1 = sent w" using reserve_sent [of w] w1 by simp
  with w1 assms(5,6) calls_fit [OF w1(2)] calls_fit show ?thesis
    by (auto simp: recv_reserve_def recv_wait_def recv_retry_def)
qed

lemma ack_window_fit:
  assumes "fit w" "snk_ok (vw w)" "\<And>dp. \<not> reserved (vw w) dp" "x_ops xfer = xops"
  shows "\<exists>res w'. recv_ack_window xfer xio fin st w = (res, w') \<and> fit w'
    \<and> sent w' = sent w @ [ack_packet (r_last_acked st)] \<and> room (vw w') = room (vw w)
    \<and> (if fin then \<exists>r. res = Inr (Finished r) \<and> status r = TFTP_XFER_OK
       else res = Inl () \<and> (\<forall>dp. \<not> reserved (vw w') dp) \<and> backlog (vw w') = 0)"
proof -
  let ?a = "ack_packet (r_last_acked st)"
  obtain w1 where d: "write_drain xio w = (0, w1)" "fit w1" "\<forall>dp. \<not> reserved (vw w1) dp"
      "backlog (vw w1) = 0" "room (vw w1) = room (vw w)"
    using drain_fit [OF assms(1-3)] by blast
  obtain w2 where f: "(if fin then the (write_finish xio) w1 else (0, w1)) = (0, w2)" "fit w2"
      "room (vw w2) = room (vw w)" "\<not> fin \<Longrightarrow> w2 = w1"
    using finish_fit [OF d(2)] d by (cases fin) auto
  have s2: "sent w2 = sent w"
    using drain_sent [of w] finish_sent [of w1] d(1) f(1) by (auto split: if_splits)
  obtain r3 w3 where sd: "xsend xops ?a w2 = (r3, w3)" by (metis surj_pair)
  have w3: "0 \<le> r3" "fit w3" "vw w3 = vw w2" "sent w3 = sent w @ [?a]"
    using send_fit [OF f(2), of ?a] send_vw [of ?a w2] send_done [of ?a w2] sd s2 by simp_all
  show ?thesis
  proof (cases fin)
    case True
    with d(1) f sd w3 assms(4) calls_fit [OF w3(2)] show ?thesis
      by (simp add: recv_ack_window_def xfinish_def Let_def)
  next
    case False
    with d f sd w3 assms(4) show ?thesis by (simp add: recv_ack_window_def Let_def)
  qed
qed

text \<open>
  The expected block is accepted; at the end of a window, and after the last block, it is
  acknowledged.
\<close>

lemma block_fit:
  assumes inv: "recv_inv xfer m x st (vw w)" and x: "x_ops xfer = xops"
    and f: "fit w" "r_in_window st = backlog (vw w)" "backlog (vw w) < windowsize xfer" "windowsize xfer \<le> room (vw w)"
    and d: "length d \<le> blocksize xfer" "length x + length d \<le> unat (max_bytes xfer)"
    and p: "p = data_packet (seqno (rollover xfer) m) d"
    and full: "full = (length d \<noteq> blocksize xfer \<or> Suc (r_in_window st) = windowsize xfer)"
  shows "\<exists>out w'. recv_step xfer xio st (RecvRet (int (length p)) p) w = (out, w') \<and> fit w'
    \<and> sent w' = sent w @ (if full then [ack_packet (seqno (rollover xfer) m)] else [])
    \<and> room (vw w') = room (vw w)
    \<and> (if length d = blocksize xfer
       then \<exists>st'. out = Waiting st' \<and> recv_inv xfer (Suc m) (x @ d) st' (vw w')
              \<and> r_in_window st' = (if full then 0 else Suc (r_in_window st)) \<and> backlog (vw w') = r_in_window st'
       else \<exists>r. out = Finished r \<and> status r = TFTP_XFER_OK \<and> complete (vw w') (x @ d))"
proof -
  let ?n = "int (length p)" and ?fin = "length d \<noteq> blocksize xfer"
  define w0 where "w0 = xreceived xops p ?n w"
  have len: "?n = int (length d) + 4" "4 \<le> length p" "th_data p = d" "th_block p = seqno (rollover xfer) m"
    by (simp_all add: p)
  have inv0: "recv_inv xfer m x st (vw w0)" using inv by (simp add: w0_def)
  have w0: "fit w0" "sent w0 = sent w" "vw w0 = vw w" using calls_fit [OF f(1)] by (simp_all add: w0_def)
  have ok: "snk_ok (vw w0)" "reserved (vw w0) (r_dp st)" "length p \<le> cap (vw w0) + 4"
    using inv0 d(1) len by (simp_all add: recv_inv_def)
  obtain w1 where pub: "write_publish xio (?n - 4) (mstore xio (r_dp st) p w0) = (0, w1)" "fit w1"
      "\<forall>dp. \<not> reserved (vw w1) dp" "backlog (vw w1) = Suc (backlog (vw w0))" "room (vw w1) = room (vw w0)"
    using publish_fit [OF w0(1) ok(1,2) len(2) ok(3)] by blast
  have w1: "snk_ok (vw w1)" "sent w1 = sent w"
    using publish_ok [OF ok(1,2) len(2) ok(3) pub(1)] publish_sent pub(1) w0(2) by (simp, metis snd_conv)
  have room: "\<not> max_bytes xfer - r_bytes st < (of_nat (length d) :: u64)"
  proof -
    have b: "unat (r_bytes st) = length x" "r_bytes st \<le> max_bytes xfer" "length d < 2 ^ 64"
      using inv d(1) by (simp_all add: recv_inv_def)
    then have "unat (max_bytes xfer - r_bytes st) = unat (max_bytes xfer) - length x" by (simp add: unat_sub)
    then show ?thesis using d(2) b by (simp add: word_less_nat_alt unat_of_nat_small)
  qed
  obtain at_end st2 where adv: "recv_advance xfer (int (length d)) (seqno (rollover xfer) m) ?fin st = (at_end, st2)"
    by (metis surj_pair)
  have st2: "at_end = full" "r_reply st2 = None" "full \<Longrightarrow> r_last_acked st2 = seqno (rollover xfer) m"
      "r_in_window st2 = (if full then 0 else Suc (r_in_window st))"
    using adv full by (auto simp: recv_advance_def Let_def split: if_splits)
  have step: "recv_step xfer xio st (RecvRet ?n p) w = recv_accept xfer xio st ?n p w0"
    using inv x len by (simp add: recv_step_def w0_def p recv_inv_def opcode_defs)
  have acc: "recv_accept xfer xio st ?n p w0 = recv_published xfer xio ?fin (at_end, st2) w1"
    using len d(1) room pub(1) adv by (simp add: recv_accept_def Let_def)
  have "\<exists>out w'. recv_published xfer xio ?fin (at_end, st2) w1 = (out, w') \<and> fit w'
    \<and> sent w' = sent w @ (if full then [ack_packet (seqno (rollover xfer) m)] else []) \<and> room (vw w') = room (vw w)
    \<and> (if ?fin then \<exists>r. out = Finished r \<and> status r = TFTP_XFER_OK
       else \<exists>dp. out = Waiting (st2\<lparr>r_dp := dp\<rparr>) \<and> backlog (vw w') = r_in_window st2)"
  proof (cases full)
    case True
    obtain res w2 where aw: "recv_ack_window xfer xio ?fin st2 w1 = (res, w2)" "fit w2"
        "sent w2 = sent w1 @ [ack_packet (r_last_acked st2)]" "room (vw w2) = room (vw w1)"
        "if ?fin then \<exists>r. res = Inr (Finished r) \<and> status r = TFTP_XFER_OK
         else res = Inl () \<and> (\<forall>dp. \<not> reserved (vw w2) dp) \<and> backlog (vw w2) = 0"
      using ack_window_fit [OF pub(2) w1(1) _ x, of ?fin st2] pub(3) by blast
    show ?thesis
    proof (cases ?fin)
      case True
      with \<open>full\<close> aw st2 w1 w0 pub show ?thesis by (auto simp: recv_published_def)
    next
      case False
      with recv_ack_window_spec [OF w1(1) _ x aw(1)] publish_ok [OF ok(1,2) len(2) ok(3) pub(1)] inv0 aw(5)
      have "snk_ok (vw w2)" by (auto simp: recv_inv_def)
      with recv_reserve_fit [OF aw(2) _ _ _ x st2(2)] False aw(4,5) f(3,4) pub(5) w0(3)
      obtain dp w' where "recv_reserve xfer xio st2 w2 = (Waiting (st2\<lparr>r_dp := dp\<rparr>), w')" "fit w'" "sent w' = sent w2"
          "backlog (vw w') = 0" "room (vw w') = room (vw w)" by auto
      with False \<open>full\<close> aw st2 w1 show ?thesis by (auto simp: recv_published_def)
    qed
  next
    case False
    have "Suc (backlog (vw w)) < room (vw w)" using False full f by auto
    with recv_reserve_fit [OF pub(2) w1(1) _ _ x st2(2)] pub(3,4,5) w0(3)
    obtain dp w' where "recv_reserve xfer xio st2 w1 = (Waiting (st2\<lparr>r_dp := dp\<rparr>), w')" "fit w'" "sent w' = sent w1"
        "backlog (vw w') = Suc (backlog (vw w))" "room (vw w') = room (vw w)" by auto
    with False full st2 w1 f(2) show ?thesis by (auto simp: recv_published_def)
  qed
  then obtain out w' where run: "recv_published xfer xio ?fin (at_end, st2) w1 = (out, w')" "fit w'"
    "sent w' = sent w @ (if full then [ack_packet (seqno (rollover xfer) m)] else [])" "room (vw w') = room (vw w)"
    "if ?fin then \<exists>r. out = Finished r \<and> status r = TFTP_XFER_OK
       else \<exists>dp. out = Waiting (st2\<lparr>r_dp := dp\<rparr>) \<and> backlog (vw w') = r_in_window st2" by blast
  have "accept_next xfer m x st d w0 out w'"
    using recv_accept_spec [OF inv0 x, of ?n p out w'] len acc run(1) by simp
  with run step acc st2(4) show ?thesis
    by (cases ?fin) (auto simp: accept_next_def)
qed

lemma recv_start_fit:
  assumes ok: "snk_ok (vw w)" "cap (vw w) = blocksize xfer" "accepted (vw w) []" "blocksize xfer < 2 ^ 31"
    and x: "x_ops xfer = xops" "x_io_ops xfer = Some xio" "int (blocksize xfer) + 4 \<le> isz"
    and f: "fit w" "backlog (vw w) = 0" "0 < room (vw w)" "\<And>dp. \<not> reserved (vw w) dp"
  shows "\<exists>st w'. tftp_xfer_recv xfer isz rep None w = (Waiting st, w') \<and> recv_inv xfer 0 [] st (vw w')
    \<and> r_in_window st = 0 \<and> backlog (vw w') = 0 \<and> fit w' \<and> room (vw w') = room (vw w)"
proof -
  obtain dp w1 where rs: "write_reserve xio w = (Some dp, w1)" "fit w1" "backlog (vw w1) = 0" "room (vw w1) = room (vw w)"
    using reserve_fit [OF f(1) ok(1) f(4)] f(2,3) by auto
  define st where "st = \<lparr>r_dp = dp, r_block = 1, r_last_received = 0, r_last_acked = 0, r_bytes = 0, r_in_window = 0,
    r_reply = (case rep of Some p \<Rightarrow> if length p \<ge> 4 then rep else None | None \<Rightarrow> None)\<rparr>"
  have inv: "recv_inv xfer 0 [] st (vw w1)" unfolding st_def by (rule recv_start_inv [OF ok rs(1)])
  have run: "tftp_xfer_recv xfer isz rep None w = recv_wait xfer False st w1"
    using x rs(1) finish_some by (cases "write_finish xio") (simp_all add: tftp_xfer_recv_def st_def Let_def)
  let ?w = "xretry_enter xops False w1"
  have w: "fit ?w" "vw ?w = vw w1" using calls_fit [OF rs(2)] by simp_all
  have "\<exists>w'. recv_wait xfer False st w1 = (Waiting st, w') \<and> fit w' \<and> vw w' = vw w1"
  proof (cases "r_reply st")
    case None
    then show ?thesis using x w calls_fit [OF w(1)] by (simp add: recv_wait_def recv_retry_def)
  next
    case (Some p)
    obtain r2 w2 where sd: "xsend xops p ?w = (r2, w2)" by (metis surj_pair)
    have "0 \<le> r2" "fit w2" "vw w2 = vw w1"
      using send_fit [OF w(1), of p] send_vw [of p ?w] sd w(2) by simp_all
    then show ?thesis using x Some sd calls_fit [of w2] by (simp add: recv_wait_def recv_retry_def)
  qed
  with run inv rs show ?thesis by (auto simp: st_def)
qed

end

section \<open>The lossless run\<close>

locale reliable_link =
  snd: reliable_sender sops sio svw ssent src_ok held left sfit wnd
  + rcv: reliable_receiver rops rio rvw rsent snk_ok cap reserved accepted drained complete rfit backlog room
  for sops :: "'a world_scheme tftp_xfer_ops"
    and sio :: "'a world_scheme tftp_xfer_io_ops"
    and svw :: "'a world_scheme \<Rightarrow> 'v"
    and ssent :: "'a world_scheme \<Rightarrow> packet list"
    and src_ok :: "'v \<Rightarrow> bool"
    and held :: "'v \<Rightarrow> packet list"
    and left :: "'v \<Rightarrow> char list list"
    and sfit :: "'a world_scheme \<Rightarrow> bool"
    and wnd :: "'v \<Rightarrow> nat"
    and rops :: "'b world_scheme tftp_xfer_ops"
    and rio :: "'b world_scheme tftp_xfer_io_ops"
    and rvw :: "'b world_scheme \<Rightarrow> 'u"
    and rsent :: "'b world_scheme \<Rightarrow> packet list"
    and snk_ok :: "'u \<Rightarrow> bool"
    and cap :: "'u \<Rightarrow> nat"
    and reserved :: "'u \<Rightarrow> nat \<Rightarrow> bool"
    and accepted :: "'u \<Rightarrow> char list \<Rightarrow> bool"
    and drained :: "'u \<Rightarrow> bool"
    and complete :: "'u \<Rightarrow> char list \<Rightarrow> bool"
    and rfit :: "'b world_scheme \<Rightarrow> bool"
    and backlog :: "'u \<Rightarrow> nat"
    and room :: "'u \<Rightarrow> nat"
begin

text \<open>The two engines agree on the parameters, and the file is within the receiver's limit.\<close>

definition matched :: "'a world_scheme tftp_xfer \<Rightarrow> 'b world_scheme tftp_xfer \<Rightarrow> char list list \<Rightarrow> bool" where
  "matched xs xr bl \<longleftrightarrow>
     x_ops xs = sops \<and> x_ops xr = rops \<and> rollover xs = rollover xr \<and> blocksize xs = blocksize xr
     \<and> windowsize xs = windowsize xr \<and> 0 < windowsize xs \<and> proper_blocks (blocksize xs) bl
     \<and> length (concat bl) \<le> unat (max_bytes xr)"

definition window_end :: "'a world_scheme tftp_xfer \<Rightarrow> char list list \<Rightarrow> nat \<Rightarrow> nat" where
  "window_end xs bl k = k + min (windowsize xs) (length bl - k)"

definition sending :: "'a world_scheme tftp_xfer \<Rightarrow> char list list \<Rightarrow> nat \<Rightarrow> ('a world_scheme, 'b world_scheme) link \<Rightarrow> bool" where
  "sending xs bl k l \<longleftrightarrow>
     (\<exists>st. snd_out l = Waiting st \<and> snd.send_inv xs bl k st (svw (snd_world l)) \<and> k + s_packet_count st = window_end xs bl k)
     \<and> sfit (snd_world l) \<and> wnd (svw (snd_world l)) = windowsize xs"

definition receiving ::
  "'b world_scheme tftp_xfer \<Rightarrow> char list list \<Rightarrow> nat \<Rightarrow> nat \<Rightarrow> ('a world_scheme, 'b world_scheme) link \<Rightarrow> bool" where
  "receiving xr bl k m l \<longleftrightarrow>
     (\<exists>st. rcv_out l = Waiting st \<and> rcv.recv_inv xr m (concat (take m bl)) st (rvw (rcv_world l))
        \<and> r_in_window st = m - k \<and> backlog (rvw (rcv_world l)) = m - k)
     \<and> rfit (rcv_world l) \<and> windowsize xr \<le> room (rvw (rcv_world l))"

definition received_all :: "char list list \<Rightarrow> ('a world_scheme, 'b world_scheme) link \<Rightarrow> bool" where
  "received_all bl l \<longleftrightarrow>
     (\<exists>r. rcv_out l = Finished r \<and> status r = TFTP_XFER_OK) \<and> complete (rvw (rcv_world l)) (concat bl)"

definition transferred :: "char list list \<Rightarrow> ('a world_scheme, 'b world_scheme) link \<Rightarrow> bool" where
  "transferred bl l \<longleftrightarrow> (\<exists>r. snd_out l = Finished r \<and> status r = TFTP_XFER_OK) \<and> received_all bl l"

text \<open>In the middle of a window, and after its last block.\<close>

definition steady where
  "steady xs xr bl k m c \<longleftrightarrow>
     (case c of (i, j, l) \<Rightarrow>
        sending xs bl k l \<and> receiving xr bl k m l \<and> k \<le> m \<and> m < window_end xs bl k
        \<and> drop i (ssent (snd_world l)) = map (block_packet (rollover xs) bl) [m..<window_end xs bl k]
        \<and> j = length (rsent (rcv_world l)))"

definition window_done where
  "window_done xs xr bl k c \<longleftrightarrow>
     (case c of (i, j, l) \<Rightarrow>
        sending xs bl k l
        \<and> (if window_end xs bl k = length bl then received_all bl l
           else receiving xr bl (window_end xs bl k) (window_end xs bl k) l)
        \<and> i = length (ssent (snd_world l))
        \<and> drop j (rsent (rcv_world l)) = [ack_packet (seqno (rollover xs) (window_end xs bl k - 1))])"

lemma window_end_le: "k \<le> length bl \<Longrightarrow> window_end xs bl k \<le> length bl"
  by (simp add: window_end_def)

lemma small_blocks:
  assumes "proper_blocks b bl" "d \<in> set bl"
  shows "length d \<le> b"
proof -
  obtain i where i: "i < length bl" "d = bl ! i" using assms(2) by (metis in_set_conv_nth)
  show ?thesis
  proof (cases "Suc i < length bl")
    case True
    then have "length (bl ! i) = b" using i(1) assms(1) by (simp add: proper_blocks_def)
    with i show ?thesis by simp
  next
    case False
    then have "d = last bl" using i by (metis Suc_lessI diff_Suc_1 last_conv_nth list.size(3) not_less0)
    with assms(1) show ?thesis by (simp add: proper_blocks_def)
  qed
qed

lemma drop_Cons: "drop i xs = y # ys \<Longrightarrow> i < length xs \<and> xs ! i = y \<and> drop (Suc i) xs = ys"
  by (metis drop_eq_Nil2 leI list.discI nth_via_drop drop_Suc_Cons Cons_nth_drop_Suc list.inject)

lemma steady_step:
  assumes m: "matched xs xr bl" and s: "steady xs xr bl k m c"
  shows "let c' = lossless_step xs sio ssent xr rio rsent c in
    if Suc m < window_end xs bl k then steady xs xr bl k (Suc m) c' else window_done xs xr bl k c'"
proof -
  let ?e = "window_end xs bl k" and ?r = "rollover xr"
  obtain i j l where c: "c = (i, j, l)" by (metis prod_cases3)
  obtain st where st: "rcv_out l = Waiting st" "rcv.recv_inv xr m (concat (take m bl)) st (rvw (rcv_world l))"
      "r_in_window st = m - k" "backlog (rvw (rcv_world l)) = m - k" "rfit (rcv_world l)"
      "windowsize xr \<le> room (rvw (rcv_world l))"
    and snd: "sending xs bl k l" and b: "k \<le> m" "m < ?e" "j = length (rsent (rcv_world l))"
    and out: "drop i (ssent (snd_world l)) = map (block_packet (rollover xs) bl) [m..<?e]"
    using s by (auto simp: steady_def c receiving_def)
  have x: "x_ops xr = rops" "rollover xs = ?r" "proper_blocks (blocksize xr) bl" "windowsize xs = windowsize xr"
    and lim: "length (concat bl) \<le> unat (max_bytes xr)" using m by (auto simp: matched_def)
  have mb: "m < length bl" "m - k < windowsize xr"
    using b x(4) by (auto simp: window_end_def)
  let ?d = "bl ! m" and ?p = "block_packet (rollover xs) bl m"
  have tk: "concat (take m bl) @ ?d = concat (take (Suc m) bl)" using mb(1) by (simp add: take_Suc_conv_app_nth)
  have d: "length ?d \<le> blocksize xr" "length ?d = blocksize xr \<longleftrightarrow> Suc m < length bl"
    using small_blocks [OF x(3), of ?d] mb(1) x(3) [unfolded proper_blocks_def] by auto
  have "length (concat (take (Suc m) bl)) \<le> length (concat bl)"
    by (metis append_take_drop_id concat_append length_append le_add1)
  then have len: "length (concat (take m bl)) + length ?d \<le> unat (max_bytes xr)"
    using lim by (simp flip: tk)
  define full where "full = (length ?d \<noteq> blocksize xr \<or> Suc (r_in_window st) = windowsize xr)"
  have h: "r_in_window st = backlog (rvw (rcv_world l))" "backlog (rvw (rcv_world l)) < windowsize xr"
      "?p = data_packet (seqno ?r m) ?d"
    using st(3,4) mb(2) x(2) by (simp_all add: block_packet_def)
  have full: "full \<longleftrightarrow> Suc m = ?e"
    unfolding full_def d(2) st(3) using b mb x(4) by (auto simp: window_end_def)
  obtain o' w' where run: "recv_step xr rio st (RecvRet (int (length ?p)) ?p) (rcv_world l) = (o', w')" "rfit w'"
      "rsent w' = rsent (rcv_world l) @ (if full then [ack_packet (seqno ?r m)] else [])"
      "room (rvw w') = room (rvw (rcv_world l))"
      "if length ?d = blocksize xr
       then \<exists>st'. o' = Waiting st' \<and> rcv.recv_inv xr (Suc m) (concat (take (Suc m) bl)) st' (rvw w')
              \<and> r_in_window st' = (if full then 0 else Suc (r_in_window st)) \<and> backlog (rvw w') = r_in_window st'
       else \<exists>r. o' = Finished r \<and> status r = TFTP_XFER_OK \<and> complete (rvw w') (concat (take (Suc m) bl))"
    using rcv.block_fit [OF st(2) x(1) st(5) h(1,2) st(6) d(1) len h(3) full_def, unfolded tk] by blast
  have o2: "i < length (ssent (snd_world l))" "ssent (snd_world l) ! i = ?p"
      "drop (Suc i) (ssent (snd_world l)) = map (block_packet (rollover xs) bl) [Suc m..<?e]"
    using drop_Cons [of i "ssent (snd_world l)" ?p] out b(2) by (simp_all add: upt_conv_Cons)
  let ?l = "l\<lparr>rcv_out := o', rcv_world := w'\<rparr>"
  have step: "lossless_step xs sio ssent xr rio rsent c = (Suc i, j, ?l)"
    using c st(1) o2 run(1) by (simp add: lossless_step_def Let_def)
  have snd': "sending xs bl k ?l" using snd by (simp add: sending_def)
  show ?thesis
  proof (cases "Suc m < ?e")
    case True
    then have "Suc m < length bl" using window_end_le [of k bl xs] b mb by simp
    with True full d(2) run st(3,6) b have "receiving xr bl k (Suc m) ?l" by (auto simp: receiving_def)
    with True full run(3) step snd' o2(3) b show ?thesis by (simp add: steady_def)
  next
    case False
    then have e: "?e = Suc m" using b by simp
    have "i + 1 = length (ssent (snd_world l))" using o2(1,3) e by simp
    moreover have "if ?e = length bl then received_all bl ?l else receiving xr bl ?e ?e ?l"
    proof (cases "?e = length bl")
      case True
      with e d(2) run(5) show ?thesis by (auto simp: received_all_def)
    next
      case False
      then have "Suc m < length bl" using e mb(1) by simp
      with False e full d(2) run st(6) show ?thesis by (auto simp: receiving_def)
    qed
    ultimately show ?thesis
      using False step snd' run(3) full e b(3) x(2) by (simp add: window_done_def)
  qed
qed

lemma window_done_step:
  assumes m: "matched xs xr bl" and s: "window_done xs xr bl k c" and k: "k \<le> length bl"
  shows "case lossless_step xs sio ssent xr rio rsent c of (i, j, l) \<Rightarrow>
    if window_end xs bl k = length bl then transferred bl l
    else steady xs xr bl (window_end xs bl k) (window_end xs bl k) (i, j, l)"
proof -
  let ?e = "window_end xs bl k" and ?r = "rollover xs"
  obtain i j l where c: "c = (i, j, l)" by (metis prod_cases3)
  obtain st where st: "snd_out l = Waiting st" "snd.send_inv xs bl k st (svw (snd_world l))"
      "k + s_packet_count st = ?e" "sfit (snd_world l)" "wnd (svw (snd_world l)) = windowsize xs"
    and i: "i = length (ssent (snd_world l))"
    and out: "drop j (rsent (rcv_world l)) = [ack_packet (seqno ?r (?e - 1))]"
    and rcv: "if ?e = length bl then received_all bl l else receiving xr bl ?e ?e l"
    using s by (auto simp: window_done_def c sending_def)
  have x: "x_ops xs = sops" "0 < windowsize xs" "\<forall>d \<in> set bl. length d \<le> blocksize xs"
    using m small_blocks by (auto simp: matched_def)
  obtain o' w' where run: "send_step xs sio st (RecvRet 4 (ack_packet (seqno ?r (?e - 1)))) (snd_world l) = (o', w')"
      "if ?e = length bl then \<exists>r. o' = Finished r \<and> status r = TFTP_XFER_OK
       else \<exists>st'. o' = Waiting st' \<and> snd.send_inv xs bl ?e st' (svw w')
         \<and> s_packet_count st' = min (windowsize xs) (length bl - ?e)
         \<and> ssent w' = ssent (snd_world l) @ map (block_packet ?r bl) [?e..<?e + s_packet_count st']
         \<and> sfit w' \<and> wnd (svw w') = windowsize xs"
    using snd.ack_fit [OF st(2) x(1) st(4,5) x(2,3) st(3) [symmetric]] by auto
  let ?l = "l\<lparr>snd_out := o', snd_world := w'\<rparr>"
  have o2: "j < length (rsent (rcv_world l))" "rsent (rcv_world l) ! j = ack_packet (seqno ?r (?e - 1))"
      "Suc j = length (rsent (rcv_world l))"
    using drop_Cons [OF out] by simp_all
  have step: "lossless_step xs sio ssent xr rio rsent c = (i, Suc j, ?l)"
    using c st(1) i o2 run(1) by (cases "rcv_out l") (simp_all add: lossless_step_def Let_def)
  show ?thesis
  proof (cases "?e = length bl")
    case True
    with run(2) rcv step show ?thesis by (simp add: transferred_def received_all_def)
  next
    case False
    then have "?e < length bl" using window_end_le [OF k, of xs] by simp
    then have "?e < window_end xs bl ?e" using x(2) by (simp add: window_end_def)
    moreover have "sending xs bl ?e ?l" "receiving xr bl ?e ?e ?l"
      using run(2) rcv False by (auto simp: sending_def receiving_def window_end_def)
    ultimately show ?thesis
      using run(2) False step i o2(3) by (auto simp: steady_def window_end_def)
  qed
qed

lemma steady_finishes:
  assumes "matched xs xr bl" "steady xs xr bl k m c" "k \<le> length bl"
  shows "\<exists>n \<le> 2 * (length bl - m). transferred bl (snd (snd ((lossless_step xs sio ssent xr rio rsent ^^ n) c)))"
  using assms(2,3)
proof (induction "length bl - m" arbitrary: k m c rule: less_induct)
  case less
  let ?e = "window_end xs bl k" and ?f = "lossless_step xs sio ssent xr rio rsent"
  have m: "m < ?e" "?e \<le> length bl" using less.prems window_end_le by (auto simp: steady_def split: prod.splits)
  then have lt: "length bl - Suc m < length bl - m" by simp
  show ?case
  proof (cases "Suc m < ?e")
    case True
    then have "steady xs xr bl k (Suc m) (?f c)" using steady_step [OF assms(1) less.prems(1)] by (simp add: Let_def)
    then obtain n where "n \<le> 2 * (length bl - Suc m)" "transferred bl (snd (snd ((?f ^^ n) (?f c))))"
      using less.hyps [OF lt, of k "?f c"] less.prems(2) by auto
    then show ?thesis using m by (intro exI [of _ "Suc n"]) (auto simp: funpow_swap1)
  next
    case False
    then have e: "?e = Suc m" using m by simp
    have wd: "window_done xs xr bl k (?f c)" using False steady_step [OF assms(1) less.prems(1)] by (simp add: Let_def)
    obtain i j l where c2: "?f (?f c) = (i, j, l)" by (metis prod_cases3)
    have two: "if ?e = length bl then transferred bl l else steady xs xr bl ?e ?e (i, j, l)"
      using window_done_step [OF assms(1) wd less.prems(2)] c2 by simp
    show ?thesis
    proof (cases "?e = length bl")
      case True
      with two c2 e m show ?thesis by (intro exI [of _ 2]) (auto simp: numeral_2_eq_2)
    next
      case False
      with two c2 e have "steady xs xr bl (Suc m) (Suc m) (?f (?f c))" by simp
      then obtain n where "n \<le> 2 * (length bl - Suc m)" "transferred bl (snd (snd ((?f ^^ n) (?f (?f c)))))"
        using less.hyps [OF lt, of "Suc m" "?f (?f c)"] m e by auto
      then show ?thesis using m by (intro exI [of _ "Suc (Suc n)"]) (auto simp: funpow_swap1)
    qed
  qed
qed

lemma transferred_stays:
  assumes "transferred bl (snd (snd c))"
  shows "(lossless_step xs sio ssent xr rio rsent ^^ n) c = c"
proof (induction n)
  case (Suc n)
  have "lossless_step xs sio ssent xr rio rsent c = c"
    using assms by (cases c) (auto simp: transferred_def received_all_def lossless_step_def Let_def)
  with Suc show ?case by simp
qed simp

lemma start_steady:
  assumes m: "matched xs xr bl"
    and s: "src_ok (svw sw)" "left (svw sw) = bl" "ssent sw = []" "x_io_ops xs = Some sio" "sfit sw" "wnd (svw sw) = windowsize xs"
    and r: "snk_ok (rvw rw)" "cap (rvw rw) = blocksize xr" "accepted (rvw rw) []" "blocksize xr < 2 ^ 31"
      "x_io_ops xr = Some rio" "int (blocksize xr) + 4 \<le> isz" "rfit rw" "backlog (rvw rw) = 0"
      "windowsize xr \<le> room (rvw rw)" "\<And>dp. \<not> reserved (rvw rw) dp"
    and run: "tftp_xfer_send xs sw = (sout, sw')" "tftp_xfer_recv xr isz rep None rw = (rout, rw')"
  shows "steady xs xr bl 0 0 (0, length (rsent rw'), \<lparr>snd_out = sout, snd_world = sw', rcv_out = rout, rcv_world = rw'\<rparr>)"
proof -
  have x: "x_ops xs = sops" "x_ops xr = rops" "0 < windowsize xs" "windowsize xs = windowsize xr" "bl \<noteq> []"
      "\<forall>d \<in> set bl. length d \<le> blocksize xs"
    using m small_blocks by (auto simp: matched_def proper_blocks_def)
  have S: "\<exists>st. sout = Waiting st \<and> snd.send_inv xs bl 0 st (svw sw') \<and> s_packet_count st = min (windowsize xs) (length bl)
      \<and> ssent sw' = map (block_packet (rollover xs) bl) [0..<s_packet_count st] \<and> sfit sw' \<and> wnd (svw sw') = windowsize xs"
    using snd.send_start_fit [OF s(1,2) x(5,1) s(4-6) x(3,6)] run(1) s(3) by auto
  have "0 < room (rvw rw)" using r(9) x(3,4) by simp
  then have R: "\<exists>st. rout = Waiting st \<and> rcv.recv_inv xr 0 [] st (rvw rw') \<and> r_in_window st = 0
      \<and> backlog (rvw rw') = 0 \<and> rfit rw' \<and> room (rvw rw') = room (rvw rw)"
    using rcv.recv_start_fit [OF r(1-4) x(2) r(5-8) _ r(10), of rep] run(2) by auto
  from S R x r(9) show ?thesis
    by (auto simp: steady_def sending_def receiving_def window_end_def)
qed

lemma lossless_completes:
  assumes "matched xs xr bl" "steady xs xr bl 0 0 c" "2 * length bl \<le> n"
  shows "transferred bl (snd (snd ((lossless_step xs sio ssent xr rio rsent ^^ n) c)))"
proof -
  let ?f = "lossless_step xs sio ssent xr rio rsent"
  obtain n' where n': "n' \<le> 2 * length bl" "transferred bl (snd (snd ((?f ^^ n') c)))"
    using steady_finishes [OF assms(1,2)] by auto
  have "(?f ^^ n) c = (?f ^^ (n - n')) ((?f ^^ n') c)"
    using n'(1) assms(3) by (simp flip: funpow_add comp_apply [of "?f ^^ (n - n')" "?f ^^ n'"])
  with transferred_stays [OF n'(2)] n'(2) show ?thesis by simp
qed

end

section \<open>Files and sockets that do not fail\<close>

definition file_fit :: "tftp_io \<Rightarrow> bool" where
  "file_fit s \<longleftrightarrow> io_err s = 0 \<and> \<not> f_in_error (io_file s) \<and> f_room (io_file s) = None \<and> f_flush (io_file s) = None"

definition no_failures :: "'a xfer_world_scheme \<Rightarrow> bool" where
  "no_failures w \<longleftrightarrow> send_plan w = [] \<and> file_fit (io w)"

subsection \<open>Reading\<close>

lemma getc_file:
  "getc f = (c, f') \<Longrightarrow> f_in_error f' = f_in_error f \<and> f_room f' = f_room f \<and> f_flush f' = f_flush f"
  by (auto simp: getc_def split: list.splits)

lemma netascii_fill_file:
  "netascii_fill i p s = (ok, p', s') \<Longrightarrow>
     f_in_error (io_file s') = f_in_error (io_file s) \<and> f_room (io_file s') = f_room (io_file s)
     \<and> f_flush (io_file s') = f_flush (io_file s)"
proof (induction i p s arbitrary: ok p' s' rule: netascii_fill.induct)
  case (2 i p s)
  show ?case
  proof (cases "io_newline s")
    case True
    with 2 show ?thesis by simp
  next
    case False
    obtain c f where g: "getc (io_file s) = (c, f)" by (metis surj_pair)
    show ?thesis
    proof (cases c)
      case None
      with 2(4) False g getc_file [OF g] show ?thesis by auto
    next
      case (Some ch)
      with 2(2) [OF False g [symmetric] Some] 2(3) [OF False g [symmetric] Some] 2(4) False g getc_file [OF g]
      show ?thesis by (simp split: if_splits)
    qed
  qed
qed simp

lemma ops_read_packet_file:
  assumes "ops_read_packet dp w = (r, w')" "file_fit (io w)"
  shows "file_fit (io w')"
proof (cases "io_ops (io w)")
  case octet_io_ops
  with assms show ?thesis
    by (auto simp: ops_read_packet_def octet_read_packet_def fread_def put_data_def file_fit_def Let_def split: if_splits)
next
  case netascii_io_ops
  obtain ok p s where f: "netascii_fill (io_blocksize (io w)) [] (io w) = (ok, p, s)" by (metis prod_cases3)
  with netascii_fill_file [OF f] fill_frame [OF f] assms netascii_io_ops show ?thesis
    by (auto simp: ops_read_packet_def netascii_read_packet_def put_data_def file_fit_def Let_def split: if_splits)
qed

lemma read_fill_fit:
  "file_fit (io w) \<Longrightarrow> \<not> f_ferror (io_file (io w)) \<Longrightarrow>
     file_fit (io (read_fill w)) \<and> io_window (io (read_fill w)) = io_window (io w)"
proof (induction w rule: read_fill_induct)
  case (1 w)
  show ?case
  proof (cases "wants_packet (io w)")
    case True
    obtain r w' where rd: "ops_read_packet (io_tail (io w)) w = (r, w')" by (metis surj_pair)
    note sp = ops_read_packet_spec [OF 1(3) rd]
    have r: "0 \<le> r" using sp(3) 1(2) by (simp add: file_fit_def)
    have w': "file_fit (io w')" "\<not> f_ferror (io_file (io w'))" "io_window (io w') = io_window (io w)"
      using ops_read_packet_file [OF rd 1(2)] sp(4) r ops_read_packet_frame [OF rd] by simp_all
    have "read_fill w = read_fill (w'\<lparr>io := push_read r (io w')\<rparr>)"
      using True rd r by (subst read_fill.simps) simp
    with 1(1) [OF True rd r] w' show ?thesis by (simp add: push_read_def file_fit_def)
  next
    case False
    then show ?thesis using 1 by (subst (1 2) read_fill.simps) simp
  qed
qed

lemma send_plan_more: "io_world.more w' = io_world.more w \<Longrightarrow> send_plan w' = send_plan w"
  by (cases w; cases w') simp

lemma read_window_fit:
  assumes "no_failures w" "read_ok (io w)"
  shows "\<exists>pc fin w'. tftp_io_read_window w = (Some (pc, fin), w') \<and> no_failures w'
    \<and> io_window (io w') = io_window (io w) \<and> pc = min (io_window (io w)) (length (blocks_left (io w)))"
proof -
  obtain q w' where run: "tftp_io_read_window w = (q, w')" by (metis surj_pair)
  define s where "s = io (read_fill w)"
  have "file_fit (io w)" "\<not> f_ferror (io_file (io w))" using assms by (simp_all add: no_failures_def read_ok_def)
  then have s: "file_fit s" "io_window s = io_window (io w)" using read_fill_fit [of w] by (simp_all add: s_def)
  then have err: "io_err s = 0" by (simp add: file_fit_def)
  have fill: "io_eof s \<or> io_window s \<le> io_count s"
    using read_fill_spec [OF assms(2)] err by (simp add: s_def Let_def)
  define h where "h = min (io_count s) (io_window s)"
  have q: "q = Some (h, io_eof s \<and> h = io_count s)" and io: "io w' = s\<lparr>io_held := h\<rparr>"
    using run err by (auto simp: tftp_io_read_window_def Let_def s_def h_def min_def)
  note R = read_window_spec [OF assms(2) run [unfolded q]]
  have "h \<le> length (blocks_left (io w))"
    using R by (metis length_map length_take min.cobounded1)
  moreover have "io_count s < io_window s \<Longrightarrow> h = length (blocks_left (io w))"
    using R fill by (simp add: h_def)
  ultimately have "h = min (io_window (io w)) (length (blocks_left (io w)))"
    using s(2) unfolding h_def by linarith
  moreover have "send_plan w' = send_plan w"
    using adapter_more(1) [of w] run by (intro send_plan_more) simp
  ultimately show ?thesis
    using run q io s assms(1) by (simp add: no_failures_def file_fit_def)
qed

lemma release_loop_fit: "file_fit s \<Longrightarrow> file_fit (release_loop k s) \<and> io_window (release_loop k s) = io_window s"
  by (induction k arbitrary: s) (simp_all add: file_fit_def)

subsection \<open>Writing\<close>

lemma putc_fit: "f_room f = None \<Longrightarrow> putc c f = (True, f\<lparr>f_out := f_out f @ [c]\<rparr>)"
  by (simp add: putc_def fwrite_def)

lemma netascii_put_fit:
  "file_fit s \<Longrightarrow> fst (netascii_put p s) \<and> file_fit (snd (netascii_put p s))"
proof (induction p arbitrary: s)
  case (Cons c p)
  have room: "f_room (io_file s) = None" using Cons.prems by (simp add: file_fit_def)
  have keep: "file_fit (s\<lparr>io_write_cr := b, io_file := (io_file s)\<lparr>f_out := x\<rparr>\<rparr>)" "file_fit (s\<lparr>io_write_cr := b\<rparr>)"
    "file_fit (s\<lparr>io_file := (io_file s)\<lparr>f_out := x\<rparr>\<rparr>)" for b x
    using Cons.prems by (simp_all add: file_fit_def)
  show ?case
    by (cases "io_write_cr s") (simp_all add: room putc_fit Cons.IH keep Let_def)
qed simp

lemma ops_write_packet_fit:
  assumes "ring_ok (io w)" "dp < io_slots (io w)" "0 \<le> n" "n \<le> int (io_blocksize (io w))" "file_fit (io w)"
  shows "\<exists>w'. ops_write_packet dp n w = (n, w') \<and> file_fit (io w')"
proof (cases "io_ops (io w)")
  case octet_io_ops
  with assms slot_data_length [of "io w" dp n] show ?thesis
    by (auto simp: ops_write_packet_def octet_write_packet_def fwrite_def file_fit_def)
next
  case netascii_io_ops
  obtain ok s where "netascii_put (slot_data (io w) dp (nat n)) (io w) = (ok, s)" by (metis surj_pair)
  with netascii_put_fit [OF assms(5), of "slot_data (io w) dp (nat n)"] netascii_io_ops show ?thesis
    by (simp add: ops_write_packet_def netascii_write_packet_def)
qed

lemma drain_loop_fit:
  assumes "write_ok (io w)" "file_fit (io w)"
  shows "file_fit (io (drain_loop w)) \<and> io_slots (io (drain_loop w)) = io_slots (io w) \<and> io_tail (io (drain_loop w)) = io_tail (io w)
    \<and> (io_states (io w) ! n \<noteq> SLOT_RESERVED \<longrightarrow> io_states (io (drain_loop w)) ! n \<noteq> SLOT_RESERVED)"
  using assms
proof (induction w rule: drain_loop.induct)
  case (1 w)
  show ?case
  proof (cases "io_count (io w) = 0")
    case True
    then show ?thesis using 1(3) by (subst (1 2 3 4) drain_loop.simps) simp
  next
    case cnt: False
    let ?h = "io_head (io w)"
    let ?len = "io_lengths (io w) ! ?h" and ?w = "w\<lparr>io := mark_writing (io w)\<rparr>"
    note D = write_okD [OF 1(2)]
    have ready: "io_states (io w) ! ?h = SLOT_READY" "0 \<le> ?len" "?len \<le> int (io_blocksize (io w))" "io_err (io w) = 0"
      using D(3) D(5) [of 0] cnt slot_0 [OF D(1)] by simp_all
    have rw: "ring_ok (io ?w)" "?h < io_slots (io ?w)" "file_fit (io ?w)"
      using D(1) 1(3) by (simp_all add: mark_writing_def ring_ok_def slot_def file_fit_def)
    obtain w' where wr: "ops_write_packet ?h ?len ?w = (?len, w')" "file_fit (io w')"
      using ops_write_packet_fit [OF rw(1,2) ready(2) _ rw(3)] ready(3) by (auto simp: mark_writing_def)
    note step = drain_step_spec [OF 1(2) cnt wr(1) refl]
    note fr = ops_write_packet_frame [OF wr(1)]
    have loop: "drain_loop w = drain_loop (w'\<lparr>io := pop_written (io w')\<rparr>)"
      using cnt ready wr by (subst drain_loop.simps) (simp add: Let_def)
    have "io_states (pop_written (io w')) ! n \<noteq> SLOT_RESERVED" if "io_states (io w) ! n \<noteq> SLOT_RESERVED"
      using that fr D(2) rw(2) by (cases "n = ?h") (simp_all add: pop_written_def mark_writing_def)
    with 1(1) [OF _ _ refl wr(1) [symmetric]] step fr wr(2) ready cnt show ?thesis
      unfolding loop by (simp add: pop_written_def mark_writing_def file_fit_def)
  qed
qed

lemma writer_reserve_fit:
  assumes "no_failures w" "write_ok (io w)" "\<And>dp. \<not> slot_reserved (io w) dp" "io_count (io w) < io_slots (io w)"
  shows "\<exists>dp w'. tftp_io_writer_reserve w = (Some dp, w') \<and> no_failures w'
    \<and> io_count (io w') = io_count (io w) \<and> io_slots (io w') = io_slots (io w)"
proof -
  have "io_states (io w) ! io_tail (io w) = SLOT_EMPTY" "io_err (io w) = 0"
    using assms(2-4) by (auto simp: write_ok_def slot_reserved_def)
  with assms(1) show ?thesis by (simp add: tftp_io_writer_reserve_def no_failures_def file_fit_def Let_def)
qed

lemma publish_fit:
  assumes "no_failures w" "write_ok (io w)" "slot_reserved (io w) dp" "4 \<le> length p" "length p \<le> io_blocksize (io w) + 4"
  shows "\<exists>w'. tftp_io_write_publish (int (length p) - 4) (mem_store dp p w) = (0, w') \<and> no_failures w'
    \<and> (\<forall>dp. \<not> slot_reserved (io w') dp) \<and> io_count (io w') = Suc (io_count (io w)) \<and> io_slots (io w') = io_slots (io w)"
proof -
  let ?s = "io w"
  note D = write_okD [OF assms(2)]
  have tl: "dp = io_tail ?s" "io_states ?s ! io_tail ?s = SLOT_RESERVED" using assms(3) by (simp_all add: slot_reserved_def)
  have full: "io_count ?s < io_slots ?s" using write_ok_not_full [OF assms(2)] tl(2) by simp
  have t: "io_tail ?s = slot ?s (io_count ?s)" using D(1) by (simp add: ring_ok_def)
  have nx: "io_next ?s (io_tail ?s) = slot ?s (Suc (io_count ?s))" using io_next_slot [OF D(1)] t by simp
  have "(io_states ?s)[io_tail ?s := SLOT_READY] ! io_next ?s (io_tail ?s) \<noteq> SLOT_RESERVED"
  proof (cases "io_next ?s (io_tail ?s) = io_tail ?s")
    case True
    then show ?thesis using D(2) slot_less [OF D(1)] t by simp
  next
    case ne: False
    show ?thesis
    proof (cases "Suc (io_count ?s) < io_slots ?s")
      case True
      then show ?thesis using ne D(6) [OF True] nx by simp
    next
      case False
      then have "Suc (io_count ?s) = io_slots ?s" using full by simp
      then have h: "io_next ?s (io_tail ?s) = slot ?s 0" using nx slot_all [OF D(1)] slot_0 [OF D(1)] by simp
      then have "0 < io_count ?s" using ne t by (cases "io_count ?s") simp_all
      then show ?thesis using ne h D(5) [of 0] by simp
    qed
  qed
  then show ?thesis
    using assms(1,4,5) tl
    by (simp add: tftp_io_write_publish_def mem_store_def no_failures_def file_fit_def slot_reserved_def io_next_def Let_def)
qed

lemma write_drain_fit:
  assumes "no_failures w" "write_ok (io w)" "\<And>dp. \<not> slot_reserved (io w) dp"
  shows "\<exists>w'. tftp_io_write_drain w = (0, w') \<and> no_failures w' \<and> (\<forall>dp. \<not> slot_reserved (io w') dp)
    \<and> io_count (io w') = 0 \<and> io_slots (io w') = io_slots (io w)"
proof -
  let ?w = "drain_loop w"
  have ff: "file_fit (io w)" using assms(1) by (simp add: no_failures_def)
  note F = drain_loop_fit [OF assms(2) ff, of "io_tail (io w)"]
  have "io_err (io ?w) = 0" "f_flush (io_file (io ?w)) = None" using F by (simp_all add: file_fit_def)
  then have run: "tftp_io_write_drain w = (0, ?w)" by (simp add: tftp_io_write_drain_def fflush_def)
  have "send_plan ?w = send_plan w" by (rule send_plan_more) (rule drain_loop_more)
  moreover have "io_states (io w) ! io_tail (io w) \<noteq> SLOT_RESERVED" using assms(3) by (simp add: slot_reserved_def)
  ultimately show ?thesis
    using run F assms(1) drain_spec [OF assms(2) run] by (simp add: no_failures_def slot_reserved_def)
qed

lemma write_finish_fit:
  assumes "no_failures w"
  shows "\<exists>w'. tftp_io_write_finish w = (0, w') \<and> no_failures w' \<and> io_slots (io w') = io_slots (io w)"
  using assms
  by (cases "io_ops (io w)"; cases "io_write_cr (io w)")
     (simp_all add: tftp_io_write_finish_def ops_write_finish_def octet_write_finish_def netascii_write_finish_def
        fflush_def putc_fit no_failures_def file_fit_def)

subsection \<open>The interpretations\<close>

lemma socket_send_fit: "no_failures w \<Longrightarrow> 0 \<le> fst (socket_send p w) \<and> no_failures (snd (socket_send p w))"
  by (simp add: socket_send_def no_failures_def)

lemma transport_fit:
  "no_failures w \<Longrightarrow> 0 \<le> fst (xsend daemon_xfer_ops p w) \<and> no_failures (snd (xsend daemon_xfer_ops p w))"
  "no_failures w \<Longrightarrow> 0 \<le> fst (xsend client_xfer_ops p w) \<and> no_failures (snd (xsend client_xfer_ops p w))"
  "no_failures w \<Longrightarrow> no_failures (xreceived daemon_xfer_ops p n w) \<and> no_failures (xretry_enter daemon_xfer_ops b w)
     \<and> no_failures (xretry_leave daemon_xfer_ops w) \<and> no_failures (xwait_begin daemon_xfer_ops w)"
  "no_failures w \<Longrightarrow> no_failures (xreceived client_xfer_ops p n w) \<and> no_failures (xretry_enter client_xfer_ops b w)
     \<and> no_failures (xretry_leave client_xfer_ops w) \<and> no_failures (xwait_begin client_xfer_ops w)"
  using socket_send_fit [of w p]
  by (simp_all add: daemon_xfer_ops_def daemon_xfer_send_def daemon_xfer_received_def daemon_xfer_retry_enter_def
      daemon_xfer_retry_leave_def daemon_xfer_wait_begin_def client_xfer_ops_def client_xfer_send_def
      client_xfer_received_def client_xfer_retry_enter_def client_xfer_retry_leave_def client_xfer_wait_begin_def
      no_failures_def Let_def)

lemma source_fit:
  assumes "no_failures w"
  shows "read_ok (io w) \<Longrightarrow> \<exists>pc fin w'. read_window tftp_io_xfer_ops w = (Some (pc, fin), w') \<and> no_failures w'
      \<and> io_window (io w') = io_window (io w) \<and> pc = min (io_window (io w)) (length (blocks_left (io w)))"
    and "no_failures (snd (read_packet tftp_io_xfer_ops i w))
      \<and> io_window (io (snd (read_packet tftp_io_xfer_ops i w))) = io_window (io w)"
    and "no_failures (mstore tftp_io_xfer_ops dp h w) \<and> io_window (io (mstore tftp_io_xfer_ops dp h w)) = io_window (io w)"
    and "no_failures (read_release tftp_io_xfer_ops w) \<and> io_window (io (read_release tftp_io_xfer_ops w)) = io_window (io w)"
  using assms read_window_fit [OF assms] release_loop_fit [of "io w" "io_held (io w)"]
  by (simp_all add: tftp_io_xfer_ops_def tftp_io_read_packet_def mem_store_def tftp_io_read_release_def
      no_failures_def file_fit_def)

lemmas sink_fit = writer_reserve_fit publish_fit write_drain_fit write_finish_fit

interpretation live_download:
  reliable_link daemon_xfer_ops tftp_io_xfer_ops io sent_packets read_ok held_packets blocks_left no_failures io_window
    client_xfer_ops tftp_io_xfer_ops io sent_packets write_ok io_blocksize slot_reserved
    "data_accepted m" "\<lambda>s. io_count s = 0" "data_complete m" no_failures io_count io_slots for m
  by (unfold_locales; (rule transport_fit source_fit)?; (simp add: tftp_io_xfer_ops_def sink_fit)?)

interpretation live_upload:
  reliable_link client_xfer_ops tftp_io_xfer_ops io sent_packets read_ok held_packets blocks_left no_failures io_window
    daemon_xfer_ops tftp_io_xfer_ops io sent_packets write_ok io_blocksize slot_reserved
    "data_accepted m" "\<lambda>s. io_count s = 0" "data_complete m" no_failures io_count io_slots for m
  by (unfold_locales; (rule transport_fit source_fit)?; (simp add: tftp_io_xfer_ops_def sink_fit)?)

section \<open>Transfers between client and daemon\<close>

definition transfer_done :: "FILE \<Rightarrow> (xfer_world, xfer_world) link \<Rightarrow> bool" where
  "transfer_done f l \<longleftrightarrow>
     (\<exists>r. snd_out l = Finished r \<and> status r = TFTP_XFER_OK) \<and> (\<exists>r. rcv_out l = Finished r \<and> status r = TFTP_XFER_OK)
     \<and> f_out (io_file (io (rcv_world l))) = f_in f"

text \<open>The rings hold a window, as \<open>tftp_io_reader_start\<close> and \<open>tftp_io_writer_start\<close> make them.\<close>

definition rings_fit :: "xfer_world tftp_xfer \<Rightarrow> xfer_world \<Rightarrow> xfer_world \<Rightarrow> bool" where
  "rings_fit xs sw rw \<longleftrightarrow> 0 < windowsize xs \<and> io_window (io sw) = windowsize xs \<and> windowsize xs \<le> io_slots (io rw)"

lemma fresh_receiver_idle:
  assumes "fresh_receiver xr conv rw"
  shows "io_count (io rw) = 0" "\<not> slot_reserved (io rw) dp"
  using assms
  by (auto simp: fresh_receiver_def tftp_io_writer_start_def io_start_def slot_reserved_def split: if_splits
      dest!: sym [of _ "io rw"])

lemma live_completes:
  assumes s: "fresh_sender xs conv f sw" and r: "fresh_receiver xr conv rw"
    and x: "x_ops xs = daemon_xfer_ops \<and> x_ops xr = client_xfer_ops \<or> x_ops xs = client_xfer_ops \<and> x_ops xr = daemon_xfer_ops"
      "blocksize xs = blocksize xr" "rollover xs = rollover xr" "windowsize xs = windowsize xr" "rings_fit xs sw rw"
    and sz: "length (encode (mode_of conv) (f_in f)) div blocksize xs < 65535"
      "length (encode (mode_of conv) (f_in f)) \<le> unat (max_bytes xr)" "int (blocksize xr) + 4 \<le> isz"
    and nf: "no_failures sw" "no_failures rw"
    and l0: "l0 = start_transfer xs xr isz rep sw rw" and n: "2 * length (file_blocks xs conv f) \<le> n"
  shows "transfer_done f (lossless xs xr n 0 (length (sent_packets (rcv_world l0))) l0)"
proof -
  let ?bl = "file_blocks xs conv f" and ?m = "mode_of conv"
  let ?f = "lossless_step xs tftp_io_xfer_ops sent_packets xr tftp_io_xfer_ops sent_packets"
  note S = fresh_senderD [OF s] and R = fresh_receiverD [OF r] and I = fresh_receiver_idle [OF r]
  obtain sout sw' where snd: "tftp_xfer_send xs sw = (sout, sw')" by (metis surj_pair)
  obtain rout rw' where rcv: "tftp_xfer_recv xr isz rep None rw = (rout, rw')" by (metis surj_pair)
  define l where "l = \<lparr>snd_out = sout, snd_world = sw', rcv_out = rout, rcv_world = rw'\<rparr>"
  have l: "l0 = l" "rcv_world l = rw'" using l0 snd rcv by (simp_all add: start_transfer_def l_def)
  have bl: "proper_blocks (blocksize xs) ?bl"
    using proper_file_blocks [OF S(3) sz(1)] by (simp add: file_blocks_def)
  have lim: "length (concat ?bl) \<le> unat (max_bytes xr)"
    using sz(2) by (simp add: file_blocks_def concat_chunks)
  have w: "0 < windowsize xs" "io_window (io sw) = windowsize xs" "windowsize xr \<le> io_slots (io rw)"
    using x(4,5) by (simp_all add: rings_fit_def)
  from x(1) show ?thesis
  proof
    assume o: "x_ops xs = daemon_xfer_ops \<and> x_ops xr = client_xfer_ops"
    have m: "live_download.matched xs xr ?bl"
      using o x bl lim w(1) by (simp add: live_download.matched_def)
    have "live_download.steady ?m xs xr ?bl 0 0 (0, length (sent_packets rw'), l)"
      unfolding l_def
      by (rule live_download.start_steady [OF m S(1,2,4,5) nf(1) w(2) R(1-3,7,6) sz(3) nf(2) I(1) w(3) I(2) snd rcv])
    from live_download.lossless_completes [OF m this n] show ?thesis
      using complete_file [of conv _ xs f]
      by (auto simp: lossless_def l transfer_done_def live_download.transferred_def live_download.received_all_def)
  next
    assume o: "x_ops xs = client_xfer_ops \<and> x_ops xr = daemon_xfer_ops"
    have m: "live_upload.matched xs xr ?bl"
      using o x bl lim w(1) by (simp add: live_upload.matched_def)
    have "live_upload.steady ?m xs xr ?bl 0 0 (0, length (sent_packets rw'), l)"
      unfolding l_def
      by (rule live_upload.start_steady [OF m S(1,2,4,5) nf(1) w(2) R(1-3,7,6) sz(3) nf(2) I(1) w(3) I(2) snd rcv])
    from live_upload.lossless_completes [OF m this n] show ?thesis
      using complete_file [of conv _ xs f]
      by (auto simp: lossless_def l transfer_done_def live_upload.transferred_def live_upload.received_all_def)
  qed
qed

lemma example_live:
  assumes "0 < wnd" "0 < bs"
  shows "rings_fit (example_xfer ops bs wnd) (world_of (reader_of conv wnd bs s) r) (world_of (writer_of conv wnd bs) r')"
    "no_failures (world_of (reader_of conv wnd bs s) r)" "no_failures (world_of (writer_of conv wnd bs) r')"
  using assms
  by (simp_all add: rings_fit_def example_xfer_def world_of_def reader_of_def writer_of_def tftp_io_reader_start_def
      tftp_io_writer_start_def io_start_def no_failures_def file_fit_def file_of_def)

end
