(* ===== verification/Threads.thy ===== *)
theory Threads
  imports File_Transfer
begin

text \<open>
  The helper threads of \<open>common/tftp-io.c\<close>. In threaded mode a second thread reads the file
  ahead of the sender, or writes behind the receiver; it shares the ring of packets with the
  engine under a lock.

  A step of a thread is what it does between two points where another thread may run: a
  section under the lock, or a call of a conversion outside of it, which touches only the
  file and the slot the thread owns. The schedule, a list of numbers, says how many steps the
  thread takes before the engine gets the lock; it is arbitrary. An engine that waits on the
  condition variable lets the thread run until the condition holds; \<open>blocked\<close> is set if that
  never happens. \<open>errno\<close> belongs to each thread. The operations that do not wait touch only what
  the thread does not, a slot the engine holds; the thread's steps around them are counted
  to the operation that waits next, or to the end of the one that waited last.

  The threaded adapter keeps the contracts \<open>xfer_source\<close> and \<open>xfer_sink\<close> of the engine under
  every schedule, so that transfers are as safe as without threads, and no wait is for ever.
\<close>

section \<open>Definitions\<close>

text \<open>
  \<open>RT_store\<close> and \<open>WT_fail\<close> carry the result of the conversion and \<open>errno\<close>. \<open>rt_aux\<close> is an auxiliary
  variable: the blocks that were not read yet when the current read began.
\<close>

datatype reader_pc = RT_lock | RT_read nat | RT_store int int | RT_exit

datatype writer_pc = WT_lock | WT_write nat int | WT_pop | WT_fail int | WT_exit

record thread_world = xfer_world +
  rt_pc :: reader_pc
  rt_aux :: "char list list"
  wt_pc :: writer_pc
  schedule :: "nat list"
  blocked :: bool

subsection \<open>The reader thread\<close>

definition reader_thread :: "'a thread_world_scheme \<Rightarrow> 'a thread_world_scheme option" where
  "reader_thread w =
     (case rt_pc w of
        RT_lock \<Rightarrow>
          if io_count (io w) = io_slots (io w) \<and> \<not> io_stopped (io w) then None
          else if io_stopped (io w) then Some (w\<lparr>rt_pc := RT_exit\<rparr>)
          else Some (w\<lparr>rt_pc := RT_read (io_tail (io w))\<rparr>)
      | RT_read dp \<Rightarrow>
          (case ops_read_packet dp w of (len, w1) \<Rightarrow>
             Some (w1\<lparr>errno := errno w, rt_pc := RT_store len (errno w1),
                      rt_aux := chunks (io_blocksize (io w)) (unread (io w))\<rparr>))
      | RT_store len e \<Rightarrow>
          if len < 0 then Some (w\<lparr>io := io_error e (io w), rt_pc := RT_exit\<rparr>)
          else let s = push_read len (io w)
               in Some (w\<lparr>io := s, rt_pc := (if io_eof s \<or> io_stopped s then RT_exit else RT_lock)\<rparr>)
      | RT_exit \<Rightarrow> None)"

fun run_reader :: "nat \<Rightarrow> 'a thread_world_scheme \<Rightarrow> 'a thread_world_scheme" where
  "run_reader 0 w = w"
| "run_reader (Suc n) w = (case reader_thread w of None \<Rightarrow> w | Some w' \<Rightarrow> run_reader n w')"

text \<open>The thread runs for as long as the schedule says before the engine gets the lock.\<close>

definition reader_turn :: "'a thread_world_scheme \<Rightarrow> 'a thread_world_scheme" where
  "reader_turn w = (case schedule w of [] \<Rightarrow> w | n # ns \<Rightarrow> run_reader n (w\<lparr>schedule := ns\<rparr>))"

fun reader_rank :: "reader_pc \<Rightarrow> nat" where
  "reader_rank RT_lock = 3"
| "reader_rank (RT_read dp) = 2"
| "reader_rank (RT_store len e) = 1"
| "reader_rank RT_exit = 0"

lemma reader_thread_decreases:
  assumes "wants_packet (io w)" "reader_thread w = Some w'"
  shows "((io_window (io w') - io_count (io w'), reader_rank (rt_pc w')),
     (io_window (io w) - io_count (io w), reader_rank (rt_pc w))) \<in> less_than <*lex*> less_than"
proof (cases "rt_pc w")
  case (RT_read dp)
  obtain len w1 where rd: "ops_read_packet dp w = (len, w1)" by (metis surj_pair)
  from ops_read_packet_frame [OF rd] assms RT_read rd show ?thesis by (auto simp: reader_thread_def)
qed (use assms in \<open>auto simp: reader_thread_def wants_packet_def io_error_def push_read_def Let_def split: if_splits\<close>)

text \<open>The wait for a window: the thread runs for as long as the window is incomplete.\<close>

function await_window :: "'a thread_world_scheme \<Rightarrow> 'a thread_world_scheme" where
  "await_window w =
     (if wants_packet (io w) then (case reader_thread w of None \<Rightarrow> w | Some w' \<Rightarrow> await_window w') else w)"
  by pat_completeness auto
termination
  by (relation "inv_image (less_than <*lex*> less_than) (\<lambda>w. (io_window (io w) - io_count (io w), reader_rank (rt_pc w)))")
     (auto simp del: in_lex_prod intro: reader_thread_decreases)

declare await_window.simps [simp del]

definition threaded_read_window :: "'a thread_world_scheme \<Rightarrow> (nat \<times> bool) option \<times> 'a thread_world_scheme" where
  "threaded_read_window w =
     (let w1 = reader_turn (await_window (reader_turn w))
      in if wants_packet (io w1) then (None, w1\<lparr>blocked := True\<rparr>) else tftp_io_read_window w1)"

definition threaded_read_release :: "'a thread_world_scheme \<Rightarrow> 'a thread_world_scheme" where
  "threaded_read_release w = tftp_io_read_release (reader_turn w)"

definition threaded_reader_ops :: "'a thread_world_scheme tftp_xfer_io_ops" where
  "threaded_reader_ops = tftp_io_xfer_ops\<lparr>read_window := threaded_read_window, read_release := threaded_read_release\<rparr>"

subsection \<open>The writer thread\<close>

definition writer_thread :: "'a thread_world_scheme \<Rightarrow> 'a thread_world_scheme option" where
  "writer_thread w =
     (case wt_pc w of
        WT_lock \<Rightarrow>
          if io_states (io w) ! io_head (io w) \<noteq> SLOT_READY \<and> \<not> io_stopped (io w) \<and> io_err (io w) = 0 then None
          else if io_stopped (io w) \<or> io_err (io w) \<noteq> 0 then Some (w\<lparr>wt_pc := WT_exit\<rparr>)
          else Some (w\<lparr>io := mark_writing (io w), wt_pc := WT_write (io_head (io w)) (io_lengths (io w) ! io_head (io w))\<rparr>)
      | WT_write dp len \<Rightarrow>
          (case ops_write_packet dp len w of (r, w1) \<Rightarrow>
             Some (w1\<lparr>errno := errno w, wt_pc := (if r \<noteq> len then WT_fail (errno w1) else WT_pop)\<rparr>))
      | WT_pop \<Rightarrow> Some (w\<lparr>io := pop_written (io w), wt_pc := WT_lock\<rparr>)
      | WT_fail e \<Rightarrow> Some (w\<lparr>io := io_error e (io w), wt_pc := WT_exit\<rparr>)
      | WT_exit \<Rightarrow> None)"

fun run_writer :: "nat \<Rightarrow> 'a thread_world_scheme \<Rightarrow> 'a thread_world_scheme" where
  "run_writer 0 w = w"
| "run_writer (Suc n) w = (case writer_thread w of None \<Rightarrow> w | Some w' \<Rightarrow> run_writer n w')"

definition writer_turn :: "'a thread_world_scheme \<Rightarrow> 'a thread_world_scheme" where
  "writer_turn w = (case schedule w of [] \<Rightarrow> w | n # ns \<Rightarrow> run_writer n (w\<lparr>schedule := ns\<rparr>))"

text \<open>
  A wait of the engine; the thread takes three steps for each packet of the ring, and at most
  three to finish the current one and to end, so the fuel is enough.
\<close>

fun await_writer :: "nat \<Rightarrow> (tftp_io \<Rightarrow> bool) \<Rightarrow> 'a thread_world_scheme \<Rightarrow> 'a thread_world_scheme" where
  "await_writer 0 P w = w"
| "await_writer (Suc n) P w =
     (if P (io w) then (case writer_thread w of None \<Rightarrow> w | Some w' \<Rightarrow> await_writer n P w') else w)"

definition writer_wait :: "(tftp_io \<Rightarrow> bool) \<Rightarrow> 'a thread_world_scheme \<Rightarrow> 'a thread_world_scheme" where
  "writer_wait P w = writer_turn (await_writer (3 * io_slots (io w) + 3) P (writer_turn w))"

definition tail_busy :: "tftp_io \<Rightarrow> bool" where
  "tail_busy s \<longleftrightarrow> io_states s ! io_tail s \<noteq> SLOT_EMPTY \<and> io_err s = 0"

definition undrained :: "tftp_io \<Rightarrow> bool" where
  "undrained s \<longleftrightarrow> io_count s \<noteq> 0 \<and> io_err s = 0"

definition threaded_write_reserve :: "'a thread_world_scheme \<Rightarrow> nat option \<times> 'a thread_world_scheme" where
  "threaded_write_reserve w =
     (let w1 = writer_wait tail_busy w
      in if tail_busy (io w1) then (None, w1\<lparr>blocked := True\<rparr>) else tftp_io_writer_reserve w1)"

definition threaded_write_drain :: "'a thread_world_scheme \<Rightarrow> int \<times> 'a thread_world_scheme" where
  "threaded_write_drain w =
     (let w1 = writer_wait undrained w
      in if undrained (io w1) then (-1, w1\<lparr>blocked := True\<rparr>) else tftp_io_write_drain w1)"

definition threaded_writer_ops :: "'a thread_world_scheme tftp_xfer_io_ops" where
  "threaded_writer_ops =
     tftp_io_xfer_ops\<lparr>write_reserve := threaded_write_reserve, write_drain := threaded_write_drain\<rparr>"

text \<open>Stopping waits for the end of the thread, which takes at most four steps.\<close>

definition tftp_io_stop :: "'a thread_world_scheme \<Rightarrow> 'a thread_world_scheme" where
  "tftp_io_stop w =
     (let w1 = run_writer 4 (run_reader 4 (w\<lparr>io := (io w)\<lparr>io_stopped := True\<rparr>\<rparr>))
      in if rt_pc w1 = RT_exit \<and> wt_pc w1 = WT_exit then w1 else w1\<lparr>blocked := True\<rparr>)"

section \<open>The reader keeps its contract\<close>

text \<open>The part of the state the reader and the engine share.\<close>

type_synonym reader_view = "tftp_io \<times> reader_pc \<times> char list list"

abbreviation reader_view :: "'a thread_world_scheme \<Rightarrow> reader_view" where
  "reader_view w \<equiv> (io w, rt_pc w, rt_aux w)"

definition ring_read :: "tftp_io \<Rightarrow> bool" where
  "ring_read s \<longleftrightarrow> ring_ok s \<and> io_window s \<le> io_slots s
     \<and> (\<forall>i < io_count s. 4 \<le> io_lengths s ! slot s i \<and> io_lengths s ! slot s i \<le> int (io_blocksize s) + 4)"

definition reader_ok :: "reader_view \<Rightarrow> bool" where
  "reader_ok v \<longleftrightarrow>
     (case v of (s, pc, aux) \<Rightarrow>
        ring_read s \<and> \<not> io_stopped s
        \<and> (case pc of
             RT_lock \<Rightarrow> \<not> io_eof s \<and> io_err s = 0 \<and> \<not> f_ferror (io_file s)
           | RT_read dp \<Rightarrow> dp = io_tail s \<and> io_count s < io_slots s \<and> \<not> io_eof s \<and> io_err s = 0 \<and> \<not> f_ferror (io_file s)
           | RT_store len e \<Rightarrow> io_count s < io_slots s \<and> \<not> io_eof s \<and> io_err s = 0 \<and> aux \<noteq> []
               \<and> (0 \<le> len \<longrightarrow> len \<le> int (io_blocksize s) \<and> \<not> f_ferror (io_file s)
                    \<and> aux = take (nat len) (th_data (io_packets s ! io_tail s))
                          # (if len = int (io_blocksize s) then chunks (io_blocksize s) (unread s) else []))
           | RT_exit \<Rightarrow> io_err s \<noteq> 0 \<or> io_eof s))"

definition reader_left :: "reader_view \<Rightarrow> char list list" where
  "reader_left v =
     (case v of (s, pc, aux) \<Rightarrow>
        read_queue s
        @ (case pc of
             RT_lock \<Rightarrow> chunks (io_blocksize s) (unread s)
           | RT_read dp \<Rightarrow> chunks (io_blocksize s) (unread s)
           | RT_store len e \<Rightarrow> aux
           | RT_exit \<Rightarrow> if io_err s \<noteq> 0 then aux else []))"

definition reader_held :: "reader_view \<Rightarrow> packet list" where
  "reader_held v = held_packets (fst v)"

lemma io_error_sel:
  "io_err (io_error e s) \<noteq> 0" "ring_read (io_error e s) = ring_read s" "read_queue (io_error e s) = read_queue s"
  "held_packets (io_error e s) = held_packets s" "io_stopped (io_error e s) = io_stopped s" "io_held (io_error e s) = io_held s"
  "io_window (io_error e s) = io_window s"
  by (simp_all add: io_error_def EIO_def ring_read_def ring_ok_def slot_def read_queue_def queued_def held_packets_def Let_def)

lemma push_read_held:
  assumes "ring_ok s" "io_count s < io_slots s"
  shows "held_packets (push_read len s) = held_packets s"
proof -
  have "queued (push_read len s) i = queued s i" if "i < io_held s" for i
  proof -
    have "i < io_count s" using that assms(1) by (simp add: ring_ok_def)
    then have "slot s i \<noteq> slot s (io_count s)" using slot_inj [of i s "io_count s"] assms(2) by auto
    then show ?thesis using assms(1) by (simp add: queued_def push_read_def slot_def ring_ok_def)
  qed
  then show ?thesis by (simp add: held_packets_def push_read_def)
qed

lemma read_packet_stopped:
  "ops_read_packet dp w = (r, w') \<Longrightarrow> io_stopped (io w') = io_stopped (io w)"
proof (cases "io_ops (io w)")
  case netascii_io_ops
  have fill: "netascii_fill i p s = (ok, p', s') \<Longrightarrow> io_stopped s' = io_stopped s" for i p s ok p' s'
    by (induction i p s arbitrary: ok p' s' rule: netascii_fill.induct) (auto split: if_splits prod.splits option.splits)
  obtain ok p s where "netascii_fill (io_blocksize (io w)) [] (io w) = (ok, p, s)" by (metis prod_cases3)
  with fill [OF this] netascii_io_ops show "ops_read_packet dp w = (r, w') \<Longrightarrow> ?thesis"
    by (auto simp: ops_read_packet_def netascii_read_packet_def put_data_def Let_def split: if_splits)
qed (auto simp: ops_read_packet_def octet_read_packet_def put_data_def Let_def split: prod.splits if_splits)

text \<open>A step of the thread keeps the invariant, the blocks that are left and the packets the engine holds.\<close>

lemma reader_thread_ok:
  assumes ok: "reader_ok (reader_view w)" and step: "reader_thread w = Some w'"
  shows "reader_ok (reader_view w') \<and> reader_left (reader_view w') = reader_left (reader_view w)
    \<and> held_packets (io w') = held_packets (io w) \<and> sent_packets w' = sent_packets w"
proof (cases "rt_pc w")
  case RT_lock
  then have w': "w' = w\<lparr>rt_pc := RT_read (io_tail (io w))\<rparr>" "io_count (io w) \<noteq> io_slots (io w)"
    using ok step by (auto simp: reader_thread_def reader_ok_def split: if_splits)
  moreover have "io_count (io w) \<le> io_slots (io w)" using ok by (simp add: reader_ok_def ring_read_def ring_ok_def)
  ultimately show ?thesis using ok RT_lock by (simp add: reader_ok_def reader_left_def)
next
  case (RT_read dp)
  obtain len w1 where rd: "ops_read_packet dp w = (len, w1)" by (metis surj_pair)
  let ?b = "io_blocksize (io w)" and ?u = "unread (io w)"
  have w': "io w' = io w1" "rt_pc w' = RT_store len (errno w1)" "rt_aux w' = chunks ?b ?u"
      "sent_packets w' = sent_packets w1"
    using step RT_read rd by (auto simp: reader_thread_def)
  have R: "ring_ok (io w)" "io_count (io w) < io_slots (io w)" "\<not> f_ferror (io_file (io w))" "dp = io_tail (io w)"
      "io_window (io w) \<le> io_slots (io w)" "\<not> io_eof (io w)" "io_err (io w) = 0" "\<not> io_stopped (io w)"
    using ok RT_read by (simp_all add: reader_ok_def ring_read_def)
  note rd' = rd [unfolded R(4)]
  note fr = ops_read_packet_frame [OF rd'] and sp = ops_read_packet_spec [OF R(3) rd'] and T = read_into_tail [OF R(1-3) rd']
  have ring: "ring_read (io w1)" using ok T(1,4) fr R(5) by (simp add: reader_ok_def ring_read_def)
  have st: "\<not> io_stopped (io w1)" using R(8) read_packet_stopped [OF rd] by simp
  have "chunks ?b ?u = take (nat len) (th_data (io_packets (io w1) ! io_tail (io w1)))
      # (if len = int ?b then chunks ?b (unread (io w1)) else [])" if "0 \<le> len"
  proof -
    have "len = int (length (take ?b ?u))" using sp(3) that by (auto split: if_splits)
    moreover have "0 < ?b" using R(1) by (simp add: ring_ok_def)
    ultimately show ?thesis
      using T(5) that fr sp(1) by (cases "length ?u < ?b") (simp_all add: chunks_short chunks_full)
  qed
  moreover have "sent_packets w1 = sent_packets w"
    using ops_packet_more(1) [of dp w] rd by (cases w; cases w1) simp
  ultimately show ?thesis
    using w' ring st fr R T(2,3,5) sp(4) RT_read by (auto simp: reader_ok_def reader_left_def)
next
  case (RT_store len e)
  show ?thesis
  proof (cases "len < 0")
    case True
    then have "w' = w\<lparr>io := io_error e (io w), rt_pc := RT_exit\<rparr>" using step RT_store by (simp add: reader_thread_def)
    then show ?thesis using ok RT_store by (simp add: reader_ok_def reader_left_def io_error_sel)
  next
    case False
    let ?s = "push_read len (io w)"
    have w': "w' = w\<lparr>io := ?s, rt_pc := (if io_eof ?s \<or> io_stopped ?s then RT_exit else RT_lock)\<rparr>"
      using step RT_store False by (simp add: reader_thread_def Let_def)
    have R: "ring_read (io w)" "io_count (io w) < io_slots (io w)" "\<not> io_eof (io w)" "io_err (io w) = 0"
        "len \<le> int (io_blocksize (io w))" "\<not> f_ferror (io_file (io w))" "\<not> io_stopped (io w)"
        "rt_aux w = take (nat len) (th_data (io_packets (io w) ! io_tail (io w)))
           # (if len = int (io_blocksize (io w)) then chunks (io_blocksize (io w)) (unread (io w)) else [])"
      using ok RT_store False by (simp_all add: reader_ok_def)
    have ring: "ring_ok (io w)" using R(1) by (simp add: ring_read_def)
    note P = push_append [OF ring R(2) _ R(5)]
    have "ring_read ?s" using P(1,3) False R(1) by (simp add: ring_read_def) (simp add: push_read_def)
    moreover have "io_eof ?s = (len \<noteq> int (io_blocksize (io w)))" "\<not> io_stopped ?s" "io_err ?s = 0"
        "\<not> f_ferror (io_file ?s)" "unread ?s = unread (io w)" "io_blocksize ?s = io_blocksize (io w)"
      using R by (simp_all add: push_read_def unread_def)
    ultimately show ?thesis
      using w' P(2) False R(8) push_read_held [OF ring R(2)] RT_store
      by (cases "len = int (io_blocksize (io w))") (simp_all add: reader_ok_def reader_left_def)
  qed
next
  case RT_exit
  with step show ?thesis by (simp add: reader_thread_def)
qed

definition reader_kept :: "'a thread_world_scheme \<Rightarrow> 'a thread_world_scheme \<Rightarrow> bool" where
  "reader_kept w w' \<longleftrightarrow>
     (reader_ok (reader_view w) \<longrightarrow>
        reader_ok (reader_view w') \<and> reader_left (reader_view w') = reader_left (reader_view w)
        \<and> held_packets (io w') = held_packets (io w))
     \<and> sent_packets w' = sent_packets w"

lemma reader_kept_refl: "reader_kept w w"
  by (simp add: reader_kept_def)

lemma reader_kept_trans: "reader_kept w w1 \<Longrightarrow> reader_kept w1 w2 \<Longrightarrow> reader_kept w w2"
  by (simp add: reader_kept_def)

lemma thread_sent: "reader_thread w = Some w' \<Longrightarrow> sent_packets w' = sent_packets w"
proof (cases "rt_pc w")
  case (RT_read dp)
  obtain len w1 where rd: "ops_read_packet dp w = (len, w1)" by (metis surj_pair)
  have "sent_packets w1 = sent_packets w"
    using ops_packet_more(1) [of dp w] rd by (cases w; cases w1) simp
  with rd RT_read show "reader_thread w = Some w' \<Longrightarrow> ?thesis" by (auto simp: reader_thread_def)
qed (auto simp: reader_thread_def Let_def split: if_splits)

lemma reader_thread_kept: "reader_thread w = Some w' \<Longrightarrow> reader_kept w w'"
  using reader_thread_ok [of w w'] thread_sent [of w w'] by (simp add: reader_kept_def)

lemma run_reader_kept: "reader_kept w (run_reader n w)"
proof (induction n arbitrary: w)
  case (Suc n)
  then show ?case
    using reader_kept_trans [OF reader_thread_kept Suc.IH] by (simp add: reader_kept_refl split: option.splits)
qed (simp add: reader_kept_refl)

lemma reader_turn_kept: "reader_kept w (reader_turn w)"
  using run_reader_kept [of "w\<lparr>schedule := tl (schedule w)\<rparr>" "hd (schedule w)"]
  by (cases "schedule w") (simp_all add: reader_turn_def reader_kept_def)

lemma await_window_kept: "reader_kept w (await_window w)"
proof (induction w rule: await_window.induct)
  case (1 w)
  show ?case
  proof (cases "wants_packet (io w)")
    case True
    show ?thesis
    proof (cases "reader_thread w")
      case None
      with True show ?thesis by (subst await_window.simps) (simp add: reader_kept_refl)
    next
      case (Some w')
      with reader_kept_trans [OF reader_thread_kept [OF Some] 1 [OF True Some]] True show ?thesis
        by (subst await_window.simps) simp
    qed
  next
    case False
    then show ?thesis by (subst await_window.simps) (simp add: reader_kept_refl)
  qed
qed

lemma window_turns_kept: "reader_kept w (reader_turn (await_window (reader_turn w)))"
  by (rule reader_kept_trans [OF reader_kept_trans [OF reader_turn_kept await_window_kept] reader_turn_kept])

lemma no_fill: "\<not> wants_packet (io w) \<Longrightarrow> read_fill w = w"
  by (subst read_fill.simps) simp

text \<open>The window that is granted consists of the next blocks of the file.\<close>

lemma window_granted:
  assumes ok: "reader_ok (reader_view w)" and nw: "\<not> wants_packet (io w)"
    and run: "tftp_io_read_window w = (Some (pc, fin), w')"
  shows "reader_ok (reader_view w') \<and> reader_left (reader_view w') = reader_left (reader_view w)
    \<and> length (held_packets (io w')) = pc \<and> map th_data (held_packets (io w')) = take pc (reader_left (reader_view w))
    \<and> (fin \<longleftrightarrow> pc = length (reader_left (reader_view w)))"
proof -
  define s where "s = io w"
  define h where "h = (if io_count s < io_window s then io_count s else io_window s)"
  have r: "io_err s = 0" "pc = h" "fin = (io_eof s \<and> h = io_count s)" "w' = w\<lparr>io := s\<lparr>io_held := h\<rparr>\<rparr>"
    using run by (auto simp: tftp_io_read_window_def Let_def no_fill [OF nw] s_def h_def split: if_splits)
  have h: "h \<le> io_count s" by (simp add: h_def)
  have q: "queued (s\<lparr>io_held := h\<rparr>) = queued s" by (rule ext) (simp add: queued_def slot_def)
  have rq: "read_queue (s\<lparr>io_held := h\<rparr>) = read_queue s" by (simp add: read_queue_def q)
  have hp: "held_packets (s\<lparr>io_held := h\<rparr>) = map (queued s) [0..<h]" by (simp add: held_packets_def q)
  obtain rest where rest: "reader_left (reader_view w) = read_queue s @ rest" "rest = [] \<longleftrightarrow> io_eof s"
    using ok r(1) by (cases "rt_pc w") (auto simp: reader_left_def reader_ok_def s_def)
  have "take h (read_queue s @ rest) = map th_data (map (queued s) [0..<h])"
    using h by (simp add: read_queue_def take_map comp_def)
  moreover have "reader_left (reader_view w') = reader_left (reader_view w)"
    using r by (cases "rt_pc w") (simp_all add: reader_left_def rq s_def [symmetric] unread_def)
  moreover have "reader_ok (reader_view w')"
    using ok r h by (cases "rt_pc w")
      (simp_all add: reader_ok_def ring_read_def ring_ok_def slot_def unread_def s_def [symmetric])
  moreover have "(io_eof s \<and> h = io_count s) = (h = length (read_queue s @ rest))"
    using h rest(2) by (cases rest) (auto simp: read_queue_def)
  ultimately show ?thesis using r rest(1) hp by simp
qed

text \<open>The engine never waits for ever: a thread that is waited for can take a step.\<close>

lemma reader_progress:
  assumes "reader_ok (reader_view w)" "wants_packet (io w)"
  shows "reader_thread w \<noteq> None"
  using assms
  by (cases "rt_pc w") (auto simp: reader_thread_def reader_ok_def ring_read_def wants_packet_def Let_def split: prod.splits)

lemma await_window_done: "reader_ok (reader_view w) \<Longrightarrow> \<not> wants_packet (io (await_window w))"
proof (induction w rule: await_window.induct)
  case (1 w)
  show ?case
  proof (cases "wants_packet (io w)")
    case True
    then obtain w' where w': "reader_thread w = Some w'" using reader_progress [OF 1(2)] by blast
    with 1(1) [OF True w'] reader_thread_ok [OF 1(2) w'] True show ?thesis by (subst await_window.simps) simp
  next
    case False
    then show ?thesis by (subst await_window.simps) simp
  qed
qed

lemma window_stays:
  assumes "\<not> wants_packet (io w)" "reader_thread w = Some w'"
  shows "\<not> wants_packet (io w')"
proof (cases "rt_pc w")
  case (RT_read dp)
  obtain len w1 where rd: "ops_read_packet dp w = (len, w1)" by (metis surj_pair)
  from ops_read_packet_frame [OF rd] assms RT_read rd show ?thesis by (auto simp: reader_thread_def wants_packet_def)
next
  case (RT_store len e)
  then show ?thesis
    using assms io_error_sel(1) [of e "io w"]
    by (auto simp: reader_thread_def wants_packet_def push_read_def Let_def split: if_splits)
qed (use assms in \<open>auto simp: reader_thread_def split: if_splits\<close>)

lemma run_reader_stays: "\<not> wants_packet (io w) \<Longrightarrow> \<not> wants_packet (io (run_reader n w))"
proof (induction n arbitrary: w)
  case (Suc n)
  then show ?case using window_stays [OF Suc.prems] by (simp split: option.splits)
qed simp

lemma turn_stays: "\<not> wants_packet (io w) \<Longrightarrow> \<not> wants_packet (io (reader_turn w))"
  using run_reader_stays [of "w\<lparr>schedule := tl (schedule w)\<rparr>"] by (cases "schedule w") (simp_all add: reader_turn_def)

lemma read_window_waits:
  assumes "reader_ok (reader_view w)"
  shows "\<not> wants_packet (io (reader_turn (await_window (reader_turn w))))"
  using assms reader_turn_kept [of w] by (intro turn_stays await_window_done) (simp add: reader_kept_def)

subsection \<open>Releasing and numbering packets\<close>

text \<open>The same state without a pending error: the lemmas on the ring apply to it.\<close>

definition calm :: "tftp_io \<Rightarrow> tftp_io" where
  "calm s = s\<lparr>io_err := 0, io_file := (io_file s)\<lparr>f_ferror := False\<rparr>\<rparr>"

lemma calm_sel [simp]:
  "io_count (calm s) = io_count s" "io_held (calm s) = io_held s" "io_head (calm s) = io_head s" "io_tail (calm s) = io_tail s"
  "io_slots (calm s) = io_slots s" "io_packets (calm s) = io_packets s" "io_lengths (calm s) = io_lengths s"
  "io_packetsize (calm s) = io_packetsize s" "io_blocksize (calm s) = io_blocksize s" "io_window (calm s) = io_window s"
  "io_eof (calm s) = io_eof s" "slot (calm s) i = slot s i" "queued (calm s) i = queued s i" "ring_ok (calm s) = ring_ok s"
  "held_packets (calm s) = held_packets s" "read_queue (calm s) = read_queue s" "unread (calm s) = unread s"
  by (simp_all add: calm_def slot_def queued_def ring_ok_def held_packets_def read_queue_def unread_def)

lemma read_ok_calm: "read_ok (calm s) = ring_read s"
  by (simp add: read_ok_def ring_read_def) (simp add: calm_def)

lemma release_calm: "release_loop k (calm s) = calm (release_loop k s)"
proof (induction k arbitrary: s)
  case (Suc k)
  have "(calm s)\<lparr>io_head := h, io_count := c, io_held := k\<rparr> = calm (s\<lparr>io_head := h, io_count := c, io_held := k\<rparr>)" for h c
    by (simp add: calm_def)
  moreover have "io_next (calm s) = io_next s" by (rule ext) (simp add: io_next_def)
  ultimately show ?case by (simp add: Suc.IH)
qed simp

lemma release_sel:
  "io_tail (release_loop k s) = io_tail s \<and> io_packets (release_loop k s) = io_packets s \<and> io_slots (release_loop k s) = io_slots s
   \<and> io_blocksize (release_loop k s) = io_blocksize s \<and> io_eof (release_loop k s) = io_eof s \<and> io_ops (release_loop k s) = io_ops s
   \<and> io_newline (release_loop k s) = io_newline s \<and> io_prevchar (release_loop k s) = io_prevchar s
   \<and> io_err (release_loop k s) = io_err s \<and> io_file (release_loop k s) = io_file s \<and> io_stopped (release_loop k s) = io_stopped s
   \<and> io_count (release_loop k s) = io_count s - k"
  by (induction k arbitrary: s) simp_all

lemma release_unread: "unread (release_loop k s) = unread s"
  using release_sel [of k s] by (simp add: unread_def)

lemma release_ok_threaded:
  assumes ok: "reader_ok (reader_view w)"
  shows "reader_ok (reader_view (tftp_io_read_release w))
    \<and> reader_left (reader_view (tftp_io_read_release w)) = drop (length (held_packets (io w))) (reader_left (reader_view w))"
proof -
  let ?k = "io_held (io w)" and ?s = "release_loop (io_held (io w)) (io w)"
  have ring: "ring_read (io w)" using ok by (simp add: reader_ok_def)
  then have k: "?k \<le> io_count (io w)" by (simp add: ring_read_def ring_ok_def)
  have R: "ring_read ?s" "blocks_left (calm ?s) = drop ?k (blocks_left (calm (io w)))"
    using release_loop_spec [of "calm (io w)" ?k] ring by (simp_all add: release_calm read_ok_calm)
  note sel = release_sel [of ?k "io w"] release_unread [of ?k "io w"]
  have "read_queue ?s = drop ?k (read_queue (io w))"
    using R(2) k sel by (simp add: blocks_left_def read_queue_def)
  then show ?thesis
    using ok R(1) k sel by (cases "rt_pc w")
      (auto simp: tftp_io_read_release_def reader_ok_def reader_left_def held_packets_def read_queue_def)
qed

lemma store_ok_threaded:
  assumes ok: "reader_ok (reader_view w)" and n: "n < length (held_packets (io w))" and h: "length h = 4"
  shows "reader_ok (reader_view (mem_store (slot (io w) n) h w))
    \<and> reader_left (reader_view (mem_store (slot (io w) n) h w)) = reader_left (reader_view w)
    \<and> held_packets (io (mem_store (slot (io w) n) h w)) = (held_packets (io w))[n := h @ drop 4 (held_packets (io w) ! n)]"
proof -
  let ?c = "w\<lparr>io := calm (io w)\<rparr>" and ?w = "mem_store (slot (io w) n) h w"
  have ring: "ring_read (io w)" using ok by (simp add: reader_ok_def)
  have c: "io (mem_store (slot (io w) n) h ?c) = calm (io ?w)" by (simp add: mem_store_def) (simp add: calm_def)
  have S: "ring_read (io ?w)" "blocks_left (calm (io ?w)) = blocks_left (calm (io w))"
      "held_packets (io ?w) = (held_packets (io w))[n := h @ drop 4 (held_packets (io w) ! n)]"
    using store_header_spec [of ?c n h] ring n h c by (simp_all add: read_ok_calm)
  have keep: "io_eof (io ?w) = io_eof (io w)" "unread (io ?w) = unread (io w)" "io_blocksize (io ?w) = io_blocksize (io w)"
      "io_count (io ?w) = io_count (io w)" "io_slots (io ?w) = io_slots (io w)" "io_tail (io ?w) = io_tail (io w)"
      "io_err (io ?w) = io_err (io w)" "io_file (io ?w) = io_file (io w)" "io_stopped (io ?w) = io_stopped (io w)"
    by (simp_all add: mem_store_def unread_def)
  have rq: "read_queue (io ?w) = read_queue (io w)" using S(2) keep by (simp add: blocks_left_def)
  have "n < io_count (io w)" "io_tail (io w) = slot (io w) (io_count (io w))"
    using n ring by (simp_all add: held_packets_def ring_read_def ring_ok_def)
  then have tail: "io_packets (io ?w) ! io_tail (io w) = io_packets (io w) ! io_tail (io w)" if "io_count (io w) < io_slots (io w)"
    using slot_inj [of n "io w" "io_count (io w)"] that by (fastforce simp: mem_store_def)
  have "rt_pc ?w = rt_pc w" "rt_aux ?w = rt_aux w" by (simp_all add: mem_store_def)
  then show ?thesis
    using ok S keep rq tail by (cases "rt_pc w") (auto simp: reader_ok_def reader_left_def)
qed

interpretation threaded_source:
  xfer_source threaded_reader_ops reader_view sent_packets reader_ok reader_held reader_left
proof (unfold_locales, goal_cases)
  case (1 w)
  have k: "sent_packets (reader_turn (await_window (reader_turn w))) = sent_packets w"
    using window_turns_kept [of w] by (simp add: reader_kept_def)
  have "sent_packets (snd (tftp_io_read_window v)) = sent_packets v" for v :: "'a thread_world_scheme"
    using adapter_more(1) [of v] by (cases v; cases "snd (tftp_io_read_window v)") simp
  then show ?case using k by (simp add: threaded_reader_ops_def threaded_read_window_def Let_def)
next
  case (2 w pc fin w')
  let ?w = "reader_turn (await_window (reader_turn w))"
  have k: "reader_ok (reader_view ?w)" "reader_left (reader_view ?w) = reader_left (reader_view w)"
    using window_turns_kept [of w] 2(1) by (simp_all add: reader_kept_def)
  have nw: "\<not> wants_packet (io ?w)" by (rule read_window_waits [OF 2(1)])
  have "tftp_io_read_window ?w = (Some (pc, fin), w')"
    using 2(2) nw by (simp add: threaded_reader_ops_def threaded_read_window_def Let_def)
  from window_granted [OF k(1) nw this] k(2) show ?case by (simp add: reader_held_def)
next
  case (3 v p)
  then have "read_ok (calm (fst v))" by (auto simp: reader_ok_def read_ok_calm)
  from tio_source.held_length [OF this, of p] 3(2) show ?case by (simp add: reader_held_def)
next
  case (4 w n)
  have ring: "ring_read (io w)" using 4(1) by (simp add: reader_ok_def)
  have n: "n < length (held_packets (io w))" "n < io_held (io w)" using 4(2) by (simp_all add: reader_held_def held_packets_def)
  then have c: "n < io_count (io w)" using ring by (simp add: ring_read_def ring_ok_def)
  have "length (held_packets (io w) ! n) = nat (io_lengths (io w) ! slot (io w) n)"
    using queued_length(1) [of "calm (io w)" n] ring c n by (simp add: read_ok_calm held_packets_def)
  moreover have "sent_packets (mem_store dp h w) = sent_packets w" for dp h by (simp add: mem_store_def)
  ultimately show ?case
    using store_ok_threaded [OF 4(1) n(1)] n
    by (intro exI [of _ "slot (io w) n"])
       (simp add: threaded_reader_ops_def tftp_io_xfer_ops_def tftp_io_read_packet_def slot_def [symmetric] mem_load_def
          reader_held_def held_packets_def queued_def)
next
  case (5 w n)
  have ring: "ring_read (io w)" using 5(1) by (simp add: reader_ok_def)
  have n: "n < io_held (io w)" "n < io_count (io w)"
    using 5(2) ring by (simp_all add: reader_held_def held_packets_def ring_read_def ring_ok_def)
  with queued_length(1) [of "calm (io w)" n] ring show ?case
    by (simp add: threaded_reader_ops_def tftp_io_xfer_ops_def tftp_io_read_length_def slot_def [symmetric] reader_held_def
        held_packets_def read_ok_calm)
next
  case (6 w)
  have k: "reader_ok (reader_view (reader_turn w))" "reader_left (reader_view (reader_turn w)) = reader_left (reader_view w)"
      "held_packets (io (reader_turn w)) = held_packets (io w)" "sent_packets (reader_turn w) = sent_packets w"
    using reader_turn_kept [of w] 6 by (simp_all add: reader_kept_def)
  with release_ok_threaded [OF k(1)] show ?case
    by (simp add: threaded_reader_ops_def threaded_read_release_def reader_held_def) (simp add: tftp_io_read_release_def)
qed

section \<open>The writer keeps its contract\<close>

type_synonym writer_view = "tftp_io \<times> writer_pc"

abbreviation writer_view :: "'a thread_world_scheme \<Rightarrow> writer_view" where
  "writer_view w \<equiv> (io w, wt_pc w)"

text \<open>The ring as it is when the thread is done with the packet it works on.\<close>

definition settled_ring :: "writer_view \<Rightarrow> tftp_io" where
  "settled_ring v =
     (case v of (s, pc) \<Rightarrow>
        (case pc of
           WT_write dp len \<Rightarrow> s\<lparr>io_states := (io_states s)[io_head s := SLOT_READY]\<rparr>
         | WT_pop \<Rightarrow> pop_written s
         | _ \<Rightarrow> s))"

definition writer_failed :: "writer_view \<Rightarrow> bool" where
  "writer_failed v \<longleftrightarrow> (case v of (s, pc) \<Rightarrow> io_err s \<noteq> 0 \<or> (\<exists>e. pc = WT_fail e))"

definition writer_busy :: "writer_view \<Rightarrow> bool" where
  "writer_busy v \<longleftrightarrow>
     (case v of (s, pc) \<Rightarrow>
        (case pc of
           WT_write dp len \<Rightarrow> io_count s \<noteq> 0
         | WT_pop \<Rightarrow> io_count s \<noteq> 0
         | WT_fail e \<Rightarrow> io_count s \<noteq> 0
         | _ \<Rightarrow> True))"

definition writer_ok :: "writer_view \<Rightarrow> bool" where
  "writer_ok v \<longleftrightarrow>
     (case v of (s, pc) \<Rightarrow>
        writer_busy v
        \<and> (writer_failed v
        \<or> \<not> io_stopped s \<and> write_ok (settled_ring v)
          \<and> (case pc of
               WT_write dp len \<Rightarrow> dp = io_head s \<and> len = io_lengths s ! io_head s \<and> io_count s \<noteq> 0
                  \<and> io_states s ! io_head s = SLOT_WRITING
             | WT_pop \<Rightarrow> io_count s \<noteq> 0 \<and> io_states s ! io_head s = SLOT_WRITING
             | WT_exit \<Rightarrow> False
             | _ \<Rightarrow> True)))"

definition writer_reserved :: "writer_view \<Rightarrow> nat \<Rightarrow> bool" where
  "writer_reserved v dp \<longleftrightarrow> writer_failed v \<or> slot_reserved (fst v) dp"

definition writer_accepted :: "tftp_io_ops \<Rightarrow> writer_view \<Rightarrow> char list \<Rightarrow> bool" where
  "writer_accepted m v x \<longleftrightarrow> writer_failed v \<or> data_accepted m (settled_ring v) x"

definition writer_drained :: "writer_view \<Rightarrow> bool" where
  "writer_drained v \<longleftrightarrow> io_count (fst v) = 0 \<and> snd v = WT_lock \<and> io_err (fst v) = 0"

definition writer_complete :: "tftp_io_ops \<Rightarrow> writer_view \<Rightarrow> char list \<Rightarrow> bool" where
  "writer_complete m v x \<longleftrightarrow> data_complete m (fst v) x"

declare writer_busy_def [simp]

lemma ready_count:
  assumes "write_ok s" "io_states s ! io_head s = SLOT_READY"
  shows "io_count s \<noteq> 0"
proof
  assume c: "io_count s = 0"
  note D = write_okD [OF assms(1)]
  have "io_tail s = io_head s" using D(1) c slot_0 [OF D(1)] by (simp add: ring_ok_def)
  moreover have "io_count s < io_slots s" using D(1) c by (simp add: ring_ok_def)
  ultimately show False using assms by (auto simp: write_ok_def)
qed

lemma write_packet_stopped:
  assumes "ops_write_packet dp n w = (r, w')"
  shows "io_stopped (io w') = io_stopped (io w)"
proof (cases "io_ops (io w)")
  case netascii_io_ops
  have put: "netascii_put p s = (ok, s') \<Longrightarrow> io_stopped s' = io_stopped s" for p s ok s'
    by (induction p s arbitrary: ok s' rule: netascii_put.induct) (auto simp: Let_def split: if_splits prod.splits)
  obtain ok s where "netascii_put (slot_data (io w) dp (nat n)) (io w) = (ok, s)" by (metis surj_pair)
  with put [OF this] netascii_io_ops assms show ?thesis
    by (auto simp: ops_write_packet_def netascii_write_packet_def split: if_splits)
qed (use assms in \<open>auto simp: ops_write_packet_def octet_write_packet_def split: prod.splits if_splits\<close>)

lemma io_error_failed: "writer_failed (io_error e s, pc)"
  by (simp add: writer_failed_def io_error_sel)

text \<open>A step of the thread keeps the invariant, what was accepted and the engine's reservation.\<close>

lemma writer_thread_ok:
  assumes ok: "writer_ok (writer_view w)" and step: "writer_thread w = Some w'" and nf: "\<not> writer_failed (writer_view w')"
  shows "\<not> writer_failed (writer_view w) \<and> writer_ok (writer_view w')
    \<and> absorbed (settled_ring (writer_view w')) = absorbed (settled_ring (writer_view w))
    \<and> io_ops (settled_ring (writer_view w')) = io_ops (settled_ring (writer_view w))"
proof (cases "wt_pc w")
  case WT_lock
  have s: "write_ok (io w)" "\<not> io_stopped (io w)" "io_err (io w) = 0" "io_states (io w) ! io_head (io w) = SLOT_READY"
      "w' = w\<lparr>io := mark_writing (io w), wt_pc := WT_write (io_head (io w)) (io_lengths (io w) ! io_head (io w))\<rparr>"
    using ok step nf WT_lock
    by (auto simp: writer_thread_def writer_ok_def writer_failed_def settled_ring_def split: if_splits)
  note D = write_okD [OF s(1)]
  have h: "io_head (io w) < length (io_states (io w))" using D(1,2) by (simp add: ring_ok_def)
  have "(io w)\<lparr>io_states := io_states (io w)\<rparr> = io w" by simp
  then have "settled_ring (writer_view w') = io w"
    using s(4,5) h list_update_id [of "io_states (io w)" "io_head (io w)"]
    by (simp add: settled_ring_def mark_writing_def)
  moreover have "settled_ring (writer_view w) = io w" using WT_lock by (simp add: settled_ring_def)
  ultimately show ?thesis
    using s WT_lock h ready_count [OF s(1,4)] by (simp add: writer_ok_def writer_failed_def mark_writing_def)
next
  case (WT_write dp len)
  obtain r w1 where wr: "ops_write_packet dp len w = (r, w1)" by (metis surj_pair)
  have w': "io w' = io w1" "wt_pc w' = (if r \<noteq> len then WT_fail (errno w1) else WT_pop)"
    using step WT_write wr by (auto simp: writer_thread_def)
  have r: "r = len" using nf w' by (auto simp: writer_failed_def split: if_splits)
  note fr = ops_write_packet_frame [OF wr]
  have err: "io_err (io w) = 0" using nf w' fr by (simp add: writer_failed_def)
  let ?s = "settled_ring (writer_view w)"
  have s: "write_ok ?s" "\<not> io_stopped (io w)" "dp = io_head (io w)" "len = io_lengths (io w) ! io_head (io w)"
      "io_count (io w) \<noteq> 0" "io_states (io w) ! io_head (io w) = SLOT_WRITING"
    using ok WT_write err by (auto simp: writer_ok_def writer_failed_def)
  have se: "?s = (io w)\<lparr>io_states := (io_states (io w))[io_head (io w) := SLOT_READY]\<rparr>"
    using WT_write by (simp add: settled_ring_def)
  have "mark_writing ?s = io w"
    using s(6) list_update_id [of "io_states (io w)" "io_head (io w)"] by (simp add: se mark_writing_def)
  then have "w\<lparr>io := ?s\<rparr>\<lparr>io := mark_writing (io (w\<lparr>io := ?s\<rparr>))\<rparr> = w" by simp
  then have "write_ok (pop_written (io w1)) \<and> absorbed (pop_written (io w1)) = absorbed ?s"
    using drain_step_spec [of "w\<lparr>io := ?s\<rparr>" len w1] s wr r by (simp add: se)
  moreover have "io_ops (pop_written (io w1)) = io_ops ?s" using fr by (simp add: pop_written_def se)
  ultimately show ?thesis
    using w' r fr s err WT_write write_packet_stopped [OF wr]
    by (simp add: writer_ok_def writer_failed_def settled_ring_def)
next
  case WT_pop
  then have "w' = w\<lparr>io := pop_written (io w), wt_pc := WT_lock\<rparr>" using step by (simp add: writer_thread_def)
  then show ?thesis
    using ok nf WT_pop by (auto simp: writer_ok_def writer_failed_def settled_ring_def pop_written_def)
next
  case (WT_fail e)
  with step nf io_error_failed show ?thesis by (auto simp: writer_thread_def)
next
  case WT_exit
  with step show ?thesis by (simp add: writer_thread_def)
qed

lemma writer_thread_frame:
  assumes "writer_thread w = Some w'"
  shows "sent_packets w' = sent_packets w \<and> io_blocksize (io w') = io_blocksize (io w) \<and> io_slots (io w') = io_slots (io w)
    \<and> io_tail (io w') = io_tail (io w)"
proof (cases "wt_pc w")
  case (WT_write dp len)
  obtain r w1 where wr: "ops_write_packet dp len w = (r, w1)" by (metis surj_pair)
  have "sent_packets w1 = sent_packets w"
    using ops_packet_more(2) [of dp len w] wr by (cases w; cases w1) simp
  with assms WT_write wr ops_write_packet_frame [OF wr] show ?thesis by (auto simp: writer_thread_def)
qed (use assms in \<open>auto simp: writer_thread_def mark_writing_def pop_written_def io_error_def Let_def split: if_splits\<close>)

lemma writer_thread_busy:
  assumes ok: "writer_ok (writer_view w)" and step: "writer_thread w = Some w'"
  shows "writer_busy (writer_view w')"
proof (cases "wt_pc w")
  case WT_lock
  then have "writer_failed (writer_view w) \<or> write_ok (io w)"
    using ok by (auto simp: writer_ok_def settled_ring_def)
  with WT_lock step ready_count [of "io w"] show ?thesis
    by (auto simp: writer_thread_def writer_failed_def mark_writing_def split: if_splits)
next
  case (WT_write dp len)
  obtain r w1 where wr: "ops_write_packet dp len w = (r, w1)" by (metis surj_pair)
  from ops_write_packet_frame [OF wr] wr WT_write ok step show ?thesis
    by (auto simp: writer_thread_def writer_ok_def)
qed (use step in \<open>auto simp: writer_thread_def\<close>)

definition writer_kept :: "'a thread_world_scheme \<Rightarrow> 'a thread_world_scheme \<Rightarrow> bool" where
  "writer_kept w w' \<longleftrightarrow>
     (writer_ok (writer_view w) \<longrightarrow> writer_ok (writer_view w')
        \<and> (\<not> writer_failed (writer_view w') \<longrightarrow> \<not> writer_failed (writer_view w)
             \<and> absorbed (settled_ring (writer_view w')) = absorbed (settled_ring (writer_view w))
             \<and> io_ops (settled_ring (writer_view w')) = io_ops (settled_ring (writer_view w))))
     \<and> sent_packets w' = sent_packets w \<and> io_blocksize (io w') = io_blocksize (io w) \<and> io_slots (io w') = io_slots (io w)
     \<and> io_tail (io w') = io_tail (io w)"

lemma writer_kept_refl: "writer_kept w w"
  by (simp add: writer_kept_def)

lemma writer_kept_trans: "writer_kept w w1 \<Longrightarrow> writer_kept w1 w2 \<Longrightarrow> writer_kept w w2"
  by (auto simp: writer_kept_def)

lemma writer_thread_kept: "writer_thread w = Some w' \<Longrightarrow> writer_kept w w'"
  using writer_thread_ok [of w w'] writer_thread_frame [of w w'] writer_thread_busy [of w w']
  by (cases "writer_failed (writer_view w')") (auto simp: writer_kept_def writer_ok_def [of "writer_view w'"])

lemma writer_accepted_kept:
  assumes "writer_kept w w'" "writer_ok (writer_view w)"
  shows "writer_accepted m (writer_view w) x \<Longrightarrow> writer_accepted m (writer_view w') x"
  using assms by (cases "writer_failed (writer_view w')") (auto simp: writer_kept_def writer_accepted_def data_accepted_def)

lemma run_writer_kept: "writer_kept w (run_writer n w)"
proof (induction n arbitrary: w)
  case (Suc n)
  show ?case
    using writer_kept_trans [OF writer_thread_kept Suc.IH] by (simp add: writer_kept_refl split: option.splits)
qed (simp add: writer_kept_refl)

lemma writer_turn_kept: "writer_kept w (writer_turn w)"
  using run_writer_kept [of "w\<lparr>schedule := tl (schedule w)\<rparr>" "hd (schedule w)"]
  by (cases "schedule w") (simp_all add: writer_turn_def writer_kept_def)

lemma await_writer_kept: "writer_kept w (await_writer n P w)"
proof (induction n arbitrary: w)
  case (Suc n)
  show ?case
    using writer_kept_trans [OF writer_thread_kept Suc.IH] by (simp add: writer_kept_refl split: option.splits)
qed (simp add: writer_kept_refl)

lemma writer_wait_kept: "writer_kept w (writer_wait P w)"
  unfolding writer_wait_def
  by (rule writer_kept_trans [OF writer_kept_trans [OF writer_turn_kept await_writer_kept] writer_turn_kept])

subsection \<open>Operations of the engine on the ring\<close>

text \<open>When the engine reserves or publishes, the slot of the thread is another one.\<close>

lemma settled_slot:
  assumes "writer_ok (s, pc)" "\<not> writer_failed (s, pc)" "t \<noteq> io_head s \<or> pc = WT_lock"
  shows "io_states (settled_ring (s, pc)) ! t = io_states s ! t"
  using assms by (cases pc) (simp_all add: writer_failed_def settled_ring_def pop_written_def)

lemma settled_apart:
  assumes "writer_ok (s, pc)" "\<not> writer_failed (s, pc)" "io_states s ! t \<noteq> SLOT_WRITING"
  shows "t \<noteq> io_head s \<or> pc = WT_lock"
  using assms by (cases pc) (auto simp: writer_failed_def writer_ok_def)

lemma settled_update:
  assumes "t \<noteq> io_head s \<or> pc = WT_lock" "\<And>e. pc \<noteq> WT_fail e"
  shows "settled_ring (s\<lparr>io_states := (io_states s)[t := x]\<rparr>, pc)
    = (settled_ring (s, pc))\<lparr>io_states := (io_states (settled_ring (s, pc)))[t := x]\<rparr>"
  using assms by (cases pc) (simp_all add: settled_ring_def pop_written_def io_next_def list_update_swap)

lemma settled_store:
  "mem_store dp p (w\<lparr>io := settled_ring (writer_view w)\<rparr>)
    = (mem_store dp p w)\<lparr>io := settled_ring (io (mem_store dp p w), wt_pc w)\<rparr>"
  by (cases "wt_pc w") (simp_all add: mem_store_def settled_ring_def pop_written_def io_next_def)

lemma settled_frame:
  "io_tail (settled_ring (s, pc)) = io_tail s" "io_blocksize (settled_ring (s, pc)) = io_blocksize s"
  "io_ops (settled_ring (s, pc)) = io_ops s" "io_err (settled_ring (s, pc)) = io_err s"
  "io_slots (settled_ring (s, pc)) = io_slots s" "io_lengths (settled_ring (s, pc)) = io_lengths s"
  by (cases pc; simp add: settled_ring_def pop_written_def)+

lemma reserve_threaded:
  assumes ok: "writer_ok (writer_view w)" and run: "tftp_io_writer_reserve w = (Some dp, w')"
  shows "writer_ok (writer_view w') \<and> writer_reserved (writer_view w') dp \<and> io_blocksize (io w') = io_blocksize (io w)
    \<and> (writer_accepted m (writer_view w) x \<longrightarrow> writer_accepted m (writer_view w') x)"
proof -
  let ?t = "io_tail (io w)" and ?s = "settled_ring (writer_view w)"
  have r: "io_states (io w) ! ?t = SLOT_EMPTY" "io_err (io w) = 0" "dp = ?t"
      "w' = w\<lparr>io := (io w)\<lparr>io_states := (io_states (io w))[?t := SLOT_RESERVED]\<rparr>\<rparr>"
    using run by (auto simp: tftp_io_writer_reserve_def Let_def split: if_splits)
  show ?thesis
  proof (cases "writer_failed (writer_view w)")
    case True
    with r ok show ?thesis by (simp add: writer_ok_def writer_reserved_def writer_accepted_def writer_failed_def)
  next
    case False
    then have f: "\<not> writer_failed (writer_view w')" using r by (simp add: writer_failed_def)
    have np: "wt_pc w \<noteq> WT_fail e" for e using False by (auto simp: writer_failed_def)
    have ap: "?t \<noteq> io_head (io w) \<or> wt_pc w = WT_lock" using settled_apart [OF ok False, of ?t] r(1) by simp
    have st: "settled_ring (writer_view w') = ?s\<lparr>io_states := (io_states ?s)[?t := SLOT_RESERVED]\<rparr>"
      using settled_update [OF ap np] r(4) by simp
    have "tftp_io_writer_reserve (w\<lparr>io := ?s\<rparr>) = (Some dp, w\<lparr>io := settled_ring (writer_view w')\<rparr>)"
      using settled_slot [OF ok False ap] r(1-3) by (simp add: tftp_io_writer_reserve_def settled_frame st Let_def)
    from reserve_spec [OF _ this] have sp: "write_ok (settled_ring (writer_view w'))" "absorbed (settled_ring (writer_view w')) = absorbed ?s"
      using ok False by (simp_all add: writer_ok_def)
    have "io_stopped (io w') = io_stopped (io w)" "io_count (io w') = io_count (io w)" "io_head (io w') = io_head (io w)"
        "io_lengths (io w') = io_lengths (io w)" "wt_pc w' = wt_pc w"
        "wt_pc w \<noteq> WT_lock \<Longrightarrow> io_states (io w') ! io_head (io w) = io_states (io w) ! io_head (io w)"
      using r ap by auto
    then have "writer_ok (writer_view w')"
      using ok False f sp(1) by (cases "wt_pc w") (simp_all add: writer_ok_def)
    moreover have "?t < length (io_states (io w))"
    proof -
      have "write_ok ?s" using ok False by (simp add: writer_ok_def)
      then have "io_tail ?s < length (io_states ?s)" by (simp add: write_ok_def ring_ok_def slot_def)
      then show ?thesis by (cases "wt_pc w") (simp_all add: settled_ring_def pop_written_def)
    qed
    ultimately show ?thesis
      using r False f sp(2)
      by (simp add: writer_reserved_def slot_reserved_def writer_accepted_def data_accepted_def settled_frame)
  qed
qed

lemma settled_publish:
  assumes ap: "io_tail (io w) \<noteq> io_head (io w) \<or> wt_pc w = WT_lock" and nf: "\<And>e. wt_pc w \<noteq> WT_fail e"
    and c: "wt_pc w = WT_pop \<Longrightarrow> io_count (io w) \<noteq> 0"
    and r: "io_states (io w) ! io_tail (io w) = SLOT_RESERVED" "0 \<le> len" "len \<le> int (io_blocksize (io w))"
    and run: "tftp_io_write_publish len w = (r, w')"
  shows "tftp_io_write_publish len (w\<lparr>io := settled_ring (writer_view w)\<rparr>) = (r, w'\<lparr>io := settled_ring (writer_view w')\<rparr>)"
proof -
  let ?t = "io_tail (io w)"
  have w': "r = 0" "w' = w\<lparr>io := (io w)\<lparr>io_lengths := (io_lengths (io w))[?t := len],
      io_states := (io_states (io w))[?t := SLOT_READY], io_tail := io_next (io w) ?t, io_count := io_count (io w) + 1\<rparr>\<rparr>"
    using run r by (auto simp: tftp_io_write_publish_def Let_def split: if_splits)
  show ?thesis
  proof (cases "wt_pc w")
    case (WT_write dp n)
    with ap have "?t \<noteq> io_head (io w)" by simp
    with r w' WT_write show ?thesis
      by (simp add: tftp_io_write_publish_def settled_ring_def io_next_def list_update_swap)
  next
    case WT_pop
    with ap have "?t \<noteq> io_head (io w)" by simp
    with r w' WT_pop c show ?thesis
      by (simp add: tftp_io_write_publish_def settled_ring_def pop_written_def io_next_def list_update_swap)
  qed (use r w' nf in \<open>simp_all add: tftp_io_write_publish_def settled_ring_def Let_def\<close>)
qed

lemma mem_store_frame:
  "io_states (io (mem_store dp p w)) = io_states (io w)" "io_tail (io (mem_store dp p w)) = io_tail (io w)"
  "io_blocksize (io (mem_store dp p w)) = io_blocksize (io w)" "io_err (io (mem_store dp p w)) = io_err (io w)"
  "io_count (io (mem_store dp p w)) = io_count (io w)" "io_head (io (mem_store dp p w)) = io_head (io w)"
  "io_lengths (io (mem_store dp p w)) = io_lengths (io w)" "io_stopped (io (mem_store dp p w)) = io_stopped (io w)"
  "wt_pc (mem_store dp p w) = wt_pc w"
  by (simp_all add: mem_store_def)

lemma publish_threaded:
  assumes ok: "writer_ok (writer_view w)" and rsv: "writer_reserved (writer_view w) dp"
    and p: "4 \<le> length p" "length p \<le> io_blocksize (io w) + 4"
    and run: "tftp_io_write_publish (int (length p) - 4) (mem_store dp p w) = (r, w')" "0 \<le> r"
  shows "writer_ok (writer_view w') \<and> io_blocksize (io w') = io_blocksize (io w)
    \<and> (writer_accepted m (writer_view w) x \<longrightarrow> writer_accepted m (writer_view w') (x @ th_data p))"
proof -
  have bs: "io_blocksize (io w') = io_blocksize (io w)"
    and er: "io_err (io w') = io_err (io w)" "wt_pc w' = wt_pc w" "io_count (io w) \<le> io_count (io w')"
    using run by (auto simp: tftp_io_write_publish_def mem_store_frame mem_store_def Let_def split: if_splits)
  show ?thesis
  proof (cases "writer_failed (writer_view w)")
    case True
    with bs er ok show ?thesis
      by (cases "wt_pc w") (simp_all add: writer_ok_def writer_accepted_def writer_failed_def)
  next
    case False
    let ?v = "mem_store dp p w" and ?s = "settled_ring (writer_view w)"
    have d: "dp = io_tail (io w)" "io_states (io w) ! io_tail (io w) = SLOT_RESERVED"
      using rsv False by (simp_all add: writer_reserved_def slot_reserved_def)
    have ap: "io_tail (io w) \<noteq> io_head (io w) \<or> wt_pc w = WT_lock" using settled_apart [OF ok False, of dp] d by simp
    have ws: "write_ok ?s" using ok False by (simp add: writer_ok_def)
    obtain r1 w1 where pub: "tftp_io_write_publish (int (length p) - 4) (mem_store dp p (w\<lparr>io := ?s\<rparr>)) = (r1, w1)"
      by (metis surj_pair)
    have S: "write_ok (io w1)" "io_ops (io w1) = io_ops ?s" "absorbed (io w1) =
        (case absorbed ?s of (out, b) \<Rightarrow> case decode_run (io_ops ?s) b (th_data p) of (t, b') \<Rightarrow> (out @ t, b'))"
      using publish_spec [of "w\<lparr>io := ?s\<rparr>" p r1 w1] ws p pub d settled_slot [OF ok False ap] by (simp_all add: settled_frame)
    have f: "\<not> writer_failed (writer_view w')" and np: "\<And>e. wt_pc w \<noteq> WT_fail e"
      using False er by (auto simp: writer_failed_def)
    have c: "wt_pc w = WT_pop \<Longrightarrow> io_count (io w) \<noteq> 0" using ok False by (simp add: writer_ok_def)
    have "io w1 = settled_ring (writer_view w')"
      using settled_publish [of ?v, OF _ _ _ _ _ _ run(1)] pub settled_store [of dp p w] ap np c d p
      by (auto simp: mem_store_frame)
    moreover from this have "writer_ok (writer_view w')"
      using ok False f S(1) run ap d(1)
      by (cases "wt_pc w") (auto simp: writer_ok_def tftp_io_write_publish_def mem_store_frame Let_def split: if_splits)
    ultimately show ?thesis
      using S False bs f
      by (auto simp: writer_accepted_def data_accepted_def decode_run_append split: prod.splits)
  qed
qed

lemma drain_idle: "\<not> undrained (io w) \<Longrightarrow> drain_loop w = w"
  by (subst drain_loop.simps) (auto simp: undrained_def)

lemma drain_threaded:
  assumes ok: "writer_ok (writer_view w)" and idle: "\<not> undrained (io w)"
    and run: "tftp_io_write_drain w = (r, w')" "0 \<le> r"
  shows "writer_ok (writer_view w') \<and> io_blocksize (io w') = io_blocksize (io w) \<and> writer_drained (writer_view w')
    \<and> (writer_accepted m (writer_view w) x \<longrightarrow> writer_accepted m (writer_view w') x)"
proof -
  have w': "io w' = io w" "wt_pc w' = wt_pc w" "io_err (io w) = 0"
    using run by (auto simp: tftp_io_write_drain_def drain_idle [OF idle] fflush_def Let_def split: if_splits option.splits)
  then have "io_count (io w) = 0" using idle by (simp add: undrained_def)
  then have "wt_pc w = WT_lock" using ok w' by (cases "wt_pc w") (auto simp: writer_ok_def writer_failed_def)
  with w' ok \<open>io_count (io w) = 0\<close> show ?thesis by (simp add: writer_drained_def)
qed

subsection \<open>Waits end\<close>

text \<open>Steps the thread can take before it waits, or ends.\<close>

fun writer_rank :: "writer_view \<Rightarrow> nat" where
  "writer_rank (s, WT_lock) = 3 * io_count s + 1"
| "writer_rank (s, WT_write dp len) = 3 * io_count s"
| "writer_rank (s, WT_pop) = 3 * io_count s - 1"
| "writer_rank (s, WT_fail e) = 1"
| "writer_rank (s, WT_exit) = 0"

lemma writer_rank_bound:
  assumes ok: "writer_ok (s, pc)" and err: "io_err s = 0"
  shows "writer_rank (s, pc) \<le> 3 * io_slots s + 3"
proof (cases "writer_failed (s, pc)")
  case False
  with ok have "io_count (settled_ring (s, pc)) \<le> io_slots (settled_ring (s, pc))"
    by (simp add: writer_ok_def write_ok_def ring_ok_def)
  then show ?thesis by (cases pc) (auto simp: settled_ring_def pop_written_def)
qed (use err in \<open>auto simp: writer_failed_def\<close>)

lemma writer_thread_decreases:
  assumes ok: "writer_ok (writer_view w)" and step: "writer_thread w = Some w'"
  shows "writer_rank (writer_view w') < writer_rank (writer_view w)"
proof (cases "wt_pc w")
  case (WT_write dp len)
  obtain r w1 where wr: "ops_write_packet dp len w = (r, w1)" by (metis surj_pair)
  from ops_write_packet_frame [OF wr] wr WT_write ok step show ?thesis
    by (auto simp: writer_thread_def writer_ok_def)
qed (use step ok in \<open>auto simp: writer_thread_def writer_ok_def mark_writing_def pop_written_def split: if_splits\<close>)

text \<open>When the thread cannot go on, the ring is empty or an error is pending.\<close>

lemma writer_stuck:
  assumes ok: "writer_ok (writer_view w)" and stuck: "writer_thread w = None"
  shows "io_err (io w) \<noteq> 0 \<or> io_count (io w) = 0 \<and> io_states (io w) ! io_tail (io w) \<in> {SLOT_EMPTY, SLOT_RESERVED}"
proof (cases "wt_pc w")
  case WT_lock
  show ?thesis
  proof (cases "io_err (io w) = 0")
    case True
    then have s: "write_ok (io w)" "io_states (io w) ! io_head (io w) \<noteq> SLOT_READY"
      using ok stuck WT_lock by (auto simp: writer_thread_def writer_ok_def writer_failed_def settled_ring_def split: if_splits)
    note D = write_okD [OF s(1)]
    have "io_count (io w) = 0" using s slot_0 [OF D(1)] by (fastforce simp: write_ok_def)
    moreover have "0 < io_slots (io w)" using D(1) by (simp add: ring_ok_def)
    ultimately show ?thesis using s(1) by (simp add: write_ok_def)
  qed simp
qed (use ok stuck in \<open>auto simp: writer_thread_def writer_ok_def writer_failed_def split: prod.splits\<close>)

lemma await_writer_done:
  assumes "writer_ok (writer_view w)" "writer_rank (writer_view w) \<le> n"
  shows "P (io (await_writer n P w)) \<longrightarrow> writer_thread (await_writer n P w) = None"
  using assms
proof (induction n arbitrary: w)
  case 0
  then show ?case by (cases "wt_pc w") (auto simp: writer_thread_def writer_ok_def)
next
  case (Suc n)
  show ?case
  proof (cases "writer_thread w")
    case (Some w')
    with Suc.IH [of w'] Suc.prems writer_thread_decreases [of w w'] writer_thread_kept [of w w'] show ?thesis
      by (simp add: writer_kept_def)
  qed simp
qed

text \<open>A condition the thread keeps holds after any number of its steps.\<close>

lemma run_writer_stays:
  fixes w :: "'a thread_world_scheme"
  assumes "\<And>w w' :: 'a thread_world_scheme. writer_thread w = Some w' \<Longrightarrow> Q (io w) \<Longrightarrow> Q (io w')"
  shows "Q (io w) \<Longrightarrow> Q (io (run_writer n w))"
  by (induction n arbitrary: w) (auto split: option.splits dest: assms)

lemma writer_turn_stays:
  fixes w :: "'a thread_world_scheme"
  assumes "\<And>w w' :: 'a thread_world_scheme. writer_thread w = Some w' \<Longrightarrow> Q (io w) \<Longrightarrow> Q (io w')"
  shows "Q (io w) \<Longrightarrow> Q (io (writer_turn w))"
  using run_writer_stays [of Q "w\<lparr>schedule := tl (schedule w)\<rparr>", OF assms]
  by (cases "schedule w") (simp_all add: writer_turn_def)

lemma await_writer_stays:
  fixes w :: "'a thread_world_scheme"
  assumes "\<And>w w' :: 'a thread_world_scheme. writer_thread w = Some w' \<Longrightarrow> Q (io w) \<Longrightarrow> Q (io w')"
  shows "Q (io w) \<Longrightarrow> Q (io (await_writer n P w))"
  by (induction n arbitrary: w) (auto split: option.splits dest: assms)

text \<open>A wait ends when the thread keeps what was waited for, and is not stuck before.\<close>

lemma writer_wait_done:
  fixes w :: "'a thread_world_scheme"
  assumes ok: "writer_ok (writer_view w)" and Q: "Q (io w)"
    and P: "\<And>s. P s \<Longrightarrow> io_err s = 0" "\<And>w w' :: 'a thread_world_scheme. writer_thread w = Some w' \<Longrightarrow> \<not> P (io w) \<Longrightarrow> \<not> P (io w')"
    and keep: "\<And>w w' :: 'a thread_world_scheme. writer_thread w = Some w' \<Longrightarrow> Q (io w) \<Longrightarrow> Q (io w')"
    and free: "\<And>w :: 'a thread_world_scheme. writer_ok (writer_view w) \<Longrightarrow> writer_thread w = None \<Longrightarrow> Q (io w) \<Longrightarrow> \<not> P (io w)"
  shows "\<not> P (io (writer_wait P w))"
proof -
  let ?w = "writer_turn w" and ?n = "3 * io_slots (io w) + 3"
  have k: "writer_ok (writer_view ?w)" "io_slots (io ?w) = io_slots (io w)" "Q (io ?w)"
    using writer_turn_kept [of w] ok writer_turn_stays [of Q, OF keep Q] by (simp_all add: writer_kept_def)
  have "\<not> P (io (await_writer ?n P ?w))"
  proof (cases "P (io ?w)")
    case True
    then have "writer_rank (writer_view ?w) \<le> ?n" using writer_rank_bound [OF k(1)] P(1) k(2) by simp
    from await_writer_done [OF k(1) this, of P] show ?thesis
      using await_writer_kept [of ?w ?n P] k await_writer_stays [of Q, OF keep k(3)] free
      by (auto simp: writer_kept_def)
  qed (simp add: numeral_3_eq_3)
  then show ?thesis unfolding writer_wait_def by (intro writer_turn_stays [of "\<lambda>s. \<not> P s", OF P(2)])
qed

lemma nth_update_cases: "(xs[i := x]) ! j = x \<and> i = j \<or> (xs[i := x]) ! j = xs ! j"
  by (cases "i = j"; cases "i < length xs") (simp_all add: list_update_beyond)

lemma writer_thread_stays:
  assumes "writer_thread w = Some w'"
  shows "\<not> undrained (io w) \<Longrightarrow> \<not> undrained (io w')" "\<not> tail_busy (io w) \<Longrightarrow> \<not> tail_busy (io w')"
    "io_states (io w) ! io_tail (io w) \<noteq> SLOT_RESERVED \<Longrightarrow> io_states (io w') ! io_tail (io w') \<noteq> SLOT_RESERVED"
proof -
  have "(\<not> undrained (io w) \<longrightarrow> \<not> undrained (io w')) \<and> (\<not> tail_busy (io w) \<longrightarrow> \<not> tail_busy (io w'))
    \<and> (io_states (io w) ! io_tail (io w) \<noteq> SLOT_RESERVED \<longrightarrow> io_states (io w') ! io_tail (io w') \<noteq> SLOT_RESERVED)"
  proof (cases "wt_pc w")
    case WT_lock
    with assms nth_update_cases [of "io_states (io w)" "io_head (io w)" SLOT_WRITING "io_tail (io w)"] show ?thesis
      by (auto simp: writer_thread_def mark_writing_def undrained_def tail_busy_def split: if_splits)
  next
    case (WT_write dp len)
    obtain r w1 where wr: "ops_write_packet dp len w = (r, w1)" by (metis surj_pair)
    from ops_write_packet_frame [OF wr] wr WT_write assms show ?thesis
      by (auto simp: writer_thread_def undrained_def tail_busy_def)
  next
    case WT_pop
    with assms nth_update_cases [of "io_states (io w)" "io_head (io w)" SLOT_EMPTY "io_tail (io w)"] show ?thesis
      by (auto simp: writer_thread_def pop_written_def undrained_def tail_busy_def)
  qed (use assms in \<open>auto simp: writer_thread_def undrained_def tail_busy_def io_error_def Let_def EIO_def split: if_splits\<close>)
  then show "\<not> undrained (io w) \<Longrightarrow> \<not> undrained (io w')" "\<not> tail_busy (io w) \<Longrightarrow> \<not> tail_busy (io w')"
    "io_states (io w) ! io_tail (io w) \<noteq> SLOT_RESERVED \<Longrightarrow> io_states (io w') ! io_tail (io w') \<noteq> SLOT_RESERVED"
    by simp_all
qed

lemma drain_waits:
  fixes w :: "'a thread_world_scheme"
  assumes "writer_ok (writer_view w)"
  shows "\<not> undrained (io (writer_wait undrained w))"
proof (rule writer_wait_done [where Q = "\<lambda>_. True", OF assms])
  fix w :: "'a thread_world_scheme"
  assume "writer_ok (writer_view w)" "writer_thread w = None"
  from writer_stuck [OF this] show "\<not> undrained (io w)" by (auto simp: undrained_def)
qed (auto simp: undrained_def [of "_ :: tftp_io"] dest: writer_thread_stays(1))

lemma reserve_waits:
  fixes w :: "'a thread_world_scheme"
  assumes "writer_ok (writer_view w)" "io_states (io w) ! io_tail (io w) \<noteq> SLOT_RESERVED"
  shows "\<not> tail_busy (io (writer_wait tail_busy w))"
proof (rule writer_wait_done [where Q = "\<lambda>s. io_states s ! io_tail s \<noteq> SLOT_RESERVED", OF assms])
  fix w :: "'a thread_world_scheme"
  assume "writer_ok (writer_view w)" "writer_thread w = None" "io_states (io w) ! io_tail (io w) \<noteq> SLOT_RESERVED"
  with writer_stuck [OF this(1,2)] show "\<not> tail_busy (io w)" by (auto simp: tail_busy_def)
next
  show "io_err s = 0" if "tail_busy s" for s using that by (simp add: tail_busy_def)
qed (use writer_thread_stays in blast)+

subsection \<open>The contract\<close>

lemma adapter_sent:
  fixes w :: "'a thread_world_scheme"
  shows "sent_packets (snd (tftp_io_writer_reserve w)) = sent_packets w"
    "sent_packets (snd (tftp_io_write_publish n (mem_store dp p w))) = sent_packets w"
    "sent_packets (snd (tftp_io_write_drain w)) = sent_packets w"
    "sent_packets (snd (tftp_io_write_finish w)) = sent_packets w"
  using xfer_sink.reserve_sent [OF adapter_sink, of w] xfer_sink.publish_sent [OF adapter_sink, of n dp p w]
    xfer_sink.drain_sent [OF adapter_sink, of w] xfer_sink.finish_sent [OF adapter_sink, of w]
  by (simp_all add: tftp_io_xfer_ops_def)

interpretation threaded_sink:
  xfer_sink threaded_writer_ops writer_view sent_packets writer_ok "\<lambda>v. io_blocksize (fst v)" writer_reserved
    "writer_accepted m" writer_drained "writer_complete m" for m
proof (unfold_locales, goal_cases)
  case (1 w dp w')
  let ?w = "writer_wait tail_busy w"
  have k: "writer_kept w ?w" by (rule writer_wait_kept)
  have run: "tftp_io_writer_reserve ?w = (Some dp, w')"
    using 1(2) by (auto simp: threaded_writer_ops_def threaded_write_reserve_def Let_def split: if_splits)
  have "writer_ok (writer_view ?w)" using k 1(1) by (simp add: writer_kept_def)
  from reserve_threaded [OF this run] k 1(1) writer_accepted_kept [OF k 1(1)] show ?case by (auto simp: writer_kept_def)
next
  case (2 w)
  have "sent_packets (writer_wait tail_busy w) = sent_packets w" using writer_wait_kept [of w] by (simp add: writer_kept_def)
  then show ?case by (simp add: threaded_writer_ops_def threaded_write_reserve_def adapter_sent Let_def)
next
  case (3 w dp p r w')
  then show ?case
    using publish_threaded [of w dp p r w'] by (simp add: threaded_writer_ops_def tftp_io_xfer_ops_def)
next
  case (4 n dp p w)
  then show ?case by (simp add: threaded_writer_ops_def tftp_io_xfer_ops_def adapter_sent)
next
  case (5 w r w')
  let ?w = "writer_wait undrained w"
  have k: "writer_kept w ?w" by (rule writer_wait_kept)
  have run: "tftp_io_write_drain ?w = (r, w')" "\<not> undrained (io ?w)"
    using 5(2,3) by (auto simp: threaded_writer_ops_def threaded_write_drain_def Let_def split: if_splits)
  have "writer_ok (writer_view ?w)" using k 5(1) by (simp add: writer_kept_def)
  from drain_threaded [OF this run(2,1) 5(3)] k 5(1) writer_accepted_kept [OF k 5(1)] show ?case by (auto simp: writer_kept_def)
next
  case (6 w)
  have "sent_packets (writer_wait undrained w) = sent_packets w" using writer_wait_kept [of w] by (simp add: writer_kept_def)
  then show ?case by (simp add: threaded_writer_ops_def threaded_write_drain_def adapter_sent Let_def)
next
  case 7
  show ?case by (simp add: threaded_writer_ops_def tftp_io_xfer_ops_def)
next
  case (8 w r w' x)
  have nf: "\<not> writer_failed (writer_view w)" "settled_ring (writer_view w) = io w" "io_count (io w) = 0"
    using 8(2) by (simp_all add: writer_drained_def writer_failed_def settled_ring_def)
  have run: "tftp_io_write_finish w = (r, w')" using 8(3) by (simp add: threaded_writer_ops_def tftp_io_xfer_ops_def)
  have "write_ok (io w)" "data_accepted m (io w) x"
    using 8(1,5) nf by (simp_all add: writer_ok_def writer_accepted_def)
  with finish_spec [OF _ nf(3) run 8(4)] finish_const [OF run] show ?case
    by (simp add: writer_complete_def data_complete_def data_accepted_def)
next
  case (9 w)
  then show ?case by (simp add: threaded_writer_ops_def tftp_io_xfer_ops_def adapter_sent)
qed

section \<open>Transfers\<close>

lemmas transport_defs =
  daemon_xfer_ops_def daemon_xfer_send_def daemon_xfer_received_def daemon_xfer_retry_enter_def daemon_xfer_retry_leave_def
  daemon_xfer_wait_begin_def

interpretation reading_daemon: xfer_transport daemon_xfer_ops reader_view sent_packets
  by unfold_locales (auto simp: transport_defs socket_send_def Let_def split: list.splits)

interpretation writing_daemon: xfer_transport daemon_xfer_ops writer_view sent_packets
  by unfold_locales (auto simp: transport_defs socket_send_def Let_def split: list.splits)

interpretation threaded_download:
  xfer_link daemon_xfer_ops threaded_reader_ops reader_view sent_packets reader_ok reader_held reader_left
    client_xfer_ops tftp_io_xfer_ops io sent_packets write_ok io_blocksize slot_reserved
    "data_accepted m" "\<lambda>s. io_count s = 0" "data_complete m" for m
  by (intro xfer_link.intro xfer_sender.intro reading_daemon.xfer_transport_axioms threaded_source.xfer_source_axioms
      client_receiver.xfer_receiver_axioms)

interpretation threaded_upload:
  xfer_link client_xfer_ops tftp_io_xfer_ops io sent_packets read_ok held_packets blocks_left
    daemon_xfer_ops threaded_writer_ops writer_view sent_packets writer_ok "\<lambda>v. io_blocksize (fst v)" writer_reserved
    "writer_accepted m" writer_drained "writer_complete m" for m
  by (intro xfer_link.intro xfer_receiver.intro client_sender.xfer_sender_axioms writing_daemon.xfer_transport_axioms
      threaded_sink.xfer_sink_axioms)

text \<open>A sender that has just started its reader thread, and a receiver that has just started its writer.\<close>

definition threaded_sender :: "thread_world tftp_xfer \<Rightarrow> bool \<Rightarrow> FILE \<Rightarrow> thread_world \<Rightarrow> bool" where
  "threaded_sender xs conv f sw \<longleftrightarrow>
     (\<exists>wnd n w w'. tftp_io_reader_start f conv wnd n (blocksize xs) True 0 w = (Some (io sw), w' :: world))
     \<and> \<not> f_ferror f \<and> sent_packets sw = [] \<and> blocksize xs < 2 ^ 31 \<and> rt_pc sw = RT_lock
     \<and> x_io_ops xs = Some threaded_reader_ops"

definition threaded_receiver :: "thread_world tftp_xfer \<Rightarrow> bool \<Rightarrow> thread_world \<Rightarrow> bool" where
  "threaded_receiver xr conv rw \<longleftrightarrow>
     (\<exists>f n w w'. tftp_io_writer_start f conv n (blocksize xr) True 0 w = (Some (io rw), w' :: world) \<and> f_out f = [])
     \<and> sent_packets rw = [] \<and> blocksize xr < 2 ^ 31 \<and> wt_pc rw = WT_lock \<and> x_io_ops xr = Some threaded_writer_ops"

text \<open>The daemon has threads, the client has none.\<close>

definition threaded_download_step ::
  "thread_world tftp_xfer \<Rightarrow> xfer_world tftp_xfer \<Rightarrow> (thread_world, xfer_world) link \<Rightarrow> (thread_world, xfer_world) link \<Rightarrow> bool" where
  "threaded_download_step xd xc =
     link_step xd threaded_reader_ops reader_view sent_packets xc tftp_io_xfer_ops io sent_packets"

definition threaded_upload_step ::
  "xfer_world tftp_xfer \<Rightarrow> thread_world tftp_xfer \<Rightarrow> (xfer_world, thread_world) link \<Rightarrow> (xfer_world, thread_world) link \<Rightarrow> bool" where
  "threaded_upload_step xc xd =
     link_step xc tftp_io_xfer_ops io sent_packets xd threaded_writer_ops writer_view sent_packets"

text \<open>A success, on either side, means that the receiver's file is the sender's.\<close>

definition success_delivers :: "bool \<Rightarrow> FILE \<Rightarrow> ('a io_world_scheme, 'b io_world_scheme) link \<Rightarrow> bool" where
  "success_delivers conv f l \<longleftrightarrow>
     (\<forall>r. snd_out l = Finished r \<longrightarrow> status r = TFTP_XFER_OK \<longrightarrow>
        f_out (io_file (io (rcv_world l))) = f_in f
        \<and> res_bytes r = of_nat (length (encode (mode_of conv) (f_in f))))
     \<and> (\<forall>r. rcv_out l = Finished r \<longrightarrow> status r = TFTP_XFER_OK \<longrightarrow>
          f_out (io_file (io (rcv_world l))) = f_in f)"

lemma threaded_senderD:
  assumes "threaded_sender xs conv f sw"
  shows "reader_ok (reader_view sw)" "reader_left (reader_view sw) = file_blocks xs conv f" "0 < blocksize xs"
    "sent_packets sw = []" "x_io_ops xs = Some threaded_reader_ops"
proof -
  obtain wnd n w w' where st: "tftp_io_reader_start f conv wnd n (blocksize xs) True 0 w = (Some (io sw), w' :: world)"
    and f: "\<not> f_ferror f" "blocksize xs < 2 ^ 31" and pc: "rt_pc sw = RT_lock"
    using assms by (auto simp: threaded_sender_def)
  have "blocksize xs < 2 ^ 32" using f(2) by simp
  note R = reader_start_spec [OF st this f(1)]
  have io: "\<not> io_eof (io sw)" "io_err (io sw) = 0" "io_file (io sw) = f" "\<not> io_stopped (io sw)" "io_blocksize (io sw) = blocksize xs"
    "0 < blocksize xs"
    using st by (auto simp: tftp_io_reader_start_def io_start_def split: if_splits dest!: sym [of _ "io sw"])
  show "reader_ok (reader_view sw)"
    using R(1) f(1) pc io by (simp add: reader_ok_def ring_read_def read_ok_def)
  show "reader_left (reader_view sw) = file_blocks xs conv f"
    using R(2,3) pc io by (simp add: reader_left_def blocks_left_def file_blocks_def mode_of_def)
  show "0 < blocksize xs" by (rule io(6))
  show "sent_packets sw = []" "x_io_ops xs = Some threaded_reader_ops" using assms by (simp_all add: threaded_sender_def)
qed

lemma threaded_receiverD:
  assumes "threaded_receiver xr conv rw"
  shows "writer_ok (writer_view rw)" "io_blocksize (fst (writer_view rw)) = blocksize xr"
    "writer_accepted (mode_of conv) (writer_view rw) []" "sent_packets rw = []" "x_io_ops xr = Some threaded_writer_ops"
    "blocksize xr < 2 ^ 31"
proof -
  obtain f n w w' where st: "tftp_io_writer_start f conv n (blocksize xr) True 0 w = (Some (io rw), w' :: world)"
    and f: "f_out f = []" "blocksize xr < 2 ^ 31" and pc: "wt_pc rw = WT_lock"
    using assms by (auto simp: threaded_receiver_def)
  have "blocksize xr < 2 ^ 32" using f(2) by simp
  note R = writer_start_spec [OF st this f(1)]
  have "\<not> io_stopped (io rw)"
    using st by (auto simp: tftp_io_writer_start_def io_start_def split: if_splits dest!: sym [of _ "io rw"])
  then show "writer_ok (writer_view rw)" "writer_accepted (mode_of conv) (writer_view rw) []"
    using R pc by (simp_all add: writer_ok_def settled_ring_def writer_accepted_def mode_of_def)
  show "io_blocksize (fst (writer_view rw)) = blocksize xr" using R by simp
  show "sent_packets rw = []" "x_io_ops xr = Some threaded_writer_ops" "blocksize xr < 2 ^ 31"
    using assms by (simp_all add: threaded_receiver_def)
qed

lemma threaded_download_safe:
  assumes fresh: "threaded_sender xd conv f dw" "fresh_receiver xc conv cw"
    and ops: "x_ops xd = daemon_xfer_ops" "x_ops xc = client_xfer_ops"
    and x: "blocksize xd = blocksize xc" "rollover xd = rollover xc"
    and small: "length (encode (mode_of conv) (f_in f)) div blocksize xd < 65535" and rep: "harmless_reply rep"
    and run: "(threaded_download_step xd xc)\<^sup>*\<^sup>* (start_transfer xd xc isz rep dw cw) l"
  shows "success_delivers conv f l"
proof -
  let ?bl = "file_blocks xd conv f"
  note S = threaded_senderD [OF fresh(1)] and R = fresh_receiverD [OF fresh(2)]
  have bl: "proper_blocks (blocksize xc) ?bl"
    using proper_file_blocks [OF S(3) small] x(1) by (simp add: file_blocks_def)
  have enc: "concat ?bl = encode (mode_of conv) (f_in f)" using S(3) by (simp add: file_blocks_def concat_chunks)
  note safe = threaded_download.link_safe
    [OF S(1,2,4) R(1-3,5) bl R(7) ops(1) S(5) ops(2) R(6) x(2) rep run [unfolded threaded_download_step_def]]
  show ?thesis
    unfolding success_delivers_def using safe complete_file [of conv "io (rcv_world l)" xd f] by (fastforce simp: enc)
qed

lemma threaded_upload_safe:
  assumes fresh: "fresh_sender xc conv f cw" "threaded_receiver xd conv dw"
    and ops: "x_ops xd = daemon_xfer_ops" "x_ops xc = client_xfer_ops"
    and x: "blocksize xd = blocksize xc" "rollover xd = rollover xc"
    and small: "length (encode (mode_of conv) (f_in f)) div blocksize xd < 65535" and rep: "harmless_reply rep"
    and run: "(threaded_upload_step xc xd)\<^sup>*\<^sup>* (start_transfer xc xd isz rep cw dw) l"
  shows "success_delivers conv f l"
proof -
  let ?bl = "file_blocks xc conv f"
  note S = fresh_senderD [OF fresh(1)] and R = threaded_receiverD [OF fresh(2)]
  have bl: "proper_blocks (blocksize xd) ?bl"
    using proper_file_blocks [OF S(3)] small x(1) by (simp add: file_blocks_def)
  have enc: "concat ?bl = encode (mode_of conv) (f_in f)" using S(3) by (simp add: file_blocks_def concat_chunks)
  note safe = threaded_upload.link_safe
    [OF S(1,2,4) R(1-4) bl R(6) ops(2) S(5) ops(1) R(5) x(2) [symmetric] rep run [unfolded threaded_upload_step_def]]
  show ?thesis
    unfolding success_delivers_def using safe complete_file [of conv "io (rcv_world l)" xc f]
    by (fastforce simp: enc writer_complete_def)
qed

section \<open>Stopping\<close>

text \<open>Once the threads are told to stop, each ends after the step it is in and the section that follows.\<close>

lemma read_frame: "ops_read_packet dp w = (r, w1) \<Longrightarrow> wt_pc w1 = wt_pc w \<and> blocked w1 = blocked w"
  using ops_packet_more(1) [of dp w] by (cases w; cases w1) simp

lemma write_frame: "ops_write_packet dp n w = (r, w1) \<Longrightarrow> rt_pc w1 = rt_pc w \<and> blocked w1 = blocked w"
  using ops_packet_more(2) [of dp n w] by (cases w; cases w1) simp

lemma reader_stop_step:
  assumes "io_stopped (io w)"
  shows "(case reader_thread w of
      None \<Rightarrow> rt_pc w = RT_exit
    | Some w' \<Rightarrow> io_stopped (io w') \<and> reader_rank (rt_pc w') < reader_rank (rt_pc w) \<and> wt_pc w' = wt_pc w \<and> blocked w' = blocked w)"
proof (cases "rt_pc w")
  case (RT_read dp)
  obtain len w1 where rd: "ops_read_packet dp w = (len, w1)" by (metis surj_pair)
  from read_packet_stopped [OF rd] read_frame [OF rd] rd RT_read assms show ?thesis by (simp add: reader_thread_def)
qed (use assms in \<open>auto simp: reader_thread_def push_read_def io_error_def Let_def\<close>)

lemma reader_stops:
  "io_stopped (io w) \<Longrightarrow> reader_rank (rt_pc w) \<le> n \<Longrightarrow>
     rt_pc (run_reader n w) = RT_exit \<and> wt_pc (run_reader n w) = wt_pc w \<and> io_stopped (io (run_reader n w))
     \<and> blocked (run_reader n w) = blocked w"
proof (induction n arbitrary: w)
  case 0
  then show ?case by (cases "rt_pc w") auto
next
  case (Suc n)
  from reader_stop_step [OF Suc.prems(1)] Suc show ?case by (auto split: option.splits)
qed

fun stop_rank :: "writer_pc \<Rightarrow> nat" where
  "stop_rank (WT_write dp len) = 3"
| "stop_rank WT_pop = 2"
| "stop_rank WT_lock = 1"
| "stop_rank (WT_fail e) = 1"
| "stop_rank WT_exit = 0"

lemma writer_stop_step:
  assumes "io_stopped (io w)"
  shows "(case writer_thread w of
      None \<Rightarrow> wt_pc w = WT_exit
    | Some w' \<Rightarrow> io_stopped (io w') \<and> stop_rank (wt_pc w') < stop_rank (wt_pc w) \<and> rt_pc w' = rt_pc w \<and> blocked w' = blocked w)"
proof (cases "wt_pc w")
  case (WT_write dp len)
  obtain r w1 where wr: "ops_write_packet dp len w = (r, w1)" by (metis surj_pair)
  from write_packet_stopped [OF wr] write_frame [OF wr] wr WT_write assms show ?thesis by (simp add: writer_thread_def)
qed (use assms in \<open>auto simp: writer_thread_def pop_written_def io_error_def Let_def\<close>)

lemma writer_stops:
  "io_stopped (io w) \<Longrightarrow> stop_rank (wt_pc w) \<le> n \<Longrightarrow>
     wt_pc (run_writer n w) = WT_exit \<and> rt_pc (run_writer n w) = rt_pc w \<and> io_stopped (io (run_writer n w))
     \<and> blocked (run_writer n w) = blocked w"
proof (induction n arbitrary: w)
  case 0
  then show ?case by (cases "wt_pc w") auto
next
  case (Suc n)
  from writer_stop_step [OF Suc.prems(1)] Suc show ?case by (auto split: option.splits)
qed

lemma stop_joins: "rt_pc (tftp_io_stop w) = RT_exit \<and> wt_pc (tftp_io_stop w) = WT_exit \<and> blocked (tftp_io_stop w) = blocked w"
proof -
  let ?w = "w\<lparr>io := (io w)\<lparr>io_stopped := True\<rparr>\<rparr>"
  have "reader_rank (rt_pc ?w) \<le> 4" by (cases "rt_pc w") auto
  note R = reader_stops [OF _ this]
  have "stop_rank (wt_pc (run_reader 4 ?w)) \<le> 4" by (cases "wt_pc (run_reader 4 ?w)") auto
  note W = writer_stops [OF _ this]
  from R W show ?thesis by (simp add: tftp_io_stop_def Let_def)
qed

section \<open>No wait is for ever\<close>

lemma reader_thread_blocked: "reader_thread w = Some w' \<Longrightarrow> blocked w' = blocked w"
  by (cases "rt_pc w") (auto simp: reader_thread_def Let_def read_frame split: if_splits prod.splits)

lemma writer_thread_blocked: "writer_thread w = Some w' \<Longrightarrow> blocked w' = blocked w"
  by (cases "wt_pc w") (auto simp: writer_thread_def write_frame split: if_splits prod.splits)

lemma run_reader_blocked: "blocked (run_reader n w) = blocked w"
  by (induction n arbitrary: w) (auto simp: reader_thread_blocked split: option.splits)

lemma run_writer_blocked: "blocked (run_writer n w) = blocked w"
  by (induction n arbitrary: w) (auto simp: writer_thread_blocked split: option.splits)

lemma await_window_blocked: "blocked (await_window w) = blocked w"
proof (induction w rule: await_window.induct)
  case (1 w)
  then show ?case by (subst await_window.simps) (auto simp: reader_thread_blocked split: option.splits)
qed

lemma await_writer_blocked: "blocked (await_writer n P w) = blocked w"
  by (induction n arbitrary: w) (auto simp: writer_thread_blocked split: option.splits)

lemma turn_blocked: "blocked (reader_turn w) = blocked w" "blocked (writer_turn w) = blocked w"
  by (simp_all add: reader_turn_def writer_turn_def run_reader_blocked run_writer_blocked split: list.splits)

lemma writer_wait_blocked: "blocked (writer_wait P w) = blocked w"
  by (simp add: writer_wait_def turn_blocked await_writer_blocked)

lemma adapter_blocked:
  fixes w :: "'a thread_world_scheme"
  shows "blocked (snd (tftp_io_read_window w)) = blocked w" "blocked (snd (tftp_io_writer_reserve w)) = blocked w"
    "blocked (snd (tftp_io_write_drain w)) = blocked w"
proof -
  have more: "blocked v = blocked w" if "io_world.more v = io_world.more w" for v :: "'a thread_world_scheme"
    using that by (cases v; cases w) simp
  show "blocked (snd (tftp_io_read_window w)) = blocked w" "blocked (snd (tftp_io_writer_reserve w)) = blocked w"
    "blocked (snd (tftp_io_write_drain w)) = blocked w"
    by (rule more, simp add: adapter_more)+
qed

lemma threaded_unblocked:
  "reader_ok (reader_view w) \<Longrightarrow> blocked (snd (threaded_read_window w)) = blocked w"
  "writer_ok (writer_view w) \<Longrightarrow> io_states (io w) ! io_tail (io w) \<noteq> SLOT_RESERVED \<Longrightarrow>
     blocked (snd (threaded_write_reserve w)) = blocked w"
  "writer_ok (writer_view w) \<Longrightarrow> blocked (snd (threaded_write_drain w)) = blocked w"
  by (simp_all add: threaded_read_window_def threaded_write_reserve_def threaded_write_drain_def read_window_waits reserve_waits
      drain_waits adapter_blocked turn_blocked await_window_blocked writer_wait_blocked)

section \<open>Properties\<close>

lemma lossless_step_star:
  "(link_step xs sio svw ssent xr rio rvw rsent)\<^sup>*\<^sup>* l (snd (snd (lossless_step xs sio ssent xr rio rsent (i, j, l))))"
proof -
  obtain i' j' l' where d: "lossless_step xs sio ssent xr rio rsent (i, j, l) = (i', j', l')" by (metis prod_cases3)
  from lossless_step_reach [OF d, of svw rvw] d show ?thesis by auto
qed

definition threads_of :: "tftp_io \<Rightarrow> nat list \<Rightarrow> thread_world" where
  "threads_of s sched =
     \<lparr>errno = 0, io = s, timeout = 1000000, rexmtval = 1000000, maxtimeout = 1000000 * TIMEOUT_LIMIT,
      timeout_quit = False, ctx_timeout = 0, retry_active = False, sent_packets = [], send_plan = [],
      rt_pc = RT_lock, rt_aux = [], wt_pc = WT_lock, schedule = sched, blocked = False\<rparr>"

definition threads_xfer :: "thread_world tftp_xfer_io_ops \<Rightarrow> thread_world tftp_xfer" where
  "threads_xfer adapter =
     \<lparr>blocksize = 8, windowsize = 2, max_bytes = 1000, rollover = 0, resend_oack = False,
      x_ops = daemon_xfer_ops, x_io_ops = Some adapter\<rparr>"

definition threads_reader :: "char list \<Rightarrow> tftp_io" where
  "threads_reader s = the (fst (tftp_io_reader_start (file_of s) False 2 4 8 True 0 \<lparr>errno = 0\<rparr>))"

definition threads_writer :: tftp_io where
  "threads_writer = the (fst (tftp_io_writer_start (file_of []) False 4 8 True 0 \<lparr>errno = 0\<rparr>))"

lemma threads_example:
  "threaded_sender (threads_xfer threaded_reader_ops) False (file_of s) (threads_of (threads_reader s) sched)"
  "threaded_receiver (threads_xfer threaded_writer_ops) False (threads_of threads_writer sched)"
proof -
  have "tftp_io_reader_start (file_of s) False 2 4 8 True 0 \<lparr>errno = 0\<rparr> = (Some (threads_reader s), \<lparr>errno = 0\<rparr>)"
    by (simp add: threads_reader_def tftp_io_reader_start_def io_start_def)
  then show "threaded_sender (threads_xfer threaded_reader_ops) False (file_of s) (threads_of (threads_reader s) sched)"
    unfolding threaded_sender_def by (auto simp: threads_xfer_def threads_of_def file_of_def)
  have "tftp_io_writer_start (file_of []) False 4 8 True 0 \<lparr>errno = 0\<rparr> = (Some threads_writer, \<lparr>errno = 0\<rparr>)"
    by (simp add: threads_writer_def tftp_io_writer_start_def io_start_def)
  moreover have "f_out (file_of []) = []" by (simp add: file_of_def)
  ultimately show "threaded_receiver (threads_xfer threaded_writer_ops) False (threads_of threads_writer sched)"
    unfolding threaded_receiver_def by (auto simp: threads_xfer_def threads_of_def)
qed

text \<open>
  C4: transfers with a daemon that uses helper threads are safe, in either direction, under
  every schedule of the threads, every behaviour of the network and every socket or file
  error: when an engine reports success, the receiver's file is the sender's, and the
  sender's byte count is that of the encoded file.
\<close>

theorem threaded_transfer_delivers:
  assumes "x_ops xd = daemon_xfer_ops" "x_ops xc = client_xfer_ops"
    and "blocksize xd = blocksize xc" "rollover xd = rollover xc"
    and "length (encode (mode_of conv) (f_in f)) div blocksize xd < 65535" "harmless_reply rep"
  shows "(threaded_sender xd conv f dw \<and> fresh_receiver xc conv cw
      \<and> (threaded_download_step xd xc)\<^sup>*\<^sup>* (start_transfer xd xc isz rep dw cw) l \<longrightarrow> success_delivers conv f l)
    \<and> (fresh_sender xc conv f cw \<and> threaded_receiver xd conv dw
      \<and> (threaded_upload_step xc xd)\<^sup>*\<^sup>* (start_transfer xc xd isz rep cw dw) l' \<longrightarrow> success_delivers conv f l')"
  using threaded_download_safe [OF _ _ assms] threaded_upload_safe [OF _ _ assms] by blast

theorem threaded_transfer_delivers_witness:
  "(let xd = threads_xfer threaded_reader_ops; xc = example_xfer client_xfer_ops 8 2;
        step = lossless_step xd threaded_reader_ops sent_packets xc tftp_io_xfer_ops sent_packets
    in success_delivers False (file_of ''abcdefghij'')
         (snd (snd (step (0, 0, start_transfer xd xc 12 None (threads_of (threads_reader ''abcdefghij'') [1, 3])
            (world_of (writer_of False 2 8) 1000000))))))
   \<and> (let xd = threads_xfer threaded_writer_ops; xc = example_xfer client_xfer_ops 8 2;
          step = lossless_step xc tftp_io_xfer_ops sent_packets xd threaded_writer_ops sent_packets
      in success_delivers False (file_of ''abcdefghij'')
           (snd (snd (step (0, 0, start_transfer xc xd 12 None (world_of (reader_of False 2 8 ''abcdefghij'') 1000000)
              (threads_of threads_writer [2]))))))"
proof -
  let ?f = "file_of ''abcdefghij''" and ?xc = "example_xfer client_xfer_ops 8 2"
  have down: "(threaded_download_step xd xc)\<^sup>*\<^sup>* l
      (snd (snd (lossless_step xd threaded_reader_ops sent_packets xc tftp_io_xfer_ops sent_packets (i, j, l))))" for xd xc l i j
    unfolding threaded_download_step_def by (rule lossless_step_star)
  have up: "(threaded_upload_step xc xd)\<^sup>*\<^sup>* l
      (snd (snd (lossless_step xc tftp_io_xfer_ops sent_packets xd threaded_writer_ops sent_packets (i, j, l))))" for xd xc l i j
    unfolding threaded_upload_step_def by (rule lossless_step_star)
  have side: "blocksize (threads_xfer ad) = blocksize ?xc" "rollover (threads_xfer ad) = rollover ?xc"
    "x_ops (threads_xfer ad) = daemon_xfer_ops" "x_ops ?xc = client_xfer_ops" "harmless_reply None"
    "length (encode (mode_of False) (f_in ?f)) div blocksize (threads_xfer ad) < 65535" for ad
    by (simp_all add: threads_xfer_def example_xfer_def file_of_def mode_of_def encode_def harmless_reply_def)
  note T = threaded_transfer_delivers [OF side(3,4,1,2,6,5)]
  have s: "0 < (8 :: nat)" "(8 :: nat) < 2 ^ 31" "0 < (2 :: nat)" by simp_all
  show ?thesis
    unfolding Let_def
    using T [THEN conjunct1, THEN mp, OF conjI [OF threads_example(1) conjI [OF example_receiver [OF s] down]]]
      T [THEN conjunct2, THEN mp, OF conjI [OF example_sender [OF s] conjI [OF threads_example(2) up]]]
    by simp
qed



end
