(* ===== verification/Cmdtab.thy ===== *)
theory Cmdtab
  imports Subs "HOL-Library.Sublist"
begin

text \<open>
  The commands of the interactive client (\<open>tftp/main.c\<close>): the command table with its help
  texts, the lookup of a command by an abbreviation, the split of a line into words, and the
  reading of a line. A handler in the table is a value of a data type; the theory \<open>Commands\<close>
  runs it.

  The lookup accepts a name exactly when it extends the part of the table's name before the
  bracket and is a prefix of the whole, in either case, and no name is accepted twice.
\<close>

section \<open>Definitions\<close>

subsection \<open>The table\<close>

datatype handler =
  H_setpeer | H_modecmd | H_put | H_mput | H_get | H_mget | H_quit | H_setverbose | H_settrace | H_setliteral
  | H_status | H_setbinary | H_setascii | H_setblocksize | H_setrexmt | H_settimeout | H_settsize | H_setwindowsize
  | H_setoptions | H_help

record cmd =
  cmd_name :: string
  handler :: handler
  shorthelp :: string
  longhelp :: "string list"

definition quoted :: "string \<Rightarrow> string" where
  "quoted s = [CHR 0x22] @ s @ [CHR 0x22]"

text \<open>The help texts, line by line.\<close>

definition longhelp_connect :: "string list" where
  "longhelp_connect =
     [''  connect host [port]'',
      ''    Set the host, and optionally port, for transfers. TFTP does not'',
      ''    maintain connections between transfers, so this command merely'',
      ''    remembers the host to use. A remote host can instead be specified'',
      ''    as part of an [m]get or [m]put command.'']"

definition longhelp_mode :: "string list" where
  "longhelp_mode =
     [''  mode {netascii|octet}'',
      ''    Specify the transfer mode. netascii converts line endings and'',
      ''    octet transfers binary data without conversion. The default is'',
      ''    netascii.'']"

definition longhelp_put :: "string list" where
  "longhelp_put =
     [''  put [local-file] [host:]remote-file'',
      ''    Upload a file to a remote file or directory. If 'local-file'' @ [CHR 0x27],
      ''    is not specified, it is assumed to be the same as 'remote-file'' @ [CHR 0x27],
      ''    with any directory portion removed. If 'remote-file' is'',
      ''    to be considered a directory, it needs to end in '/'.'',
      ''  put local-file local-file... [host:]remote-directory'',
      ''    Upload two or more files to a directory on the remote host.'',
      ''    See also the 'mput' command.'',
      [],
      ''  The remote host is assumed to use '/' as its directory separator.'',
      ''  The remote name may be of the form host:filename to specify'',
      ''  the remote host to connect to, as if the 'connect' command had'',
      ''  been used to specify this host.'',
      ''  Enable literal mode to prevent special treatment of ':' in filenames.'']"

definition longhelp_mput :: "string list" where
  "longhelp_mput =
     [''  mput local-file... [host:]remote-directory'',
      ''    Upload one or more files to a directory on the remote host.'',
      [],
      ''  The remote host is assumed to use '/' as its directory separator.'',
      ''  The remote name may be of the form host:filename to specify'',
      ''  the remote host to connect to, as if the 'connect' command had'',
      ''  been used to specify this host.'',
      ''  Enable literal mode to prevent special treatment of ':' in filenames.'']"

definition longhelp_get :: "string list" where
  "longhelp_get =
     [''  get [host:]remote-file [local-file]'',
      ''    Download a file from a remote file or directory. If 'local-file'' @ [CHR 0x27],
      ''    is not specified, it is assumed to be the same as 'remote-file'' @ [CHR 0x27],
      ''    with any directory portion removed.'',
      ''  get [host:]remote-file [host:]remote-file [host:]remote-file...'',
      ''    Download three or more files into the current directory on the'',
      ''   local system. See also the 'mget' command.'',
      [],
      ''  The remote host is assumed to use '/' as its directory separator.'',
      ''  The remote name may be of the form host:filename to specify'',
      ''  the remote host to connect to, as if the 'connect' command had'',
      ''  been used to specify this host.'',
      ''  Enable literal mode to prevent special treatment of ':' in filenames.'']"

definition longhelp_mget :: "string list" where
  "longhelp_mget =
     [''  mget [host:]remote-file... local-directory'',
      ''    Download one or more files from from a remote directory into'',
      ''    a specified directory on the local system.'',
      [],
      ''  The remote host is assumed to use '/' as its directory separator.'',
      ''  The remote name may be of the form host:filename to specify'',
      ''  the remote host to connect to, as if the 'connect' command had'',
      ''  been used to specify this host.'',
      ''  Enable literal mode to prevent special treatment of ':' in filenames.'']"

definition longhelp_quit :: "string list" where
  "longhelp_quit =
     [''  quit'',
      ''    Exit tftp. End-of-file also exits.'']"

definition longhelp_verbose :: "string list" where
  "longhelp_verbose =
     [''  verbose [level]'',
      ''    Toggle verbose mode or set the verbosity level.'']"

definition longhelp_trace :: "string list" where
  "longhelp_trace =
     [''  trace'',
      ''    Toggle packet tracing, a debugging feature.'']"

definition longhelp_literal :: "string list" where
  "longhelp_literal =
     [''  literal'',
      ''    Toggle literal mode. When enabled, this mode prevents special'',
      ''    treatment of ':' in filenames.'']"

definition longhelp_status :: "string list" where
  "longhelp_status =
     [''  status'',
      ''    Show current status.'']"

definition longhelp_binary :: "string list" where
  "longhelp_binary =
     [''  binary'',
      ''    Set the transfer mode to octet (shorthand for '' @ quoted ''mode octet'' @ ''.)'']"

definition longhelp_ascii :: "string list" where
  "longhelp_ascii =
     [''  ascii'',
      ''    Set the transfer mode to netascii (shorthand for '' @ quoted ''mode netascii'' @ ''.)'']"

definition longhelp_blocksize :: "string list" where
  "longhelp_blocksize =
     [''  blocksize size'',
      ''    Request the RFC 2348 blksize option with 'size' bytes per data'',
      ''    block. Valid values are 8 through 65464.'']"

definition longhelp_rexmt :: "string list" where
  "longhelp_rexmt =
     [''  rexmt packet-timeout'',
      ''    Set the initial per-packet retransmission timeout in seconds. Each'',
      ''    subsequent retry doubles this interval.'']"

definition longhelp_timeout :: "string list" where
  "longhelp_timeout =
     [''  timeout total-timeout'',
      ''    Set the maximum retransmission interval in seconds.'']"

definition longhelp_tsize :: "string list" where
  "longhelp_tsize =
     [''  tsize'',
      ''    Toggle the sending of the TFTP tsize (transfer size) option.'',
      ''    The default is to send the tsize option.'']"

definition longhelp_windowsize :: "string list" where
  "longhelp_windowsize =
     [''  windowsize size'',
      ''    Request the RFC 7440 windowsize option with 'size' data'',
      ''    blocks per window. Valid values are 1 through 32768.'']"

definition longhelp_options :: "string list" where
  "longhelp_options =
     [''  options'',
      ''    Toggle the sending of TFTP options. When set to off, no'',
      ''    TFTP options of any kind are sent. This disables the'',
      ''    block size, window size, and transfer size functions.'']"

definition longhelp_help :: "string list" where
  "longhelp_help =
     [''  help [command ...]'',
      ''  ? [command ...]'',
      ''    Print help information. With command names, display detailed help'',
      ''    for each command.'']"

definition cmdtab :: "cmd list" where
  "cmdtab =
     [\<lparr>cmd_name = ''c[onnect]'', handler = H_setpeer, shorthelp = ''connect to remote tftp server'', longhelp = longhelp_connect\<rparr>,
      \<lparr>cmd_name = ''m[ode]'', handler = H_modecmd, shorthelp = ''set file transfer mode'', longhelp = longhelp_mode\<rparr>,
      \<lparr>cmd_name = ''p[ut]'', handler = H_put, shorthelp = ''send (upload) file or files'', longhelp = longhelp_put\<rparr>,
      \<lparr>cmd_name = ''mp[ut]'', handler = H_mput, shorthelp = ''send (upload) multiple files'', longhelp = longhelp_mput\<rparr>,
      \<lparr>cmd_name = ''g[et]'', handler = H_get, shorthelp = ''receive (download) file or files'', longhelp = longhelp_get\<rparr>,
      \<lparr>cmd_name = ''mg[et]'', handler = H_mget, shorthelp = ''receive (download) multiple files'', longhelp = longhelp_mget\<rparr>,
      \<lparr>cmd_name = ''q[uit]'', handler = H_quit, shorthelp = ''exit tftp'', longhelp = longhelp_quit\<rparr>,
      \<lparr>cmd_name = ''v[erbose]'', handler = H_setverbose, shorthelp = ''toggle or set message verbosity'', longhelp = longhelp_verbose\<rparr>,
      \<lparr>cmd_name = ''tr[ace]'', handler = H_settrace, shorthelp = ''toggle packet tracing'', longhelp = longhelp_trace\<rparr>,
      \<lparr>cmd_name = ''l[iteral]'', handler = H_setliteral, shorthelp = ''toggle literal mode, ignore ':' in file name'', longhelp = longhelp_literal\<rparr>,
      \<lparr>cmd_name = ''st[atus]'', handler = H_status, shorthelp = ''show current status'', longhelp = longhelp_status\<rparr>,
      \<lparr>cmd_name = ''b[inary]'', handler = H_setbinary, shorthelp = ''set mode to octet'', longhelp = longhelp_binary\<rparr>,
      \<lparr>cmd_name = ''a[scii]'', handler = H_setascii, shorthelp = ''set mode to netascii'', longhelp = longhelp_ascii\<rparr>,
      \<lparr>cmd_name = ''bl[ocksize]'', handler = H_setblocksize, shorthelp = ''set the requested transfer block size'', longhelp = longhelp_blocksize\<rparr>,
      \<lparr>cmd_name = ''r[exmt]'', handler = H_setrexmt, shorthelp = ''set per-packet transmission timeout'', longhelp = longhelp_rexmt\<rparr>,
      \<lparr>cmd_name = ''ti[meout]'', handler = H_settimeout, shorthelp = ''set total retransmission timeout'', longhelp = longhelp_timeout\<rparr>,
      \<lparr>cmd_name = ''tsi[ze]'', handler = H_settsize, shorthelp = ''toggle sending tsize option'', longhelp = longhelp_tsize\<rparr>,
      \<lparr>cmd_name = ''win[dowsize]'', handler = H_setwindowsize, shorthelp = ''set the requested transfer window size'', longhelp = longhelp_windowsize\<rparr>,
      \<lparr>cmd_name = ''opt[ions]'', handler = H_setoptions, shorthelp = ''toggle TFTP options support'', longhelp = longhelp_options\<rparr>,
      \<lparr>cmd_name = ''?'', handler = H_help, shorthelp = ''print help information'', longhelp = longhelp_help\<rparr>,
      \<lparr>cmd_name = ''h[elp]'', handler = H_help, shorthelp = ''print help information'', longhelp = longhelp_help\<rparr>]"

subsection \<open>Lookup\<close>

text \<open>
  One name of the table against the input, with the flag \<open>ok\<close> and the number of characters
  that matched.
\<close>

fun match_cmd :: "string \<Rightarrow> string \<Rightarrow> bool \<Rightarrow> nat \<Rightarrow> bool \<times> nat" where
  "match_cmd p [] ok metric = (p = [], metric)"
| "match_cmd p (q # qs) ok metric =
     (if q = CHR '']'' then (p = [], metric)
      else if q = CHR ''['' then match_cmd p qs True metric
      else if p = [] then (ok, metric)
      else if ascii_tolower (uc (hd p)) \<noteq> uc q then (False, metric)
      else match_cmd (tl p) qs ok (Suc metric))"

text \<open>\<open>Inl\<close> is the suggestion for a name that is unknown.\<close>

fun getcmd_loop :: "string \<Rightarrow> cmd list \<Rightarrow> cmd \<Rightarrow> int \<Rightarrow> cmd + cmd" where
  "getcmd_loop name [] best best_metric = Inl best"
| "getcmd_loop name (c # cs) best best_metric =
     (case match_cmd name (cmd_name c) False 0 of (ok, metric) \<Rightarrow>
        if ok then Inr c
        else if best_metric < int metric then getcmd_loop name cs c (int metric)
        else getcmd_loop name cs best best_metric)"

definition getcmd :: "string \<Rightarrow> cmd + cmd" where
  "getcmd name = getcmd_loop name cmdtab (hd cmdtab) (- 1)"

subsection \<open>Words and lines\<close>

definition MARGVSIZE :: nat where
  "MARGVSIZE = 20"

definition LBUFLEN :: nat where
  "LBUFLEN = 200"

fun makeargv_loop :: "nat \<Rightarrow> string \<Rightarrow> string list" where
  "makeargv_loop 0 cp = []"
| "makeargv_loop (Suc n) cp =
     (let s = dropWhile c_isspace cp in
      if s = [] then []
      else takeWhile (\<lambda>c. \<not> c_isspace c) s #
        (let r = dropWhile (\<lambda>c. \<not> c_isspace c) s in if r = [] then [] else makeargv_loop n (tl r)))"

definition makeargv :: "string \<Rightarrow> string list" where
  "makeargv str = makeargv_loop (MARGVSIZE - 1) str"

text \<open>\<open>fgets\<close> on the bytes that are left of the input; \<open>None\<close> at its end.\<close>

definition fgets :: "nat \<Rightarrow> char list \<Rightarrow> (char list \<times> char list) option" where
  "fgets len input =
     (if input = [] then None
      else let n = min (len - 1) (Suc (length (takeWhile (\<lambda>c. c \<noteq> CHR 0x0A) input)))
           in Some (take n input, drop n input))"

section \<open>Lemmas\<close>

text \<open>What the table's notation means: the name in full, and the part that is needed.\<close>

definition full_name :: "cmd \<Rightarrow> string" where
  "full_name c = filter (\<lambda>q. q \<noteq> CHR ''['' \<and> q \<noteq> CHR '']'') (cmd_name c)"

definition short_name :: "cmd \<Rightarrow> string" where
  "short_name c = takeWhile (\<lambda>q. q \<noteq> CHR ''['') (cmd_name c)"

definition lower :: "string \<Rightarrow> u8 list" where
  "lower s = map (\<lambda>c. ascii_tolower (uc c)) s"

definition accepts :: "cmd \<Rightarrow> string \<Rightarrow> bool" where
  "accepts c name \<longleftrightarrow>
     prefix (lower name) (map uc (full_name c)) \<and> prefix (map uc (short_name c)) (lower name)"

lemma uc_eq: "uc c = uc d \<longleftrightarrow> c = d"
proof
  assume "uc c = uc d"
  then have "unat (of_nat (of_char c) :: u8) = unat (of_nat (of_char d) :: u8)" by (simp add: uc_def of_nat_of_char)
  then show "c = d" by (simp add: unat_of_nat)
qed simp

lemma prefix_map_uc: "prefix (map uc s) (map uc t) \<longleftrightarrow> prefix s t"
proof (induction s arbitrary: t)
  case (Cons c s)
  then show ?case by (cases t) (simp_all add: uc_eq)
qed simp

lemma match_cmd_metric: "fst (match_cmd p q ok m) = fst (match_cmd p q ok n)"
proof (induction q arbitrary: p ok m n)
  case (Cons a q)
  have "fst (match_cmd (tl p) q ok (Suc m)) = fst (match_cmd (tl p) q ok (Suc n))"
    "fst (match_cmd p q True m) = fst (match_cmd p q True n)" by (rule Cons.IH)+
  then show ?case by simp
qed simp

definition plain :: "string \<Rightarrow> bool" where
  "plain s \<longleftrightarrow> CHR ''['' \<notin> set s \<and> CHR '']'' \<notin> set s"

lemma plain_simps [simp]: "plain []" "plain (c # s) \<longleftrightarrow> c \<noteq> CHR ''['' \<and> c \<noteq> CHR '']'' \<and> plain s"
  by (auto simp: plain_def)

lemma match_optional:
  "plain t \<Longrightarrow> fst (match_cmd p (t @ [CHR '']'']) True m) \<longleftrightarrow> prefix (lower p) (map uc t)"
proof (induction t arbitrary: p m)
  case (Cons q t)
  then show ?case by (cases p) (auto simp: lower_def)
qed (auto simp: lower_def)

lemma match_needed:
  "plain s \<Longrightarrow> fst (match_cmd p (s @ CHR ''['' # r) False m)
     \<longleftrightarrow> prefix (map uc s) (lower p) \<and> fst (match_cmd (drop (length s) p) r True m)"
proof (induction s arbitrary: p m)
  case (Cons q s)
  then show ?case
    using match_cmd_metric [of "drop (length s) (tl p)" r True "Suc m" m] by (cases p) (auto simp: lower_def)
qed simp

lemma match_whole: "plain s \<Longrightarrow> fst (match_cmd p s False m) \<longleftrightarrow> lower p = map uc s"
proof (induction s arbitrary: p m)
  case (Cons q s)
  then show ?case by (cases p) (auto simp: lower_def)
qed (auto simp: lower_def)

text \<open>Every name of the table has its brackets, if any, around the end.\<close>

definition well_written :: "cmd \<Rightarrow> bool" where
  "well_written c \<longleftrightarrow>
     (let s = takeWhile (\<lambda>q. q \<noteq> CHR ''['') (cmd_name c); r = dropWhile (\<lambda>q. q \<noteq> CHR ''['') (cmd_name c)
      in plain s \<and> (r = [] \<or> plain (butlast (tl r)) \<and> tl r \<noteq> [] \<and> last r = CHR '']''))"

lemma cmdtab_names:
  "map cmd_name cmdtab =
     [''c[onnect]'', ''m[ode]'', ''p[ut]'', ''mp[ut]'', ''g[et]'', ''mg[et]'', ''q[uit]'', ''v[erbose]'', ''tr[ace]'',
      ''l[iteral]'', ''st[atus]'', ''b[inary]'', ''a[scii]'', ''bl[ocksize]'', ''r[exmt]'', ''ti[meout]'', ''tsi[ze]'',
      ''win[dowsize]'', ''opt[ions]'', ''?'', ''h[elp]'']"
  by (simp add: cmdtab_def)

lemma cmdtab_well_written: "c \<in> set cmdtab \<Longrightarrow> well_written c"
proof -
  have "list_all (\<lambda>n. well_written \<lparr>cmd_name = n, handler = H_quit, shorthelp = [], longhelp = []\<rparr>) (map cmd_name cmdtab)"
    unfolding cmdtab_names by (simp add: well_written_def Let_def)
  then show "c \<in> set cmdtab \<Longrightarrow> well_written c" by (auto simp: list_all_iff well_written_def)
qed

lemma prefix_drop: "prefix xs ys \<Longrightarrow> prefix ys (xs @ zs) \<longleftrightarrow> prefix (drop (length xs) ys) zs"
  by (auto simp: prefix_def)

lemma match_accepts:
  assumes "well_written c"
  shows "fst (match_cmd p (cmd_name c) False m) \<longleftrightarrow> accepts c p"
proof -
  define s where "s = short_name c"
  define r where "r = dropWhile (\<lambda>q. q \<noteq> CHR ''['') (cmd_name c)"
  have n: "cmd_name c = s @ r" by (simp add: s_def r_def short_name_def)
  have ps: "plain s" using assms by (simp add: well_written_def s_def short_name_def Let_def)
  have fp: "filter (\<lambda>q. q \<noteq> CHR ''['' \<and> q \<noteq> CHR '']'') t = t" if "plain t" for t using that by (induction t) auto
  show ?thesis
  proof (cases "r = []")
    case True
    then have "full_name c = s" using n fp [OF ps] by (simp add: full_name_def)
    moreover have "lower p = map uc s \<longleftrightarrow> prefix (lower p) (map uc s) \<and> prefix (map uc s) (lower p)"
      by (auto intro: prefix_order.antisym)
    ultimately show ?thesis using match_whole [OF ps] n True by (simp add: accepts_def s_def)
  next
    case False
    then have h: "hd r = CHR ''[''" using hd_dropWhile [of "\<lambda>q. q \<noteq> CHR ''[''" "cmd_name c"] by (simp add: r_def)
    define t where "t = butlast (tl r)"
    have t: "plain t" "tl r \<noteq> []" "last r = CHR '']''"
      using assms False by (auto simp: well_written_def r_def t_def Let_def)
    have r: "r = CHR ''['' # t @ [CHR '']'']"
      using False h t append_butlast_last_id [of "tl r"] by (cases r) (auto simp: t_def split: if_splits)
    have f: "full_name c = s @ t" using n r fp [OF ps] fp [OF t(1)] by (simp add: full_name_def)
    have "fst (match_cmd p (cmd_name c) False m) \<longleftrightarrow>
        prefix (map uc s) (lower p) \<and> prefix (lower (drop (length s) p)) (map uc t)"
      using match_needed [OF ps, of p "t @ [CHR '']'']" m] match_optional [OF t(1)] n r by simp
    also have "lower (drop (length s) p) = drop (length (map uc s)) (lower p)" by (simp add: lower_def drop_map)
    finally show ?thesis
      using prefix_drop [of "map uc s" "lower p" "map uc t"] by (auto simp: accepts_def f s_def)
  qed
qed

text \<open>Two commands never accept the same name.\<close>

lemma cmdtab_unambiguous:
  assumes "c \<in> set cmdtab" "d \<in> set cmdtab" "accepts c name" "accepts d name"
  shows "c = d"
proof -
  have "prefix (map uc (short_name c)) (map uc (full_name d))" "prefix (map uc (short_name d)) (map uc (full_name c))"
    using assms(3,4) prefix_order.trans unfolding accepts_def by blast+
  then have p: "prefix (short_name c) (full_name d)" "prefix (short_name d) (full_name c)"
    by (simp_all add: prefix_map_uc)
  let ?s = "takeWhile (\<lambda>q. q \<noteq> CHR ''['')" and ?f = "filter (\<lambda>q. q \<noteq> CHR ''['' \<and> q \<noteq> CHR '']'')"
  have "list_all (\<lambda>i. list_all (\<lambda>j. prefix (?s i) (?f j) \<and> prefix (?s j) (?f i) \<longrightarrow> i = j) (map cmd_name cmdtab)) (map cmd_name cmdtab)"
    unfolding cmdtab_names by code_simp
  then have n: "cmd_name c = cmd_name d"
    using p assms(1,2) by (auto simp: list_all_iff short_name_def full_name_def)
  have "distinct (map cmd_name cmdtab)" unfolding cmdtab_names by code_simp
  then show ?thesis using n assms(1,2) by (meson distinct_map inj_onD)
qed

lemma getcmd_loop_spec:
  assumes "\<forall>c \<in> set cs. well_written c"
  shows "getcmd_loop name cs best bm = Inr c \<Longrightarrow> c \<in> set cs \<and> accepts c name"
    "getcmd_loop name cs best bm = Inl c \<Longrightarrow> \<forall>d \<in> set cs. \<not> accepts d name"
  using assms
proof (induction cs arbitrary: best bm)
  case (Cons d cs)
  {
    case 1
    with Cons.IH(1) match_accepts [of d name 0] show ?case by (auto split: prod.splits if_splits)
  next
    case 2
    with Cons.IH(2) match_accepts [of d name 0] show ?case by (auto split: prod.splits if_splits)
  }
qed simp_all

text \<open>The suggestion is an entry of the table with the longest match.\<close>

definition matched :: "string \<Rightarrow> cmd \<Rightarrow> nat" where
  "matched name c = snd (match_cmd name (cmd_name c) False 0)"

lemma getcmd_loop_best:
  "getcmd_loop name cs best bm = Inl c \<Longrightarrow>
     (c = best \<and> (\<forall>d \<in> set cs. int (matched name d) \<le> bm))
     \<or> (c \<in> set cs \<and> bm < int (matched name c) \<and> (\<forall>d \<in> set cs. matched name d \<le> matched name c))"
proof (induction cs arbitrary: best bm)
  case (Cons d cs)
  obtain ok m where d: "match_cmd name (cmd_name d) False 0 = (ok, m)" by fastforce
  then have m: "matched name d = m" by (simp add: matched_def)
  show ?case
  proof (cases "bm < int m")
    case True
    with Cons.prems d have "getcmd_loop name cs d (int m) = Inl c" by (auto split: if_splits)
    from Cons.IH [OF this] True m show ?thesis by auto
  next
    case False
    with Cons.prems d have "getcmd_loop name cs best bm = Inl c" by (auto split: if_splits)
    from Cons.IH [OF this] False m show ?thesis by fastforce
  qed
qed simp

lemma getcmd_Inl:
  assumes "getcmd name = Inl c"
  shows "c \<in> set cmdtab \<and> (\<forall>d \<in> set cmdtab. \<not> accepts d name \<and> matched name d \<le> matched name c)"
proof -
  have "getcmd_loop name cmdtab (hd cmdtab) (- 1) = Inl c" using assms by (simp add: getcmd_def)
  from getcmd_loop_best [OF this] getcmd_loop_spec(2) [OF _ this] cmdtab_well_written
  show ?thesis by (auto simp: cmdtab_def)
qed

lemma getcmd_Inr: "getcmd name = Inr c \<longleftrightarrow> c \<in> set cmdtab \<and> accepts c name"
proof
  show "c \<in> set cmdtab \<and> accepts c name" if "getcmd name = Inr c"
    using getcmd_loop_spec(1) [OF _ that [unfolded getcmd_def]] cmdtab_well_written by blast
  assume c: "c \<in> set cmdtab \<and> accepts c name"
  show "getcmd name = Inr c"
  proof (cases "getcmd name")
    case (Inl d)
    with getcmd_Inl c show ?thesis by blast
  next
    case (Inr d)
    then have "d \<in> set cmdtab \<and> accepts d name"
      using getcmd_loop_spec(1) [OF _ Inr [unfolded getcmd_def]] cmdtab_well_written by blast
    with c cmdtab_unambiguous Inr show ?thesis by blast
  qed
qed

subsection \<open>Words and lines\<close>

lemma makeargv_loop_words:
  "length (makeargv_loop n s) \<le> n" "w \<in> set (makeargv_loop n s) \<Longrightarrow> w \<noteq> [] \<and> list_all (\<lambda>c. \<not> c_isspace c) w"
proof (induction n s rule: makeargv_loop.induct)
  case (2 n cp)
  let ?s = "dropWhile c_isspace cp"
  {
    case 1
    then show ?case using "2.IH"(1) by (auto simp: Let_def)
  next
    case 2
    have "takeWhile (\<lambda>c. \<not> c_isspace c) ?s \<noteq> []" if "?s \<noteq> []"
      using that hd_dropWhile [of c_isspace cp] by (cases ?s) auto
    moreover have "list_all (\<lambda>c. \<not> c_isspace c) (takeWhile (\<lambda>c. \<not> c_isspace c) ?s)"
      by (auto simp: list_all_iff dest: set_takeWhileD)
    ultimately show ?case using "2.IH"(2) 2 by (auto simp: Let_def split: if_splits)
  }
qed simp_all

lemma makeargv_loop_join:
  "length ws \<le> n \<Longrightarrow> \<forall>w \<in> set ws. w \<noteq> [] \<and> list_all (\<lambda>c. \<not> c_isspace c) w \<Longrightarrow>
     makeargv_loop n (concat (map (\<lambda>w. w @ '' '') ws)) = ws"
proof (induction ws arbitrary: n)
  case Nil
  then show ?case by (cases n) simp_all
next
  case (Cons w ws)
  obtain m where n: "n = Suc m" using Cons.prems(1) by (cases n) auto
  let ?r = "concat (map (\<lambda>w. w @ '' '') ws)"
  have w: "w \<noteq> []" "\<And>c. c \<in> set w \<Longrightarrow> \<not> c_isspace c" using Cons.prems(2) by (auto simp: list_all_iff)
  have sp: "c_isspace CHR '' ''" by (simp add: c_isspace_def uc_def)
  have "dropWhile c_isspace (w @ '' '' @ ?r) = w @ '' '' @ ?r" using w by (cases w) auto
  moreover have "takeWhile (\<lambda>c. \<not> c_isspace c) (w @ '' '' @ ?r) = w"
    using w(2) sp by (subst takeWhile_append2) auto
  moreover have "dropWhile (\<lambda>c. \<not> c_isspace c) (w @ '' '' @ ?r) = '' '' @ ?r"
    using w(2) sp by (subst dropWhile_append2) auto
  ultimately show ?case using Cons w(1) by (simp add: n)
qed

lemma fgets_spec:
  assumes "fgets len input = Some (t, rest)" "2 \<le> len"
  shows "input = t @ rest" "t \<noteq> []" "length rest < length input" "length t < len"
  using assms by (auto simp: fgets_def Let_def split: if_splits)

section \<open>Properties\<close>

text \<open>
  C21: the lookup of a command finds an entry of the table exactly when the name, in either
  case, is an abbreviation of it as the table's brackets say, so that no name is ambiguous;
  for an unknown name it suggests an entry with the longest match.
\<close>

theorem getcmd_exact:
  "case getcmd name of
     Inr c \<Rightarrow> {d \<in> set cmdtab. accepts d name} = {c}
   | Inl c \<Rightarrow> {d \<in> set cmdtab. accepts d name} = {} \<and> is_arg_max (matched name) (\<lambda>d. d \<in> set cmdtab) c"
proof (cases "getcmd name")
  case (Inl c)
  with getcmd_Inl [OF Inl] show ?thesis by (auto simp: is_arg_max_def not_less)
next
  case (Inr c)
  with getcmd_Inr [of name] cmdtab_unambiguous show ?thesis by auto
qed

end
