(* ===== verification/Commands.thy ===== *)
theory Commands
  imports Client Cmdtab Complex_Main
begin

text \<open>
  The interactive client (\<open>tftp/main.c\<close>): a definition for every command. The command loop and
  the command line are in \<open>Session\<close>.

  A command ends by returning a status, by the jump of the retransmission timer to the top
  level, by \<open>exit\<close>, or by undefined behaviour (\<open>Crash\<close>); \<open>Waits\<close> says that the listed network
  events were used up before the transfer ended. The state holds the options, the server,
  the rest of the standard input, the events of the network that are still to come, the local
  files and what the commands print on the standard output; messages on the error output and
  the reports of \<open>tftp.c\<close> are left out. Words of a line are values, and a function that writes
  into an argument returns the new value.

  Name resolution, the result of \<open>open\<close> and \<open>fstat\<close>, \<open>strtod\<close>, the rounding of \<open>double\<close> and
  the format \<open>%g\<close> are parameters. The build is one without a line editor, and the C locale.
\<close>

section \<open>Definitions\<close>

subsection \<open>State\<close>

record modes =
  m_name :: "string option"
  m_mode :: "string option"

text \<open>The table of modes, with the entry of null pointers at its end.\<close>

definition modes_tab :: "modes list" where
  "modes_tab =
     [\<lparr>m_name = Some ''netascii'', m_mode = Some ''netascii''\<rparr>,
      \<lparr>m_name = Some ''ascii'', m_mode = Some ''netascii''\<rparr>,
      \<lparr>m_name = Some ''octet'', m_mode = Some ''octet''\<rparr>,
      \<lparr>m_name = Some ''binary'', m_mode = Some ''octet''\<rparr>,
      \<lparr>m_name = Some ''image'', m_mode = Some ''octet''\<rparr>,
      \<lparr>m_name = None, m_mode = None\<rparr>]"

definition MODE_OCTET :: nat where "MODE_OCTET = 2"
definition MODE_NETASCII :: nat where "MODE_NETASCII = 0"

definition TFTP_MAX_WINDOWSIZE :: u64 where
  "TFTP_MAX_WINDOWSIZE = 32768"

text \<open>\<open>opt_mode\<close> is the index of an entry of the table.\<close>

record client_options = tftp_options +
  opt_mode :: nat
  verbose :: int
  literal :: bool
  tsize :: bool
  iscmd :: bool

datatype flow = Return int | Jump int | Exit int | Crash | Waits

datatype double = Num rat | Infinite bool | NaN

record cmd_env =
  net :: client_env
  getaddrinfo :: "ai_family \<Rightarrow> string \<Rightarrow> string \<Rightarrow> int + (sock_addr \<times> string option) option"
  net_address :: "sock_addr \<Rightarrow> string"
  gai_strerror :: "int \<Rightarrow> string"
  open_error :: "string \<Rightarrow> bool \<Rightarrow> int option"
  stream :: "string \<Rightarrow> FILE"
  is_regular :: "string \<Rightarrow> bool"
  strtod :: "string \<Rightarrow> double \<times> string \<times> bool"
  rounded :: "rat \<Rightarrow> rat"
  format_g :: "rat \<Rightarrow> string"

record cmd_state =
  cl :: client_world
  copt :: client_options
  xopt :: common_options
  family :: ai_family
  serv_host :: string
  serv_canonname :: string
  serv_addr_str :: string
  stdin :: "char list"
  events :: "client_event list"
  files :: "string \<Rightarrow> char list option"
  printed :: "char list"

type_synonym result = "flow \<times> cmd_state"

definition say :: "string \<Rightarrow> cmd_state \<Rightarrow> cmd_state" where
  "say t s = s\<lparr>printed := printed s @ t\<rparr>"

definition line_of :: "string \<Rightarrow> string" where
  "line_of t = t @ [LF]"

definition on_off :: "bool \<Rightarrow> string" where
  "on_off b = (if b then ''on'' else ''off'')"

definition decimal_int :: "int \<Rightarrow> string" where
  "decimal_int i = (if i < 0 then ''-'' @ decimal (nat (- i)) else decimal (nat i))"

subsection \<open>Asking for more arguments\<close>

text \<open>\<open>Inl\<close> is how the command ends instead.\<close>

definition getmoreargs :: "string \<Rightarrow> string \<Rightarrow> cmd_state \<Rightarrow> (flow + string) \<times> cmd_state" where
  "getmoreargs partial mprompt s =
     (if iscmd (copt s) then (Inl (Return EX_USAGE), s)
      else
        let s1 = say mprompt s in
        case fgets (LBUFLEN - length partial) (stdin s1) of
          None \<Rightarrow> (Inl (Exit 0), s1)
        | Some (t, rest) \<Rightarrow> (Inr (cstr (partial @ t)), s1\<lparr>stdin := rest\<rparr>))"

definition complete_args :: "string \<Rightarrow> string \<Rightarrow> string list \<Rightarrow> cmd_state \<Rightarrow> (flow + string list) \<times> cmd_state" where
  "complete_args partial mprompt argv s =
     (if length argv < 2 then map_prod (map_sum id makeargv) id (getmoreargs partial mprompt s) else (Inr argv, s))"

text \<open>A command that first completes its arguments.\<close>

definition with_args ::
  "string \<Rightarrow> string \<Rightarrow> (string list \<Rightarrow> cmd_state \<Rightarrow> result) \<Rightarrow> string list \<Rightarrow> cmd_state \<Rightarrow> result" where
  "with_args partial mprompt body argv s =
     (case complete_args partial mprompt argv s of (Inl f, s1) \<Rightarrow> (f, s1) | (Inr a, s1) \<Rightarrow> body a s1)"

subsection \<open>Mode\<close>

definition mode_index :: "string \<Rightarrow> nat" where
  "mode_index name = length (takeWhile (\<lambda>m. m_name m \<noteq> None \<and> m_name m \<noteq> Some name) modes_tab)"

text \<open>The argument is never a null pointer here; its name is printed when messages are on.\<close>

definition settftpmode :: "nat \<Rightarrow> bool \<Rightarrow> cmd_state \<Rightarrow> result" where
  "settftpmode newmode printmsg s =
     (let s1 = s\<lparr>copt := (copt s)\<lparr>opt_mode := newmode\<rparr>\<rparr> in
      if printmsg \<and> verbose (copt s1) \<noteq> 0 then
        (case m_name (modes_tab ! newmode) of
           None \<Rightarrow> (Crash, s1)
         | Some n \<Rightarrow> (Return 0, say (line_of (''Mode set to '' @ n)) s1))
      else (Return 0, s1))"

fun join :: "string \<Rightarrow> string list \<Rightarrow> string" where
  "join sep [] = []"
| "join sep [x] = x"
| "join sep (x # xs) = x @ sep @ join sep xs"

definition mode_usage :: "string \<Rightarrow> string" where
  "mode_usage cmd =
     line_of (''usage: '' @ cmd @ '' [ '' @ join '' | '' (map the (takeWhile (\<lambda>n. n \<noteq> None) (map m_name modes_tab))) @ '' ]'')"

definition modecmd :: "string list \<Rightarrow> cmd_state \<Rightarrow> result" where
  "modecmd argv s =
     (if length argv < 2 then
        (case m_mode (modes_tab ! opt_mode (copt s)) of
           None \<Rightarrow> (Crash, s)
         | Some m \<Rightarrow> (Return 0, say (line_of (''Using '' @ m @ '' mode to transfer files.'')) s))
      else if length argv = 2 then
        (case settftpmode (mode_index (argv ! 1)) True s of
           (Return r, s1) \<Rightarrow>
             if r = 0 then (Return 0, s1)
             else (Return EX_USAGE, say (line_of (argv ! 1 @ '': unknown mode'') @ mode_usage (argv ! 0)) s1)
         | x \<Rightarrow> x)
      else (Return EX_USAGE, say (mode_usage (argv ! 0)) s))"

definition setbinary :: "cmd_state \<Rightarrow> result" where
  "setbinary s = settftpmode MODE_OCTET True s"

definition setascii :: "cmd_state \<Rightarrow> result" where
  "setascii s = settftpmode MODE_NETASCII True s"

subsection \<open>The server\<close>

definition EAI_NONAME :: int where "EAI_NONAME = - 2"
definition EAI_SERVICE :: int where "EAI_SERVICE = - 8"
definition EX_NOHOST :: int where "EX_NOHOST = 68"

fun family_addr :: "ai_family \<Rightarrow> sa_family" where
  "family_addr AI_INET = AF_INET"
| "family_addr AI_INET6 = AF_INET6"
| "family_addr AI_UNSPEC = AF_OTHER"

definition set_sock_addr :: "cmd_env \<Rightarrow> ai_family \<Rightarrow> string \<Rightarrow> string \<Rightarrow> int + (sock_addr \<times> string)" where
  "set_sock_addr E fam host port =
     (case getaddrinfo E fam (strip_address host) port of
        Inl err \<Rightarrow> Inl err
      | Inr None \<Rightarrow> Inl EAI_NONAME
      | Inr (Some (a, None)) \<Rightarrow> Inr (a, host)
      | Inr (Some (a, Some name)) \<Rightarrow> Inr (a, name))"

definition connected_to :: "cmd_state \<Rightarrow> string" where
  "connected_to s =
     serv_host s @ '' '' @ (if serv_host s \<noteq> serv_canonname s then ''('' @ serv_canonname s @ '') '' else []) @ serv_addr_str s"

definition set_transfer_host :: "cmd_env \<Rightarrow> string \<Rightarrow> string option \<Rightarrow> cmd_state \<Rightarrow> int \<times> cmd_state" where
  "set_transfer_host E host port s =
     (let p = (case port of None \<Rightarrow> ''tftp'' | Some q \<Rightarrow> if q = [] then ''tftp'' else q);
          zero = \<lparr>sa_fam = family_addr (family s), sa_addr = [], sa_port = 0\<rparr>;
          s1 = s\<lparr>serv_host := host, serv_canonname := host, serv_addr_str := [], cl := (cl s)\<lparr>serv_addr := zero\<rparr>\<rparr>
      in case set_sock_addr E (family s) host p of
           Inl err \<Rightarrow> (if err = EAI_SERVICE then EX_USAGE else EX_NOHOST, s1\<lparr>cl := (cl s1)\<lparr>serv_connected := False\<rparr>\<rparr>)
         | Inr (a, name) \<Rightarrow>
             let s2 = s1\<lparr>serv_canonname := name, serv_addr_str := net_address E a,
                         cl := (cl s1)\<lparr>serv_addr := a, serv_connected := True\<rparr>\<rparr>
             in (0, if verbose (copt s2) \<noteq> 0 then say (line_of (''Connected to '' @ connected_to s2)) s2 else s2))"

definition setpeer :: "cmd_env \<Rightarrow> string list \<Rightarrow> cmd_state \<Rightarrow> result" where
  "setpeer E = with_args ''connect '' ''(to) '' (\<lambda>argv s.
     if length argv < 2 \<or> 3 < length argv then
       (Return EX_USAGE, say (line_of (''usage: '' @ argv ! 0 @ '' host-name [port]'')) s)
     else map_prod Return id (set_transfer_host E (argv ! 1) (if length argv = 3 then Some (argv ! 2) else None) s))"

subsection \<open>Transfers\<close>

text \<open>The events are consumed until the transfer is done; \<open>None\<close> when they do not suffice.\<close>

fun run_client ::
  "client_env \<Rightarrow> tftp_options \<Rightarrow> client_event list \<Rightarrow> client_world client \<Rightarrow> client_world
     \<Rightarrow> (int \<times> client_event list \<times> client_world) option" where
  "run_client E opt [] c w = (case c of Client_done e \<Rightarrow> Some (e, [], w) | _ \<Rightarrow> None)"
| "run_client E opt (ev # evs) c w =
     (case c of
        Client_done e \<Rightarrow> Some (e, ev # evs, w)
      | _ \<Rightarrow> (case client_step E opt c ev w of (c', w') \<Rightarrow> run_client E opt evs c' w'))"

text \<open>
  \<open>tftp_sendfile\<close> and \<open>tftp_recvfile\<close> on an open file. The stream of the file is found in the
  adapter's state afterwards. Only the timer ends a transfer with \<open>EX_TEMPFAIL\<close>, by its jump.
\<close>

definition transfer_file :: "cmd_env \<Rightarrow> bool \<Rightarrow> FILE \<Rightarrow> int option \<Rightarrow> string \<Rightarrow> cmd_state \<Rightarrow> result" where
  "transfer_file E put f len name s =
     (let w = (cl s)\<lparr>io := (io (cl s))\<lparr>io_file := f\<rparr>\<rparr>; s1 = s\<lparr>cl := w\<rparr>; N = (net E)\<lparr>ce_size := len\<rparr>;
          opt = tftp_options.truncate (copt s)
      in case m_mode (modes_tab ! opt_mode (copt s)) of
           None \<Rightarrow> (Crash, s1)
         | Some mode \<Rightarrow>
             (case client_start N opt (xopt s) \<lparr>job_put = put, job_convert = (mode = ''netascii''), job_file = f\<rparr> name mode w of
                None \<Rightarrow> (Waits, s1)
              | Some (c, w1) \<Rightarrow>
                  (case run_client N opt (events s) c w1 of
                     None \<Rightarrow> (Waits, s1)
                   | Some (e, evs, w2) \<Rightarrow>
                       (if e = EX_TEMPFAIL then Jump e else Return e, s\<lparr>cl := w2, events := evs\<rparr>))))"

text \<open>The last component of a name; slashes at the end of the name are cut off it.\<close>

function tail :: "string \<Rightarrow> string \<times> string" where
  "tail filename =
     (if slash \<notin> set filename then (filename, filename)
      else if last filename \<noteq> slash then (filename, rev (takeWhile (\<lambda>c. c \<noteq> slash) (rev filename)))
      else tail (butlast filename))"
  by pat_completeness auto
termination
  by (relation "measure length") (auto intro: diff_less simp: length_greater_0_conv)

declare tail.simps [simp del]

definition is_directory :: "string \<Rightarrow> bool" where
  "is_directory filename \<longleftrightarrow> filename \<noteq> [] \<and> last filename = slash"

definition colon_split :: "string \<Rightarrow> (string \<times> string) option" where
  "colon_split t =
     (if CHR '':'' \<in> set t
      then Some (takeWhile (\<lambda>c. c \<noteq> CHR '':'') t, tl (dropWhile (\<lambda>c. c \<noteq> CHR '':'') t)) else None)"

subsubsection \<open>Sending\<close>

definition putusage :: "string \<Rightarrow> string" where
  "putusage cmd =
     line_of (''usage: '' @ cmd @ '' file ... host:target, or'')
     @ line_of (''       '' @ cmd @ '' file ... target (when already connected)'')"

definition mode_text :: "cmd_state \<Rightarrow> string" where
  "mode_text s = (case m_mode (modes_tab ! opt_mode (copt s)) of None \<Rightarrow> [] | Some m \<Rightarrow> m)"

text \<open>\<open>None\<close> when the local file cannot be opened.\<close>

definition send_local :: "cmd_env \<Rightarrow> string \<Rightarrow> string \<Rightarrow> cmd_state \<Rightarrow> result option" where
  "send_local E cp remote s =
     (case (open_error E cp False, files s cp) of
        (None, Some content) \<Rightarrow>
          let s1 = (if verbose (copt s) \<noteq> 0
                    then say (line_of (''putting '' @ cp @ '' to '' @ serv_host s @ '':'' @ remote @ '' ['' @ mode_text s @ '']'')) s
                    else s)
          in Some (transfer_file E True ((stream E cp)\<lparr>f_in := content, f_out := []\<rparr>)
               (if is_regular E cp then Some (int (length content)) else None) remote s1)
      | _ \<Rightarrow> None)"

fun put_loop :: "cmd_env \<Rightarrow> string \<Rightarrow> string list \<Rightarrow> int \<Rightarrow> cmd_state \<Rightarrow> result" where
  "put_loop E targ [] err s = (Return err, s)"
| "put_loop E targ (arg # args) err s =
     (case tail arg of (name, base) \<Rightarrow>
        (case send_local E name (targ @ [slash] @ base) s of
           None \<Rightarrow> put_loop E targ args (if err = 0 then EX_OSERR else err) s
         | Some (Return result, s1) \<Rightarrow> put_loop E targ args (if err = 0 then result else err) s1
         | Some x \<Rightarrow> x))"

text \<open>\<open>putfiles\<close> with its arguments complete.\<close>

definition put_args :: "cmd_env \<Rightarrow> bool \<Rightarrow> string list \<Rightarrow> cmd_state \<Rightarrow> result" where
  "put_args E target_is_directory argv s =
     (if length argv < 2 then (Return EX_USAGE, say (putusage (argv ! 0)) s)
     else
       let host = (if literal (copt s) then None else colon_split (last argv));
           targ = (case host of None \<Rightarrow> last argv | Some (h, t) \<Rightarrow> t);
           names = butlast (tl argv)
       in if host \<noteq> None \<and> (\<exists>n \<in> set names. CHR '':'' \<in> set n) then (Return EX_USAGE, say (putusage (argv ! 0)) s)
          else
            let (err, s1) = (case host of None \<Rightarrow> (0, s) | Some (h, t) \<Rightarrow> set_transfer_host E h None s)
            in if err \<noteq> 0 then (Return EX_NOHOST, s1)
               else if \<not> serv_connected (cl s1) then (Return EX_USAGE, s1)
               else if \<not> target_is_directory \<and> (length argv < 3 \<or> length argv = 3 \<and> \<not> is_directory targ) then
                 let (targ', cp) = (if length argv = 2 then tail targ else (targ, argv ! 1))
                 in (case send_local E cp targ' s1 of None \<Rightarrow> (Return EX_NOINPUT, s1) | Some x \<Rightarrow> x)
               else put_loop E targ names 0 s1)"

definition putfiles :: "cmd_env \<Rightarrow> bool \<Rightarrow> string list \<Rightarrow> cmd_state \<Rightarrow> result" where
  "putfiles E target_is_directory = with_args ''send '' ''(file) '' (put_args E target_is_directory)"

definition mput :: "cmd_env \<Rightarrow> string list \<Rightarrow> cmd_state \<Rightarrow> result" where
  "mput E argv s =
     (if length argv < 3 then (Return EX_USAGE, say (putusage (argv ! 0)) s) else putfiles E True argv s)"

subsubsection \<open>Receiving\<close>

definition getusage :: "string \<Rightarrow> string" where
  "getusage cmd =
     line_of (''usage: '' @ cmd @ '' host:file host:file ... file, or'')
     @ line_of (''       '' @ cmd @ '' file file ... file if connected'')"

text \<open>The local file is created or truncated first; it then has what the transfer wrote.\<close>

definition receive_local :: "cmd_env \<Rightarrow> string \<Rightarrow> string \<Rightarrow> cmd_state \<Rightarrow> result option" where
  "receive_local E remote cp s =
     (if open_error E cp True \<noteq> None then None
      else
        let s1 = (if verbose (copt s) \<noteq> 0
                  then say (line_of (''getting from '' @ serv_host s @ '':'' @ remote @ '' to '' @ cp @ '' ['' @ mode_text s @ '']'')) s
                  else s);
            (fl, s2) = transfer_file E False ((stream E cp)\<lparr>f_in := [], f_out := []\<rparr>) None remote s1
        in Some (fl, s2\<lparr>files := (files s2)(cp \<mapsto> f_out (io_file (io (cl s2))))\<rparr>))"

text \<open>
  The loop over the names. A name is cut at its colon in place, which the test of the second
  argument sees when it is itself the current name.
\<close>

fun get_loop :: "cmd_env \<Rightarrow> string option \<Rightarrow> string list \<Rightarrow> string list \<Rightarrow> int \<Rightarrow> cmd_state \<Rightarrow> result" where
  "get_loop E dir argv [] err s = (Return err, s)"
| "get_loop E dir argv (arg # args) err s =
     (let host = (if literal (copt s) then None else colon_split arg);
          head = (case host of None \<Rightarrow> arg | Some (h, t) \<Rightarrow> h);
          src = (case host of None \<Rightarrow> arg | Some (h, t) \<Rightarrow> t);
          (e, s1) = (case host of None \<Rightarrow> (0, s) | Some (h, t) \<Rightarrow> set_transfer_host E h None s);
          second = (if args = [] then head else argv ! 2)
      in if e \<noteq> 0 then
           get_loop E dir argv args (if err = 0 then EX_NOHOST else err)
             (say (line_of (''Warning: '' @ gai_strerror E e) @ line_of (head @ '': unknown host'')) s1)
         else if dir = None \<and> (length argv < 3 \<or> length argv = 3 \<and> \<not> is_directory second) then
           let (src', cp) = (if length argv = 3 then (src, second) else tail src)
           in (case receive_local E src' cp s1 of None \<Rightarrow> (Return EX_OSERR, s1) | Some x \<Rightarrow> x)
         else
           let (src', base) = tail src;
               cp = (case dir of None \<Rightarrow> base | Some d \<Rightarrow> d @ [slash] @ base)
           in (case receive_local E src' cp s1 of
                 None \<Rightarrow> get_loop E dir argv args (if err = 0 then EX_OSERR else err) s1
               | Some (Return result, s2) \<Rightarrow> get_loop E dir argv args (if err = 0 then result else err) s2
               | Some x \<Rightarrow> x))"

text \<open>\<open>getfiles\<close> with its arguments complete.\<close>

definition get_args :: "cmd_env \<Rightarrow> string option \<Rightarrow> string list \<Rightarrow> cmd_state \<Rightarrow> result" where
  "get_args E dir argv s =
     (let d = (if dir = None then 0 else 1); names = take (length argv - d - 1) (tl argv) in
     if length argv < 2 + d then (Return EX_USAGE, say (getusage (argv ! 0)) s)
     else if \<not> serv_connected (cl s) \<and> (\<exists>n \<in> set names. literal (copt s) \<or> CHR '':'' \<notin> set n)
     then (Return EX_USAGE, say (getusage (argv ! 0)) s)
     else get_loop E dir argv names 0 s)"

definition getfiles :: "cmd_env \<Rightarrow> string option \<Rightarrow> string list \<Rightarrow> cmd_state \<Rightarrow> result" where
  "getfiles E dir = with_args ''get '' ''(files) '' (get_args E dir)"

definition mget :: "cmd_env \<Rightarrow> string list \<Rightarrow> cmd_state \<Rightarrow> result" where
  "mget E argv s =
     (if length argv < 3 then (Return EX_USAGE, say (getusage (argv ! 0)) s) else getfiles E (Some (last argv)) argv s)"

subsection \<open>Settings\<close>

fun double_ge :: "double \<Rightarrow> rat \<Rightarrow> bool" where
  "double_ge (Num t) q = (q \<le> t)"
| "double_ge (Infinite positive) q = positive"
| "double_ge NaN q = False"

fun double_le :: "double \<Rightarrow> rat \<Rightarrow> bool" where
  "double_le (Num t) q = (t \<le> q)"
| "double_le (Infinite positive) q = (\<not> positive)"
| "double_le NaN q = False"

text \<open>The conversion of a number to \<open>uintmax_t\<close>; it is only applied to numbers in its range.\<close>

fun double_u64 :: "double \<Rightarrow> u64" where
  "double_u64 (Num t) = of_int \<lfloor>t\<rfloor>"
| "double_u64 _ = 0"

text \<open>Operations of the machine: the exact result, rounded.\<close>

fun double_mult :: "cmd_env \<Rightarrow> double \<Rightarrow> rat \<Rightarrow> double" where
  "double_mult E (Num t) q = Num (rounded E (t * q))"
| "double_mult E d q = d"

fun double_add :: "cmd_env \<Rightarrow> double \<Rightarrow> rat \<Rightarrow> double" where
  "double_add E (Num t) q = Num (rounded E (t + q))"
| "double_add E d q = d"

definition seconds :: "cmd_env \<Rightarrow> nat \<Rightarrow> rat" where
  "seconds E us = rounded E (rounded E (of_nat us) / of_nat (unat USEC_PER_SEC))"

text \<open>The number of a whole argument, when it is between the limits.\<close>

definition number_in :: "cmd_env \<Rightarrow> string \<Rightarrow> rat \<Rightarrow> rat \<Rightarrow> double option" where
  "number_in E str mini maxi =
     (case strtod E str of (t, ep, err) \<Rightarrow>
        if \<not> err \<and> ep \<noteq> str \<and> ep = [] \<and> double_ge t mini \<and> double_le t maxi then Some t else None)"

definition bad_value :: "cmd_env \<Rightarrow> rat \<Rightarrow> rat \<Rightarrow> string \<Rightarrow> string" where
  "bad_value E mini maxi str =
     line_of (''Bad value (range '' @ format_g E mini @ ''-'' @ format_g E maxi @ ''): '' @ str)"

definition parse_rexmtval :: "cmd_env \<Rightarrow> string \<Rightarrow> cmd_state \<Rightarrow> result" where
  "parse_rexmtval E str s =
     (let mini = seconds E (unat MIN_TIMEOUT); maxi = seconds E (unat MAX_TIMEOUT) in
      case number_in E str mini maxi of
        Some t \<Rightarrow>
          let v = double_u64 (double_mult E t (of_nat (unat USEC_PER_SEC)))
          in (Return 0, s\<lparr>cl := (cl s)\<lparr>rexmtval := v, maxtimeout := v * TIMEOUT_LIMIT\<rparr>\<rparr>)
      | None \<Rightarrow> (Return EX_USAGE, say (bad_value E mini maxi str) s))"

definition setrexmt :: "cmd_env \<Rightarrow> string list \<Rightarrow> cmd_state \<Rightarrow> result" where
  "setrexmt E = with_args ''rexmt-timeout '' ''(value) '' (\<lambda>argv s.
     if length argv \<noteq> 2 then (Return EX_USAGE, say (line_of (''usage: '' @ argv ! 0 @ '' value'')) s)
     else parse_rexmtval E (argv ! 1) s)"

definition parse_timeout :: "cmd_env \<Rightarrow> string \<Rightarrow> cmd_state \<Rightarrow> result" where
  "parse_timeout E str s =
     (let mini = seconds E (unat (rexmtval (cl s)));
          maxi = rounded E (rounded E (rounded E (of_nat (unat MAX_TIMEOUT)) * of_nat (unat TIMEOUT_LIMIT)) / of_nat (unat USEC_PER_SEC)) in
      case number_in E str mini maxi of
        Some t \<Rightarrow>
          (Return 0, s\<lparr>cl := (cl s)\<lparr>maxtimeout :=
             double_u64 (double_add E (double_mult E t (of_nat (unat USEC_PER_SEC))) 1)\<rparr>\<rparr>)
      | None \<Rightarrow> (Return EX_USAGE, say (bad_value E mini maxi str) s))"

definition settimeout :: "cmd_env \<Rightarrow> string list \<Rightarrow> cmd_state \<Rightarrow> result" where
  "settimeout E = with_args ''maximum-timeout '' ''(value) '' (\<lambda>argv s.
     if length argv \<noteq> 2 then (Return EX_USAGE, say (line_of (''usage: '' @ argv ! 0 @ '' value'')) s)
     else parse_timeout E (argv ! 1) s)"

definition setblocksize :: "string list \<Rightarrow> cmd_state \<Rightarrow> result" where
  "setblocksize = with_args ''blocksize '' ''(size) '' (\<lambda>argv s.
     if length argv \<noteq> 2 then (Return EX_USAGE, say (line_of (''usage: '' @ argv ! 0 @ '' {size|mtu[-slack]}'')) s)
     else
       (case parse_blocksize_arg (argv ! 1) (of_nat MIN_SEGSIZE) (xopt s) of (ok, x) \<Rightarrow>
          if ok then (Return 0, s\<lparr>xopt := x\<rparr>)
          else (Return EX_USAGE, say (line_of (argv ! 1 @ '': bad block size (valid range is '' @ decimal MIN_SEGSIZE @ ''-''
                  @ decimal MAX_SEGSIZE @ '')'')) (s\<lparr>xopt := x\<rparr>))))"

definition setwindowsize :: "string list \<Rightarrow> cmd_state \<Rightarrow> result" where
  "setwindowsize = with_args ''windowsize '' ''(size) '' (\<lambda>argv s.
     if length argv \<noteq> 2 then (Return EX_USAGE, say (line_of (''usage: '' @ argv ! 0 @ '' size'')) s)
     else
       let v = parse_uint (Some (argv ! 1)) 1 TFTP_MAX_WINDOWSIZE in
       if v = BAD_NUM then
         (Return EX_USAGE, say (line_of (argv ! 1 @ '': bad window size (valid range is 1-''
            @ decimal (unat TFTP_MAX_WINDOWSIZE) @ '')'')) s)
       else (Return 0, s\<lparr>xopt := (xopt s)\<lparr>max_windowsize := ucast v\<rparr>\<rparr>))"

definition setliteral :: "cmd_state \<Rightarrow> result" where
  "setliteral s =
     (let b = \<not> literal (copt s)
      in (Return 0, say (line_of (''Literal mode '' @ on_off b @ ''.'')) (s\<lparr>copt := (copt s)\<lparr>literal := b\<rparr>\<rparr>)))"

definition settsize :: "cmd_state \<Rightarrow> result" where
  "settsize s =
     (let b = \<not> tsize (copt s)
      in (Return 0, say (line_of (''tsize option '' @ on_off b @ (if no_options (copt s) then '' (options disabled)'' else []) @ ''.''))
            (s\<lparr>copt := (copt s)\<lparr>tsize := b\<rparr>\<rparr>)))"

definition setoptions :: "cmd_state \<Rightarrow> result" where
  "setoptions s =
     (let b = \<not> no_options (copt s)
      in (Return 0, say (line_of (''TFTP options '' @ (if b then ''disabled'' else ''enabled'') @ ''.''))
            (s\<lparr>copt := (copt s)\<lparr>no_options := b\<rparr>\<rparr>)))"

definition settrace :: "cmd_state \<Rightarrow> result" where
  "settrace s =
     (let b = \<not> trace (copt s)
      in (Return 0, say (line_of (''Packet tracing '' @ on_off b @ ''.'')) (s\<lparr>copt := (copt s)\<lparr>trace := b\<rparr>\<rparr>)))"

text \<open>\<open>strtol\<close> in base 0: the value, kept within \<open>long\<close>, and what follows the number.\<close>

definition digit_value :: "char \<Rightarrow> nat" where
  "digit_value c =
     (if ascii_isdigit c then unat (ascii_digitval c)
      else let u = unat (ascii_tolower (uc c)) in if 97 \<le> u \<and> u \<le> 122 then u - 87 else 36)"

fun base_value :: "nat \<Rightarrow> nat \<Rightarrow> string \<Rightarrow> nat" where
  "base_value b a [] = a"
| "base_value b a (c # s) = base_value b (b * a + digit_value c) s"

definition strtol0 :: "string \<Rightarrow> int \<times> string" where
  "strtol0 str =
     (let s1 = dropWhile c_isspace str;
          neg = (deref s1 = CHR ''-'');
          s2 = (if deref s1 = CHR ''-'' \<or> deref s1 = CHR ''+'' then tl s1 else s1);
          hex = (deref s2 = CHR ''0'' \<and> (deref (tl s2) = CHR ''x'' \<or> deref (tl s2) = CHR ''X'')
                   \<and> digit_value (deref (tl (tl s2))) < 16);
          b = (if hex then 16 else if deref s2 = CHR ''0'' then 8 else 10);
          s3 = (if hex then tl (tl s2) else s2);
          ds = takeWhile (\<lambda>c. digit_value c < b) s3;
          v = (if neg then - int (base_value b 0 ds) else int (base_value b 0 ds))
      in if ds = [] then (0, str)
         else (max (- (2 ^ 63)) (min (2 ^ 63 - 1) v), dropWhile (\<lambda>c. digit_value c < b) s3))"

definition set_verbosity :: "string option \<Rightarrow> bool \<Rightarrow> cmd_state \<Rightarrow> result" where
  "set_verbosity to startup s =
     (let parsed =
        (case to of
           None \<Rightarrow> Some (if verbose (copt s) = 0 then 1 else 0)
         | Some t \<Rightarrow>
             (case strtol0 t of (v, ep) \<Rightarrow> if t \<noteq> [] \<and> ep = [] \<and> - (2 ^ 31) \<le> v \<and> v < 2 ^ 31 then Some v else None))
      in case parsed of
           None \<Rightarrow>
             if startup then (Exit EX_USAGE, s) else (Return EX_USAGE, say (line_of (''Invalid verbosity level: '' @ the to)) s)
         | Some v \<Rightarrow>
             let name = (if v = 0 then ''off'' else if v = 1 then ''on'' else if v < 0 then ''quiet'' else ''high'');
                 s1 = s\<lparr>copt := (copt s)\<lparr>verbose := v\<rparr>\<rparr>
             in (Return 0, if startup then s1
                           else say (line_of (''Verbosity set to level '' @ decimal_int v @ '' ('' @ name @ '').'')) s1))"

definition setverbose :: "string list \<Rightarrow> cmd_state \<Rightarrow> result" where
  "setverbose argv s = set_verbosity (if 2 \<le> length argv then Some (argv ! 1) else None) False s"

definition status_cmd :: "cmd_env \<Rightarrow> cmd_state \<Rightarrow> result" where
  "status_cmd E s =
     (case m_mode (modes_tab ! opt_mode (copt s)) of
        None \<Rightarrow> (Crash, s)
      | Some m \<Rightarrow>
          (Return 0, say (
             (if serv_connected (cl s) then line_of (''Connected to: '' @ connected_to s) else line_of ''Not connected'')
             @ line_of (''Mode: '' @ m @ '', verbose: '' @ on_off (verbose (copt s) \<noteq> 0) @ '', tracing: '' @ on_off (trace (copt s))
                 @ '', literal: '' @ on_off (literal (copt s)))
             @ line_of (''Retransmit interval: '' @ format_g E (seconds E (unat (rexmtval (cl s)))) @ '' s, total timeout: ''
                 @ format_g E (seconds E (unat (maxtimeout (cl s)))) @ '' s'')
             @ line_of (''TFTP options: '' @ (if no_options (copt s) then ''disabled'' else ''enabled''))
             @ (if no_options (copt s) then []
                else line_of (''Blocksize: '' @ (if blksize (xopt s) \<le> 0 then ''mtu'' else [])
                       @ (if blksize (xopt s) \<noteq> 0 then decimal_int (blksize (xopt s)) else [])
                       @ '', windowsize: '' @ decimal (if max_windowsize (xopt s) = 0 then 1 else unat (max_windowsize (xopt s)))
                       @ '', tsize: '' @ on_off (tsize (copt s))))) s))"

subsection \<open>Help\<close>

definition helpindent :: nat where
  "helpindent = foldl (\<lambda>n c. if n < length (cmd_name c) then length (cmd_name c) else n) 0 cmdtab"

definition padded :: "string \<Rightarrow> string" where
  "padded t = t @ replicate (helpindent - length t) CHR '' ''"

definition print_cmd_help :: "string \<Rightarrow> cmd_state \<Rightarrow> int \<times> cmd_state" where
  "print_cmd_help cmd s =
     (case getcmd cmd of
        Inl c \<Rightarrow> (EX_USAGE, say (line_of (''help: unknown command '' @ cmd @ '' (did you mean '' @ cmd_name c @ ''?)'')) s)
      | Inr c \<Rightarrow> (0, say (line_of (padded (cmd_name c) @ ''  '' @ shorthelp c) @ concat (map line_of (longhelp c))) s))"

text \<open>The statuses are 0 and \<open>EX_USAGE\<close>, so that the bitwise sum is \<open>EX_USAGE\<close> if any is.\<close>

fun help_loop :: "string list \<Rightarrow> bool \<Rightarrow> int \<Rightarrow> cmd_state \<Rightarrow> int \<times> cmd_state" where
  "help_loop [] first err s = (err, s)"
| "help_loop (arg # args) first err s =
     (case print_cmd_help arg (if first then s else say [LF] s) of
        (e, s1) \<Rightarrow> help_loop args False (if e = 0 then err else e) s1)"

definition help_cmd :: "string \<Rightarrow> string list \<Rightarrow> cmd_state \<Rightarrow> result" where
  "help_cmd version_string argv s =
     (if length argv = 1 then
        (Return 0, say (line_of (version_string @ '' command list'')
           @ line_of ''Commands may be abbreviated as indicated by [...]''
           @ concat (map (\<lambda>c. line_of (''  '' @ padded (cmd_name c) @ ''  '' @ shorthelp c)) cmdtab)) s)
      else map_prod Return id (help_loop (tl argv) True 0 s))"

subsection \<open>Every command\<close>

definition quit :: "cmd_state \<Rightarrow> result" where
  "quit s = (Exit 0, s)"

fun run_handler :: "cmd_env \<Rightarrow> string \<Rightarrow> handler \<Rightarrow> string list \<Rightarrow> cmd_state \<Rightarrow> result" where
  "run_handler E ver H_setpeer argv s = setpeer E argv s"
| "run_handler E ver H_modecmd argv s = modecmd argv s"
| "run_handler E ver H_put argv s = putfiles E False argv s"
| "run_handler E ver H_mput argv s = mput E argv s"
| "run_handler E ver H_get argv s = getfiles E None argv s"
| "run_handler E ver H_mget argv s = mget E argv s"
| "run_handler E ver H_quit argv s = quit s"
| "run_handler E ver H_setverbose argv s = setverbose argv s"
| "run_handler E ver H_settrace argv s = settrace s"
| "run_handler E ver H_setliteral argv s = setliteral s"
| "run_handler E ver H_status argv s = status_cmd E s"
| "run_handler E ver H_setbinary argv s = setbinary s"
| "run_handler E ver H_setascii argv s = setascii s"
| "run_handler E ver H_setblocksize argv s = setblocksize argv s"
| "run_handler E ver H_setrexmt argv s = setrexmt E argv s"
| "run_handler E ver H_settimeout argv s = settimeout E argv s"
| "run_handler E ver H_settsize argv s = settsize s"
| "run_handler E ver H_setwindowsize argv s = setwindowsize argv s"
| "run_handler E ver H_setoptions argv s = setoptions s"
| "run_handler E ver H_help argv s = help_cmd ver argv s"

end
