(* ===== verification/Frames.thy ===== *)
theory Frames
  imports Transport
begin

text \<open>
  What a transfer does not change. The engines of \<open>common/tftp-xfer.c\<close> reach the world only
  through their callbacks, so a view \<open>g\<close> of the world that no callback changes is the same
  when an engine waits or ends. The locale is interpreted on the client's callbacks, for the
  configured timeouts and all that is not part of the transfer.
\<close>

locale xfer_frame =
  fixes xops :: "'a world_scheme tftp_xfer_ops"
    and xio :: "'a world_scheme tftp_xfer_io_ops"
    and g :: "'a world_scheme \<Rightarrow> 'g"
  assumes errno_kept: "g (w\<lparr>errno := e\<rparr>) = g w"
    and calls_kept: "xsend xops p w = (r, w') \<Longrightarrow> g w' = g w" "g (xreceived xops p sz w) = g w"
      "g (xretry_enter xops b w) = g w" "g (xretry_leave xops w) = g w" "g (xwait_begin xops w) = g w"
    and reads_kept: "read_window xio w = (x, w') \<Longrightarrow> g w' = g w" "read_packet xio n w = (y, w') \<Longrightarrow> g w' = g w"
      "read_length xio n w = (sz, w') \<Longrightarrow> g w' = g w" "g (read_release xio w) = g w"
    and writes_kept: "write_reserve xio w = (y, w') \<Longrightarrow> g w' = g w" "write_publish xio sz w = (r, w') \<Longrightarrow> g w' = g w"
      "write_drain xio w = (r, w') \<Longrightarrow> g w' = g w" "write_finish xio = Some f \<Longrightarrow> f w = (r, w') \<Longrightarrow> g w' = g w"
      "g (mstore xio dp p w) = g w"
begin

lemmas kept = errno_kept calls_kept(2-5) reads_kept(4) writes_kept(5)
lemmas kept_dest = calls_kept(1) reads_kept(1-3) writes_kept(1-3)

lemma ends_kept:
  assumes x: "x_ops xfer = xops"
  shows "xfinish xfer s e b p n l w = (out, w') \<Longrightarrow> g w' = g w" "xfail xfer s b w = (out, w') \<Longrightarrow> g w' = g w"
    "xfail_eio xfer s b w = (out, w') \<Longrightarrow> g w' = g w"
  by (auto simp: x xfinish_def xfail_def xfail_eio_def kept split: if_splits)

lemma number_packets_kept: "number_packets xfer xio ns b w = (r, w') \<Longrightarrow> g w' = g w"
  by (induction ns arbitrary: b w) (auto simp: kept split: prod.splits option.splits dest!: kept_dest)

lemma send_packets_kept:
  assumes x: "x_ops xfer = xops"
  shows "send_packets xfer xio ns w = (r, w') \<Longrightarrow> g w' = g w"
  by (induction ns arbitrary: w) (auto simp: x kept split: prod.splits option.splits if_splits dest!: kept_dest)

lemma resend_window_kept:
  assumes x: "x_ops xfer = xops"
  shows "resend_window xfer xio st k w = (out, w') \<Longrightarrow> g w' = g w"
  by (auto simp: x resend_window_def kept split: prod.splits option.splits tftp_xfer_status.splits
      dest!: send_packets_kept [OF x] ends_kept [OF x])

lemma open_window_kept:
  assumes x: "x_ops xfer = xops"
  shows "open_window xfer xio b n w = (out, w') \<Longrightarrow> g w' = g w"
  by (auto simp: x open_window_def kept split: prod.splits option.splits if_splits
      dest!: kept_dest number_packets_kept resend_window_kept [OF x] ends_kept [OF x])

lemma tftp_xfer_send_kept:
  assumes x: "x_ops xfer = xops" "x_io_ops xfer = Some xio"
  shows "tftp_xfer_send xfer w = (out, w') \<Longrightarrow> g w' = g w"
  by (auto simp: x tftp_xfer_send_def dest!: open_window_kept [OF x(1)])

lemma find_acked_kept: "find_acked xio ns b w = (r, w') \<Longrightarrow> g w' = g w"
  by (induction ns arbitrary: w) (auto split: prod.splits option.splits if_splits dest!: kept_dest)

lemma sum_lengths_kept: "sum_lengths xio ns b w = (r, w') \<Longrightarrow> g w' = g w"
  by (induction ns arbitrary: b w) (auto split: prod.splits dest!: kept_dest)

lemma window_acked_kept:
  assumes x: "x_ops xfer = xops"
  shows "window_acked xfer xio st w = (out, w') \<Longrightarrow> g w' = g w"
  by (auto simp: x window_acked_def kept Let_def split: prod.splits if_splits
      dest!: sum_lengths_kept open_window_kept [OF x] ends_kept [OF x])

lemma send_packet_in_kept:
  assumes x: "x_ops xfer = xops" and run: "send_packet_in xfer xio st n ap w = (out, w')"
  shows "g w' = g w"
proof (cases "th_opcode ap = ERROR")
  case True
  with run show ?thesis by (auto simp: x send_packet_in_def Let_def dest!: ends_kept [OF x])
next
  case False
  obtain dp w1 where rp: "read_packet xio (s_packet_count st - 1) w = (dp, w1)" by fastforce
  from reads_kept(2) [OF rp] have w1: "g w1 = g w" .
  show ?thesis
  proof (cases dp)
    case None
    with run rp w1 False show ?thesis by (auto simp: x send_packet_in_def Let_def dest!: ends_kept [OF x])
  next
    case (Some d)
    obtain fa w2 where f: "find_acked xio [0..<s_packet_count st - 1] (th_block ap) w1 = (fa, w2)" by fastforce
    from find_acked_kept [OF f] w1 have "g w2 = g w" by simp
    with run rp w1 False Some f show ?thesis
      by (auto simp: x send_packet_in_def Let_def split: if_splits sum.splits option.splits
          dest!: window_acked_kept [OF x] resend_window_kept [OF x] ends_kept [OF x])
  qed
qed

lemma send_step_kept:
  assumes x: "x_ops xfer = xops"
  shows "send_step xfer xio st ev w = (out, w') \<Longrightarrow> g w' = g w"
  by (auto simp: x send_step_def kept split: recv_event.splits if_splits
      dest!: resend_window_kept [OF x] send_packet_in_kept [OF x] ends_kept [OF x])

lemma recv_retry_kept:
  assumes x: "x_ops xfer = xops"
  shows "recv_retry xfer b st w = (out, w') \<Longrightarrow> g w' = g w"
  by (auto simp: x recv_retry_def kept Let_def split: prod.splits if_splits dest!: kept_dest ends_kept [OF x])

lemma recv_wait_kept:
  assumes x: "x_ops xfer = xops"
  shows "recv_wait xfer b st w = (out, w') \<Longrightarrow> g w' = g w"
  by (auto simp: x recv_wait_def kept split: prod.splits sum.splits dest!: recv_retry_kept [OF x])

lemma finish_kept: "write_finish xio \<noteq> None \<Longrightarrow> the (write_finish xio) w = (r, w') \<Longrightarrow> g w' = g w"
  using writes_kept(4) by auto

lemma recv_ack_window_kept:
  assumes x: "x_ops xfer = xops" "write_finish xio \<noteq> None" and run: "recv_ack_window xfer xio fin st w = (out, w')"
  shows "g w' = g w"
proof -
  obtain r w1 where d: "write_drain xio w = (r, w1)" by fastforce
  obtain r' w2 where f: "(if fin then the (write_finish xio) w1 else (0, w1)) = (r', w2)" by fastforce
  obtain r'' w3 where s: "xsend xops (ack_packet (r_last_acked st)) w2 = (r'', w3)" by fastforce
  have w1: "g w1 = g w" by (rule writes_kept(3) [OF d])
  have "g w2 = g w1" using f finish_kept [OF x(2)] by (auto split: if_splits)
  moreover have "g w3 = g w2" by (rule calls_kept(1) [OF s])
  ultimately show ?thesis
    using run d f s w1
    by (auto simp: x(1) recv_ack_window_def Let_def split: if_splits prod.splits dest!: ends_kept [OF x(1)])
qed

lemma recv_reserve_kept:
  assumes x: "x_ops xfer = xops"
  shows "recv_reserve xfer xio st w = (out, w') \<Longrightarrow> g w' = g w"
  by (auto simp: x recv_reserve_def split: prod.splits option.splits dest!: kept_dest ends_kept [OF x] recv_wait_kept [OF x])

lemma recv_published_kept:
  assumes x: "x_ops xfer = xops" "write_finish xio \<noteq> None"
  shows "recv_published xfer xio fin adv w = (out, w') \<Longrightarrow> g w' = g w"
  by (auto simp: x(1) recv_published_def split: prod.splits sum.splits if_splits dest!: recv_ack_window_kept [OF x] recv_reserve_kept [OF x(1)])

lemma recv_accept_kept:
  assumes x: "x_ops xfer = xops" "write_finish xio \<noteq> None"
  shows "recv_accept xfer xio st n p w = (out, w') \<Longrightarrow> g w' = g w"
  by (auto simp: x(1) recv_accept_def kept Let_def split: prod.splits if_splits dest!: kept_dest ends_kept [OF x(1)] recv_published_kept [OF x])

lemma tftp_xfer_recv_kept:
  assumes x: "x_ops xfer = xops" "x_io_ops xfer = Some xio" and run: "tftp_xfer_recv xfer n reply first w = (out, w')"
  shows "g w' = g w"
proof (cases "write_finish xio = None \<or> n < int (blocksize xfer) + 4")
  case True
  with run show ?thesis by (auto simp: x tftp_xfer_recv_def kept dest!: ends_kept [OF x(1)])
next
  case False
  obtain dp w1 where r: "write_reserve xio w = (dp, w1)" by fastforce
  have fin: "write_finish xio \<noteq> None" using False by simp
  from writes_kept(1) [OF r] have "g w1 = g w" .
  with run r False show ?thesis
    by (auto simp: x tftp_xfer_recv_def Let_def split: option.splits prod.splits sum.splits if_splits
        dest!: ends_kept [OF x(1)] recv_wait_kept [OF x(1)] recv_retry_kept [OF x(1)] recv_accept_kept [OF x(1) fin])
qed

lemma recv_step_kept:
  assumes x: "x_ops xfer = xops" "write_finish xio \<noteq> None" and run: "recv_step xfer xio st ev w = (out, w')"
  shows "g w' = g w"
proof (cases ev)
  case (RecvRet n p)
  obtain r w2 where s: "xsend xops (ack_packet (r_last_received st)) (xreceived xops p n w) = (r, w2)" by fastforce
  have "g w2 = g w" using calls_kept(1) [OF s] by (simp add: kept)
  with s run RecvRet show ?thesis
    by (auto simp: x(1) recv_step_def kept Let_def split: if_splits dest!: ends_kept [OF x(1)] recv_accept_kept [OF x])
qed (use run in \<open>auto simp: x(1) recv_step_def kept dest!: recv_wait_kept [OF x(1)] ends_kept [OF x(1)]\<close>)

end

lemma adapter_view:
  "io_world.more w' = io_world.more w \<Longrightarrow>
     (rexmtval w', maxtimeout w', xfer_world.more w') = (rexmtval w, maxtimeout w, xfer_world.more w)"
  by (cases w; cases w') simp

text \<open>The client's transfers: the timeouts that are configured, and what lies outside of the transfer.\<close>

interpretation client_frame:
  xfer_frame client_xfer_ops tftp_io_xfer_ops "\<lambda>w :: 'a xfer_world_scheme. (rexmtval w, maxtimeout w, xfer_world.more w)"
proof (unfold_locales, goal_cases)
  case (7 w x w')
  then show ?case using adapter_view [of w' w] adapter_more(1) [of w] by (simp add: tftp_io_xfer_ops_def)
next
  case (11 w y w')
  then show ?case using adapter_view [of w' w] adapter_more(4) [of w] by (simp add: tftp_io_xfer_ops_def)
next
  case (12 sz w r w')
  then show ?case using adapter_view [of w' w] adapter_more(5) [of sz w] by (simp add: tftp_io_xfer_ops_def)
next
  case (13 w r w')
  then show ?case using adapter_view [of w' w] adapter_more(6) [of w] by (simp add: tftp_io_xfer_ops_def)
next
  case (14 f w r w')
  then show ?case using adapter_view [of w' w] adapter_more(7) [of w] by (auto simp: tftp_io_xfer_ops_def)
qed (auto simp: client_xfer_ops_def client_xfer_send_def client_xfer_received_def client_xfer_retry_enter_def
    client_xfer_retry_leave_def client_xfer_wait_begin_def socket_send_def Let_def tftp_io_xfer_ops_def
    tftp_io_read_packet_def tftp_io_read_length_def tftp_io_read_release_def mem_store_def split: list.splits if_splits)

end
