(* ===== verification/Session.thy ===== *)
theory Session
  imports Commands Frames
begin

text \<open>
  Whole sessions of the interactive client (\<open>tftp/main.c\<close>): what the commands of \<open>Commands\<close> keep,
  the command loop, which ends because every turn consumes input, and \<open>main\<close>.

  The properties say which local files a command can write, that the options stay within their
  limits in every session, and how a session ends.
\<close>

section \<open>What commands keep\<close>

lemma say_sel [simp]:
  "cl (say t s) = cl s" "copt (say t s) = copt s" "xopt (say t s) = xopt s" "family (say t s) = family s"
  "serv_host (say t s) = serv_host s" "serv_canonname (say t s) = serv_canonname s" "serv_addr_str (say t s) = serv_addr_str s"
  "stdin (say t s) = stdin s" "events (say t s) = events s" "files (say t s) = files s"
  by (simp_all add: say_def)

subsection \<open>What a transfer keeps\<close>

text \<open>The server and the configured timeouts.\<close>

definition settings :: "client_world \<Rightarrow> u64 \<times> u64 \<times> sock_addr \<times> bool" where
  "settings w = (rexmtval w, maxtimeout w, serv_addr w, serv_connected w)"

definition client_ok :: "client_world client \<Rightarrow> bool" where
  "client_ok c \<longleftrightarrow>
     (case c of
        Uploading xfer st \<Rightarrow> x_ops xfer = client_xfer_ops \<and> x_io_ops xfer = Some tftp_io_xfer_ops
      | Downloading xfer st \<Rightarrow> x_ops xfer = client_xfer_ops \<and> x_io_ops xfer = Some tftp_io_xfer_ops
      | _ \<Rightarrow> True)"

lemma settings_view:
  "(rexmtval w', maxtimeout w', xfer_world.more w') = (rexmtval w, maxtimeout w, xfer_world.more w) \<Longrightarrow> settings w' = settings w"
  by (cases w; cases w') (simp add: settings_def)

lemma settings_sel [simp]:
  "settings (w\<lparr>errno := e\<rparr>) = settings w" "settings (w\<lparr>io := i\<rparr>) = settings w" "settings (w\<lparr>timeout := t\<rparr>) = settings w"
  "settings (close_socket w) = settings w" "settings (w\<lparr>peer_addr := a, peer_connected := b\<rparr>) = settings w"
  "settings (w\<lparr>sent_packets := p, send_plan := q\<rparr>) = settings w" "settings (w\<lparr>send_plan := q\<rparr>) = settings w"
  "settings (w\<lparr>peer_open := b\<rparr>) = settings w" "settings (w\<lparr>sent_packets := p\<rparr>) = settings w"
  by (simp_all add: settings_def close_socket_def)

lemma client_exit_kept:
  "client_exit e w = (c, w') \<Longrightarrow> client_ok c \<and> settings w' = settings w"
  by (auto simp: client_exit_def client_ok_def)

lemma socket_send_kept: "socket_send p w = (r, w') \<Longrightarrow> settings w' = settings w"
  by (auto simp: socket_send_def split: list.splits if_splits)

lemma client_fail_kept: "client_fail E er m e w = (c, w') \<Longrightarrow> client_ok c \<and> settings w' = settings w"
proof -
  assume f: "client_fail E er m e w = (c, w')"
  obtain r v where n: "client_nak (ce_strerror E) er m w = (r, v)" by fastforce
  then have "settings v = settings w" by (auto simp: client_nak_def split: prod.splits dest: socket_send_kept)
  with f n client_exit_kept [of e v] show ?thesis by (simp add: client_fail_def)
qed

lemma put_outcome_kept:
  assumes "x_ops xfer = client_xfer_ops" "x_io_ops xfer = Some tftp_io_xfer_ops" "put_outcome E xfer (out, w) = (c, w')"
  shows "client_ok c \<and> settings w' = settings w"
proof (cases out)
  case (Waiting st)
  with assms show ?thesis by (auto simp: put_outcome_def client_ok_def)
next
  case (Finished r)
  with assms show ?thesis
    by (auto simp: put_outcome_def split: tftp_xfer_status.splits dest: client_exit_kept client_fail_kept)
qed

lemma get_outcome_kept:
  assumes "x_ops xfer = client_xfer_ops" "x_io_ops xfer = Some tftp_io_xfer_ops" "get_outcome E xfer (out, w) = (c, w')"
  shows "client_ok c \<and> settings w' = settings w"
proof (cases out)
  case (Waiting st)
  with assms show ?thesis by (auto simp: get_outcome_def client_ok_def)
next
  case (Finished r)
  with assms show ?thesis
    by (auto simp: get_outcome_def split: tftp_xfer_status.splits dest: client_exit_kept client_fail_kept)
qed

lemma client_xfer_sel [simp]:
  "x_ops (client_xfer ack b) = client_xfer_ops" "x_io_ops (client_xfer ack b) = Some tftp_io_xfer_ops"
  by (simp_all add: client_xfer_def)

lemma io_start_kept: "io_start f c n k b d t e w = (s, w') \<Longrightarrow> settings w' = settings w"
  by (auto simp: io_start_def split: if_splits)

lemma start_put_kept: "start_put E job ack w = (c, w') \<Longrightarrow> client_ok c \<and> settings w' = settings w"
proof -
  assume run: "start_put E job ack w = (c, w')"
  obtain s w1 where st: "tftp_io_reader_start (job_file job) (job_convert job) (unat (oq_window ack)) (unat (oq_window ack))
      (unat (oq_blksize ack)) False 0 w = (s, w1)" by fastforce
  have w1: "settings w1 = settings w" using st io_start_kept by (auto simp: tftp_io_reader_start_def)
  show ?thesis
  proof (cases s)
    case None
    with run st w1 show ?thesis by (auto simp: start_put_def dest: client_fail_kept)
  next
    case (Some i)
    let ?x = "client_xfer ack (oq_window ack \<noteq> 0) :: client_world tftp_xfer"
    obtain o1 w2 where s: "tftp_xfer_send ?x (w1\<lparr>io := i\<rparr>) = (o1, w2)" by fastforce
    have "settings w2 = settings w1"
      using settings_view [OF client_frame.tftp_xfer_send_kept [OF _ _ s]] by simp
    with run st w1 Some s put_outcome_kept [of ?x E o1 w2 c w'] show ?thesis by (simp add: start_put_def Let_def)
  qed
qed

lemma start_get_kept: "start_get E job ack rp ip w = (c, w') \<Longrightarrow> client_ok c \<and> settings w' = settings w"
proof -
  assume run: "start_get E job ack rp ip w = (c, w')"
  obtain s w1 where st: "tftp_io_writer_start (job_file job) (job_convert job) (unat (oq_window ack))
      (unat (oq_blksize ack)) False 0 w = (s, w1)" by fastforce
  have w1: "settings w1 = settings w" using st io_start_kept by (auto simp: tftp_io_writer_start_def)
  show ?thesis
  proof (cases s)
    case None
    with run st w1 show ?thesis by (auto simp: start_get_def dest: client_fail_kept)
  next
    case (Some i)
    let ?x = "client_xfer ack False :: client_world tftp_xfer"
    obtain o1 w2 where s: "tftp_xfer_recv ?x (int (unat (oq_blksize ack)) + 5) rp ip (w1\<lparr>io := i\<rparr>) = (o1, w2)" by fastforce
    have "settings w2 = settings w1"
      using settings_view [OF client_frame.tftp_xfer_recv_kept [OF _ _ s]] by simp
    with run st w1 Some s get_outcome_kept [of ?x E o1 w2 c w'] show ?thesis by (simp add: start_get_def Let_def)
  qed
qed

lemma send_request_kept: "send_request job req q w = (c, w') \<Longrightarrow> client_ok c \<and> settings w' = settings w"
  by (auto simp: send_request_def client_ok_def split: prod.splits if_splits dest!: client_exit_kept socket_send_kept)

lemma request_reply_kept: "request_reply E job req q p w = (c, w') \<Longrightarrow> client_ok c \<and> settings w' = settings w"
  by (auto simp: request_reply_def client_ok_def [of "Requesting job req q"] split: if_splits option.splits
      dest!: client_exit_kept client_fail_kept start_put_kept start_get_kept)

lemma transfer_event_kept:
  assumes "client_ok (Uploading xfer st)" "put_outcome E xfer (send_step xfer tftp_io_xfer_ops st ev w) = (c, w')"
  shows "client_ok c \<and> settings w' = settings w"
proof -
  obtain o1 w1 where s: "send_step xfer tftp_io_xfer_ops st ev w = (o1, w1)" by fastforce
  have x: "x_ops xfer = client_xfer_ops" "x_io_ops xfer = Some tftp_io_xfer_ops" using assms(1) by (simp_all add: client_ok_def)
  from settings_view [OF client_frame.send_step_kept [OF x(1) s]] put_outcome_kept [OF x, of E o1 w1] assms(2) s
  show ?thesis by simp
qed

lemma receive_event_kept:
  assumes "client_ok (Downloading xfer st)" "get_outcome E xfer (recv_step xfer tftp_io_xfer_ops st ev w) = (c, w')"
  shows "client_ok c \<and> settings w' = settings w"
proof -
  obtain o1 w1 where s: "recv_step xfer tftp_io_xfer_ops st ev w = (o1, w1)" by fastforce
  have x: "x_ops xfer = client_xfer_ops" "x_io_ops xfer = Some tftp_io_xfer_ops" using assms(1) by (simp_all add: client_ok_def)
  have fin: "write_finish tftp_io_xfer_ops \<noteq> None" by (simp add: tftp_io_xfer_ops_def)
  from settings_view [OF client_frame.recv_step_kept [OF x(1) fin s]] get_outcome_kept [OF x, of E o1 w1] assms(2) s
  show ?thesis by simp
qed

lemma client_step_kept:
  assumes "client_ok c" "client_step E opt c ev w = (c', w')"
  shows "client_ok c' \<and> settings w' = settings w"
proof -
  have loc: "client_ok c1 \<and> settings w1 = settings v" if "client_local E c r v = (c1, w1)" for r v c1 w1
    using that assms(1) client_exit_kept [of EX_OSERR v]
    by (cases c) (auto simp: client_local_def split: if_splits dest: send_request_kept transfer_event_kept receive_event_kept)
  have del: "client_ok c1 \<and> settings w1 = settings v" if "client_deliver E c p v = (c1, w1)" for p v c1 w1
    using that assms(1)
    by (cases c) (auto simp: client_deliver_def dest: request_reply_kept transfer_event_kept receive_event_kept)
  have con: "settings (client_connect E a w) = settings w" for a by (simp add: client_connect_def)
  have tim: "client_timer w = Some v \<Longrightarrow> settings v = settings w" for v
    by (auto simp: client_timer_def Let_def split: if_splits)
  show ?thesis
    using assms con del loc tim
    by (cases c; cases ev) (auto simp: client_step_def client_ok_def Let_def split: option.splits if_splits)
qed

lemma run_client_kept:
  "client_ok c \<Longrightarrow> run_client E opt evs c w = Some (e, evs', w') \<Longrightarrow> settings w' = settings w"
proof (induction evs arbitrary: c w)
  case (Cons ev evs)
  show ?case
  proof (cases "\<exists>e. c = Client_done e")
    case False
    obtain c1 w1 where st: "client_step E opt c ev w = (c1, w1)" by fastforce
    from client_step_kept [OF Cons.prems(1) st] have "client_ok c1" "settings w1 = settings w" by simp_all
    moreover from Cons.prems(2) st False have "run_client E opt evs c1 w1 = Some (e, evs', w')" by (cases c) auto
    ultimately show ?thesis using Cons.IH by simp
  qed (use Cons.prems(2) in auto)
qed (auto split: client.splits)

lemma open_socket_kept: "open_socket E x w = Some (e, w1) \<Longrightarrow> settings w1 = settings w"
  unfolding open_socket_def close_socket_def Let_def
  by (cases "pick_port_bind (ce_bind E) (ce_random E) x") (auto simp: settings_def split: if_splits)

lemma client_start_kept:
  assumes "client_start E opt x job name mode w = Some (c, w')"
  shows "client_ok c \<and> settings w' = settings w"
proof (cases "open_socket E x w")
  case (Some p)
  obtain e w1 where p: "p = (e, w1)" by fastforce
  note w1 = open_socket_kept [OF Some [unfolded p]]
  define q0 where "q0 = optreq_init\<lparr>oq_tsize := if \<not> job_put job then 0 else if job_convert job then - 1
      else case ce_size E of Some n \<Rightarrow> n | None \<Rightarrow> - 1\<rparr>"
  define rq where "rq = (if job_put job then WRQ else RRQ)"
  obtain q m where m: "makerequest opt x (of_int (tftp_max_blksize (ce_mtu E) x (sa_fam (peer_addr w1)))) q0 rq name mode = (q, m)"
    by fastforce
  have "(if e \<noteq> 0 then client_exit e w1 else if \<not> ce_fdopen E then client_exit EX_OSERR w1
      else (case m of Inl er \<Rightarrow> client_exit EX_OSERR (w1\<lparr>errno := er\<rparr>)
            | Inr req \<Rightarrow> send_request job req q (w1\<lparr>timeout := rexmtval w1\<rparr>))) = (c, w')"
    using assms unfolding client_start_def Let_def q0_def [symmetric] rq_def [symmetric]
    by (simp add: Some p m split: if_splits)
  with w1 show ?thesis
    by (cases m) (auto split: if_splits dest!: client_exit_kept send_request_kept)
qed (use assms in \<open>simp add: client_start_def\<close>)

text \<open>A command that only transfers, prints or looks up a host keeps the options and the timeouts.\<close>

definition undisturbed :: "cmd_state \<Rightarrow> cmd_state \<Rightarrow> bool" where
  "undisturbed s s' \<longleftrightarrow>
     stdin s' = stdin s \<and> copt s' = copt s \<and> xopt s' = xopt s \<and> family s' = family s
     \<and> rexmtval (cl s') = rexmtval (cl s) \<and> maxtimeout (cl s') = maxtimeout (cl s)"

lemma undisturbed_refl [simp]: "undisturbed s s"
  by (simp add: undisturbed_def)

lemma undisturbed_trans: "undisturbed s s1 \<Longrightarrow> undisturbed s1 s2 \<Longrightarrow> undisturbed s s2"
  by (simp add: undisturbed_def)

lemma undisturbed_say [simp]: "undisturbed s (say t s') \<longleftrightarrow> undisturbed s s'" "undisturbed (say t s) s' \<longleftrightarrow> undisturbed s s'"
  by (simp_all add: undisturbed_def)

lemma undisturbed_files [simp]: "undisturbed s (s'\<lparr>files := f\<rparr>) \<longleftrightarrow> undisturbed s s'"
  by (simp add: undisturbed_def)

lemma set_transfer_host_undisturbed: "set_transfer_host E h p s = (e, s') \<Longrightarrow> undisturbed s s' \<and> files s' = files s"
  by (auto simp: set_transfer_host_def Let_def undisturbed_def split: sum.splits prod.splits if_splits)

lemma transfer_file_undisturbed:
  assumes "transfer_file E put f len name s = (fl, s')"
  shows "undisturbed s s' \<and> files s' = files s"
proof -
  let ?w = "(cl s)\<lparr>io := (io (cl s))\<lparr>io_file := f\<rparr>\<rparr>" and ?N = "(net E)\<lparr>ce_size := len\<rparr>" and ?o = "tftp_options.truncate (copt s)"
  show ?thesis
  proof (cases "\<exists>w2 evs. s' = s\<lparr>cl := w2, events := evs\<rparr> \<and> settings w2 = settings ?w")
    case True
    then show ?thesis by (auto simp: undisturbed_def settings_def)
  next
    case False
    have "s' = s\<lparr>cl := ?w\<rparr>"
    proof (rule ccontr)
      assume ne: "s' \<noteq> s\<lparr>cl := ?w\<rparr>"
      obtain m c w1 e evs w2 where st: "client_start ?N ?o (xopt s)
            \<lparr>job_put = put, job_convert = (m = ''netascii''), job_file = f\<rparr> name m ?w = Some (c, w1)"
          "run_client ?N ?o (events s) c w1 = Some (e, evs, w2)" "s' = s\<lparr>cl := w2, events := evs\<rparr>"
        using assms ne by (auto simp: transfer_file_def Let_def split: option.splits prod.splits if_splits)
      from client_start_kept [OF st(1)] run_client_kept [OF _ st(2)] st(3) False show False by auto
    qed
    then show ?thesis by (simp add: undisturbed_def)
  qed
qed

lemma send_local_undisturbed:
  "send_local E cp remote s = Some (fl, s') \<Longrightarrow> undisturbed s s' \<and> files s' = files s"
  by (auto simp: send_local_def Let_def split: option.splits if_splits dest!: transfer_file_undisturbed)

lemma receive_local_undisturbed:
  "receive_local E remote cp s = Some (fl, s') \<Longrightarrow> undisturbed s s' \<and> (\<exists>t. files s' = (files s)(cp \<mapsto> t))"
  by (auto simp: receive_local_def Let_def split: prod.splits if_splits dest!: transfer_file_undisturbed)

lemma put_loop_undisturbed: "put_loop E targ args err s = (fl, s') \<Longrightarrow> undisturbed s s' \<and> files s' = files s"
proof (induction args arbitrary: err s)
  case (Cons arg args)
  obtain name base where t: "tail arg = (name, base)" by fastforce
  show ?case
  proof (cases "send_local E name (targ @ [slash] @ base) s")
    case None
    with Cons.prems t Cons.IH show ?thesis by auto
  next
    case (Some x)
    obtain f s1 where x: "x = (f, s1)" by fastforce
    from send_local_undisturbed [OF Some [unfolded x]] have u: "undisturbed s s1" "files s1 = files s" by simp_all
    show ?thesis
    proof (cases f)
      case (Return r)
      with Cons.prems t Some x have "put_loop E targ args (if err = 0 then r else err) s1 = (fl, s')" by simp
      from Cons.IH [OF this] u show ?thesis using undisturbed_trans by auto
    qed (use Cons.prems t Some x u in auto)
  qed
qed simp

lemma tail_base: "tail f = (name, base) \<Longrightarrow> slash \<notin> set base"
proof (induction f rule: tail.induct)
  case (1 f)
  show ?case
  proof (cases "slash \<in> set f \<and> last f = slash")
    case True
    with 1 show ?thesis by (simp add: tail.simps [of f])
  next
    case False
    with "1.prems" show ?thesis by (auto simp: tail.simps [of f] dest: set_takeWhileD split: if_splits)
  qed
qed

text \<open>The local names a download may write to.\<close>

definition download_name :: "string option \<Rightarrow> string list \<Rightarrow> string \<Rightarrow> bool" where
  "download_name dir argv n \<longleftrightarrow>
     (case dir of
        Some d \<Rightarrow> \<exists>b. slash \<notin> set b \<and> n = d @ [slash] @ b
      | None \<Rightarrow> slash \<notin> set n \<or> length argv = 3 \<and> (n = argv ! 2 \<or> n = takeWhile (\<lambda>c. c \<noteq> CHR '':'') (argv ! 2)))"

text \<open>One turn of the loop: it goes on without a file, it ends, or it has received a file.\<close>

lemma get_loopE:
  assumes "get_loop E dir argv (arg # args) err s = (fl, s')"
  obtains (skipped) e' s1 where "undisturbed s s1" "files s1 = files s" "get_loop E dir argv args e' s1 = (fl, s')"
  | (ended) "undisturbed s s'" "files s' = files s" "fl = Return EX_OSERR"
  | (received) src cp s1 f s2 where "undisturbed s s1" "files s1 = files s" "receive_local E src cp s1 = Some (f, s2)"
      "length argv = 3 \<and> dir = None \<longrightarrow> last (arg # args) = argv ! 2 \<Longrightarrow> download_name dir argv cp"
      "(fl, s') = (f, s2) \<or> (\<exists>e'. get_loop E dir argv args e' s2 = (fl, s'))"
proof -
  define host where "host = (if literal (copt s) then None else colon_split arg)"
  define head where "head = (case host of None \<Rightarrow> arg | Some (h, t) \<Rightarrow> h)"
  define src where "src = (case host of None \<Rightarrow> arg | Some (h, t) \<Rightarrow> t)"
  define second where "second = (if args = [] then head else argv ! 2)"
  obtain e s1 where r: "(case host of None \<Rightarrow> (0, s) | Some (h, t) \<Rightarrow> set_transfer_host E h None s) = (e, s1)" by fastforce
  have u: "undisturbed s s1" "files s1 = files s"
    using r by (cases host; auto dest: set_transfer_host_undisturbed)+
  have hd: "head = arg \<or> head = takeWhile (\<lambda>c. c \<noteq> CHR '':'') arg"
    by (auto simp: head_def host_def colon_split_def split: if_splits)
  obtain src1 base where t: "tail src = (src1, base)" by fastforce
  define single where "single \<longleftrightarrow> dir = None \<and> (length argv < 3 \<or> length argv = 3 \<and> \<not> is_directory second)"
  define p where "p = (if single then if length argv = 3 then (src, second) else (src1, base)
    else (src1, case dir of None \<Rightarrow> base | Some d \<Rightarrow> d @ [slash] @ base))"
  have eq: "(if e \<noteq> 0 then get_loop E dir argv args (if err = 0 then EX_NOHOST else err)
        (say (line_of (''Warning: '' @ gai_strerror E e) @ line_of (head @ '': unknown host'')) s1)
      else case receive_local E (fst p) (snd p) s1 of
        None \<Rightarrow> if single then (Return EX_OSERR, s1) else get_loop E dir argv args (if err = 0 then EX_OSERR else err) s1
      | Some (Return result, s2) \<Rightarrow>
          if single then (Return result, s2) else get_loop E dir argv args (if err = 0 then result else err) s2
      | Some x \<Rightarrow> x) = (fl, s')"
    using assms
    unfolding get_loop.simps Let_def host_def [symmetric] head_def [symmetric] src_def [symmetric] second_def [symmetric]
      r prod.case t single_def [symmetric] p_def
    by (cases single; cases "e = 0"; cases "length argv = 3") (auto simp: case_prod_beta split: option.splits flow.splits)
  have name: "download_name dir argv (snd p)" if "length argv = 3 \<and> dir = None \<longrightarrow> last (arg # args) = argv ! 2"
    using that hd tail_base [OF t] by (auto simp: p_def second_def single_def download_name_def split: option.splits if_splits)
  show thesis
  proof (cases "e = 0 \<and> receive_local E (fst p) (snd p) s1 \<noteq> None")
    case True
    then obtain f s2 where x: "receive_local E (fst p) (snd p) s1 = Some (f, s2)" by auto
    show thesis
      by (rule received [OF u x name]) (use eq True x in \<open>cases f; auto split: if_splits\<close>)+
  next
    case False
    with eq u skipped [of s1] skipped [of "say (line_of (''Warning: '' @ gai_strerror E e) @ line_of (head @ '': unknown host'')) s1"]
      ended show thesis by (cases "receive_local E (fst p) (snd p) s1") (auto split: if_splits)
  qed
qed

lemma get_loop_undisturbed:
  assumes "get_loop E dir argv args err s = (fl, s')" "length argv = 3 \<and> dir = None \<and> args \<noteq> [] \<longrightarrow> last args = argv ! 2"
  shows "undisturbed s s' \<and> (\<forall>n. files s' n \<noteq> files s n \<longrightarrow> download_name dir argv n)"
  using assms
proof (induction args arbitrary: err s)
  case (Cons arg args)
  have last: "length argv = 3 \<and> dir = None \<and> args \<noteq> [] \<longrightarrow> last args = argv ! 2"
    using Cons.prems(2) by (auto split: if_splits)
  from Cons.prems(1) show ?case
  proof (cases rule: get_loopE)
    case (skipped e' s1)
    with Cons.IH [OF skipped(3) last] undisturbed_trans show ?thesis by auto
  next
    case (received src cp s1 f s2)
    have "download_name dir argv cp" using received(4) Cons.prems(2) by simp
    with receive_local_undisturbed [OF received(3)] received(1,2)
    have "undisturbed s s2" "\<forall>n. files s2 n \<noteq> files s n \<longrightarrow> download_name dir argv n"
      using undisturbed_trans by (auto split: if_splits)
    with received(5) Cons.IH [OF _ last, of _ s2] undisturbed_trans show ?thesis by (auto, metis+)
  qed simp
qed simp

subsection \<open>What a command keeps\<close>

text \<open>A command reads no input but to complete its arguments.\<close>

definition quiet :: "cmd_state \<Rightarrow> cmd_state \<Rightarrow> bool" where
  "quiet s s' \<longleftrightarrow> undisturbed (s\<lparr>stdin := stdin s'\<rparr>) s' \<and> length (stdin s') \<le> length (stdin s)"

lemma quiet_undisturbed: "quiet s s1 \<Longrightarrow> undisturbed s1 s' \<Longrightarrow> quiet s s'"
  by (simp add: quiet_def undisturbed_def)

lemma undisturbed_quiet: "undisturbed s s' \<Longrightarrow> quiet s s'"
  by (simp add: quiet_def undisturbed_def)

lemma complete_args_quiet:
  assumes "complete_args partial mprompt argv s = (r, s1)" "length partial \<le> 100"
  shows "quiet s s1 \<and> files s1 = files s"
proof -
  have "2 \<le> LBUFLEN - length partial" using assms(2) by (simp add: LBUFLEN_def)
  with assms(1) fgets_spec(3) [of "LBUFLEN - length partial" "stdin s"] show ?thesis
    by (auto simp: complete_args_def getmoreargs_def quiet_def undisturbed_def Let_def split: if_splits option.splits
        intro: less_imp_le)
qed

lemma with_argsE:
  assumes "with_args partial mprompt body argv s = (fl, s')" "length partial \<le> 100"
  obtains (ended) "quiet s s'" "files s' = files s" "fl = Return EX_USAGE \<or> fl = Exit 0"
  | (body) a s1 where "quiet s s1" "files s1 = files s" "body a s1 = (fl, s')" "2 \<le> length argv \<Longrightarrow> a = argv \<and> s1 = s"
proof -
  obtain r s1 where c: "complete_args partial mprompt argv s = (r, s1)" by fastforce
  note q = complete_args_quiet [OF c assms(2)]
  show thesis
  proof (cases r)
    case (Inl f)
    then have "f = Return EX_USAGE \<or> f = Exit 0"
      using c by (auto simp: complete_args_def getmoreargs_def Let_def split: if_splits option.splits)
    with Inl assms(1) c q ended show ?thesis by (simp add: with_args_def)
  next
    case (Inr a)
    have "2 \<le> length argv \<Longrightarrow> a = argv \<and> s1 = s" using c Inr by (simp add: complete_args_def)
    with Inr assms(1) c q body [of s1 a] show ?thesis by (simp add: with_args_def)
  qed
qed

lemma with_args_quiet:
  assumes "with_args partial mprompt body argv s = (fl, s')" "length partial \<le> 100"
    and body: "\<And>a s1 f s2. body a s1 = (f, s2) \<Longrightarrow> undisturbed s1 s2"
  shows "quiet s s'"
  using assms(1,2)
proof (cases rule: with_argsE)
  case (body a s1)
  with assms(3) quiet_undisturbed show ?thesis by blast
qed

lemma set_host_flow:
  "map_prod Return id (set_transfer_host E h p s) = (f, s') \<Longrightarrow> undisturbed s s' \<and> files s' = files s"
  using set_transfer_host_undisturbed [of E h p s] by (cases "set_transfer_host E h p s") auto

lemma setpeer_quiet: "setpeer E argv s = (fl, s') \<Longrightarrow> quiet s s'"
  unfolding setpeer_def by (erule with_args_quiet) (auto split: if_splits dest: set_host_flow)

lemma put_args_undisturbed:
  assumes "put_args E dir argv s = (fl, s')"
  shows "undisturbed s s' \<and> files s' = files s"
proof -
  define host where "host = (if literal (copt s) then None else colon_split (last argv))"
  define targ where "targ = (case host of None \<Rightarrow> last argv | Some (h, t) \<Rightarrow> t)"
  define p where "p = (if length argv = 2 then tail targ else (targ, argv ! 1))"
  obtain e s1 where r: "(case host of None \<Rightarrow> (0, s) | Some (h, t) \<Rightarrow> set_transfer_host E h None s) = (e, s1)" by fastforce
  have u: "undisturbed s s1" "files s1 = files s"
    using r by (cases host; auto dest: set_transfer_host_undisturbed)+
  have put: "undisturbed s s2 \<and> files s2 = files s" if "put_loop E targ args 0 s1 = (f, s2)" for args f s2
    using put_loop_undisturbed [OF that] u undisturbed_trans by auto
  have one: "undisturbed s s2 \<and> files s2 = files s" if "send_local E a b s1 = Some (f, s2)" for a b f s2
    using send_local_undisturbed [OF that] u undisturbed_trans by auto
  show ?thesis
    using assms u
    unfolding put_args_def Let_def host_def [symmetric] targ_def [symmetric] r prod.case p_def [symmetric]
    by (auto simp: case_prod_beta split: if_splits option.splits dest: put one)
qed

lemma putfiles_quiet:
  assumes "putfiles E dir argv s = (fl, s')"
  shows "quiet s s' \<and> files s' = files s"
proof -
  have "length ''send '' \<le> 100" by simp
  with assms [unfolded putfiles_def] show ?thesis
  proof (cases rule: with_argsE)
    case (body a s1)
    with put_args_undisturbed quiet_undisturbed show ?thesis by fastforce
  qed simp
qed

lemma take_butlast: "length argv = 3 \<Longrightarrow> take (length argv - 1) (tl argv) = [argv ! 1, argv ! 2]"
  by (auto simp: numeral_3_eq_3 length_Suc_conv)

lemma get_args_undisturbed:
  assumes "get_args E dir argv s = (fl, s')"
  shows "undisturbed s s' \<and> (\<forall>n. files s' n \<noteq> files s n \<longrightarrow> download_name dir argv n)"
proof -
  have "length argv = 3 \<and> dir = None \<and> names \<noteq> [] \<longrightarrow> last names = argv ! 2"
    if "names = take (length argv - (if dir = None then 0 else 1) - 1) (tl argv)" for names
    using that take_butlast [of argv] by auto
  with assms get_loop_undisturbed show ?thesis
    by (auto simp: get_args_def Let_def split: if_splits)
qed

lemma getfiles_quiet: "getfiles E dir argv s = (fl, s') \<Longrightarrow> quiet s s'"
  unfolding getfiles_def by (erule with_args_quiet) (auto dest: get_args_undisturbed)

lemma with_args_stdin:
  assumes "with_args partial mprompt body argv s = (fl, s')" "length partial \<le> 100"
    and body: "\<And>a s1 f s2. body a s1 = (f, s2) \<Longrightarrow> stdin s2 = stdin s1"
  shows "length (stdin s') \<le> length (stdin s)"
  using assms(1,2)
proof (cases rule: with_argsE)
  case (body a s1)
  with assms(3) show ?thesis by (auto simp: quiet_def)
qed (simp add: quiet_def)

lemma settings_io:
  "settftpmode m b s = (fl, s') \<Longrightarrow> stdin s' = stdin s \<and> files s' = files s" "modecmd argv s = (fl, s') \<Longrightarrow> stdin s' = stdin s \<and> files s' = files s"
  "parse_rexmtval E str s = (fl, s') \<Longrightarrow> stdin s' = stdin s \<and> files s' = files s" "parse_timeout E str s = (fl, s') \<Longrightarrow> stdin s' = stdin s \<and> files s' = files s"
  "set_verbosity to b s = (fl, s') \<Longrightarrow> stdin s' = stdin s \<and> files s' = files s" "status_cmd E s = (fl, s') \<Longrightarrow> stdin s' = stdin s \<and> files s' = files s"
proof -
  show mode: "settftpmode m b s = (fl, s') \<Longrightarrow> stdin s' = stdin s \<and> files s' = files s" for m b s fl s'
    by (auto simp: settftpmode_def Let_def split: option.splits if_splits)
  show "modecmd argv s = (fl, s') \<Longrightarrow> stdin s' = stdin s \<and> files s' = files s"
    by (auto simp: modecmd_def split: option.splits if_splits prod.splits flow.splits dest!: mode)
qed (auto simp: parse_rexmtval_def parse_timeout_def set_verbosity_def status_cmd_def Let_def split: option.splits if_splits)

lemma help_loop_undisturbed: "help_loop args b e s = (r, s') \<Longrightarrow> undisturbed s s' \<and> files s' = files s"
proof (induction args arbitrary: b e s)
  case (Cons a args)
  obtain e1 s1 where p: "print_cmd_help a (if b then s else say [LF] s) = (e1, s1)" by fastforce
  then have "undisturbed s s1" "files s1 = files s" by (auto simp: print_cmd_help_def split: sum.splits if_splits)
  with Cons p undisturbed_trans show ?case by fastforce
qed simp

lemma help_undisturbed: "help_cmd ver argv s = (fl, s') \<Longrightarrow> undisturbed s s' \<and> files s' = files s"
  using help_loop_undisturbed [of "tl argv" True 0 s]
  by (cases "help_loop (tl argv) True 0 s") (auto simp: help_cmd_def split: if_splits)

lemma run_handler_quiet:
  assumes "run_handler E ver h argv s = (fl, s')"
    and "h \<in> {H_setpeer, H_put, H_mput, H_get, H_mget, H_quit, H_help}"
  shows "quiet s s'"
  using assms setpeer_quiet [of E argv s] putfiles_quiet [of E _ argv s] getfiles_quiet [of E _ argv s] help_undisturbed
  by (auto simp: mput_def mget_def quit_def undisturbed_quiet split: if_splits)

lemma run_handler_stdin:
  assumes "run_handler E ver h argv s = (fl, s')"
  shows "length (stdin s') \<le> length (stdin s)"
proof (cases "h \<in> {H_setpeer, H_put, H_mput, H_get, H_mget, H_quit, H_help}")
  case True
  with run_handler_quiet [OF assms] show ?thesis by (simp add: quiet_def)
next
  case False
  have "length (stdin s') \<le> length (stdin s)" if "h \<in> {H_setblocksize, H_setrexmt, H_settimeout, H_setwindowsize}"
    using that assms
    by (auto simp: setblocksize_def setrexmt_def settimeout_def setwindowsize_def Let_def
        intro!: with_args_stdin split: if_splits prod.splits dest!: settings_io)
  with False assms show ?thesis
    by (cases h) (auto simp: setverbose_def settrace_def setliteral_def setbinary_def setascii_def settsize_def setoptions_def
        Let_def dest!: settings_io)
qed

section \<open>The command loop and the command line\<close>

text \<open>A jump to the top level starts the loop again.\<close>

function command :: "cmd_env \<Rightarrow> string \<Rightarrow> cmd_state \<Rightarrow> result" where
  "command E ver s0 =
     (let s = say ''tftp> '' s0 in
      case fgets LBUFLEN (stdin s) of
        None \<Rightarrow> (Exit 0, s)
      | Some (t, rest) \<Rightarrow>
          let s1 = s\<lparr>stdin := rest\<rparr>; line = cstr t in
          if line = [] \<or> hd line = LF then command E ver s1
          else
            (case makeargv line of
               [] \<Rightarrow> command E ver s1
             | name # args \<Rightarrow>
                 (case getcmd name of
                    Inl c \<Rightarrow>
                      command E ver (say (line_of (''Error: unknown command: '' @ name @ '' (did you mean '' @ cmd_name c @ ''?)'')) s1)
                  | Inr c \<Rightarrow>
                      (case run_handler E ver (handler c) (name # args) s1 of
                         (Return r, s2) \<Rightarrow> command E ver s2
                       | (Jump r, s2) \<Rightarrow> command E ver (say [LF] s2)
                       | (f, s2) \<Rightarrow> (f, s2)))))"
  by pat_completeness auto
termination
proof (relation "measure (\<lambda>(E, ver, s). length (stdin s))", goal_cases)
  case 1
  show ?case by simp
qed (auto simp: LBUFLEN_def dest!: fgets_spec(3) run_handler_stdin [OF sym])

declare command.simps [simp del]

subsection \<open>The command line\<close>

text \<open>
  The options as \<open>getopt_long\<close> delivers them, with the arguments that are no options where they
  stand. After \<open>Cl_c\<close> nothing more is looked at; the words that follow it are given apart.
\<close>

datatype client_opt =
    Cl_4 | Cl_6 | Cl_v | Cl_verbosity string | Cl_V | Cl_b | Cl_a | Cl_l | Cl_m string | Cl_c | Cl_R string | Cl_B string
  | Cl_W string | Cl_T | Cl_N | Cl_U | Cl_h "string option" | Cl_unknown | Operand string

text \<open>One option; \<open>Inl\<close> is a call of \<open>exit\<close>.\<close>

definition client_option :: "client_opt \<Rightarrow> cmd_state \<Rightarrow> (int \<times> cmd_state) + cmd_state" where
  "client_option opt s =
     (let mode = (\<lambda>m. case settftpmode m False s of (_, s1) \<Rightarrow> s1) in
      case opt of
        Cl_4 \<Rightarrow> Inr (s\<lparr>family := AI_INET\<rparr>)
      | Cl_6 \<Rightarrow> Inr (s\<lparr>family := AI_INET6\<rparr>)
      | Cl_v \<Rightarrow> Inr (s\<lparr>copt := (copt s)\<lparr>verbose := verbose (copt s) + 1\<rparr>\<rparr>)
      | Cl_verbosity t \<Rightarrow> (case set_verbosity (Some t) True s of (Exit e, s1) \<Rightarrow> Inl (e, s1) | (_, s1) \<Rightarrow> Inr s1)
      | Cl_V \<Rightarrow> Inl (0, s)
      | Cl_b \<Rightarrow> Inr (mode MODE_OCTET)
      | Cl_a \<Rightarrow> Inr (mode MODE_NETASCII)
      | Cl_l \<Rightarrow> Inr (s\<lparr>copt := (copt s)\<lparr>literal := True\<rparr>\<rparr>)
      | Cl_m m \<Rightarrow> (if fst (settftpmode (mode_index m) False s) = Return 0 then Inr (mode (mode_index m)) else Inl (EX_USAGE, s))
      | Cl_c \<Rightarrow> Inr (s\<lparr>copt := (copt s)\<lparr>iscmd := True\<rparr>\<rparr>)
      | Cl_R r \<Rightarrow>
          (case scan_port_range r of
             None \<Rightarrow> Inl (EX_USAGE, s)
           | Some (lo, hi) \<Rightarrow>
               if lo = 0 \<or> hi < lo \<or> 65535 < hi then Inl (EX_USAGE, s)
               else Inr (s\<lparr>xopt := (xopt s)\<lparr>portrange_from := lo, portrange_to := hi\<rparr>\<rparr>))
      | Cl_B t \<Rightarrow>
          (case parse_blocksize_arg t (of_nat MIN_SEGSIZE) (xopt s) of
             (ok, x) \<Rightarrow> if ok then Inr (s\<lparr>xopt := x\<rparr>) else Inl (EX_USAGE, s))
      | Cl_W t \<Rightarrow>
          (let v = parse_uint (Some t) 1 TFTP_MAX_WINDOWSIZE in
           if v = BAD_NUM then Inl (EX_USAGE, s) else Inr (s\<lparr>xopt := (xopt s)\<lparr>max_windowsize := ucast v\<rparr>\<rparr>))
      | Cl_T \<Rightarrow> Inr (s\<lparr>copt := (copt s)\<lparr>tsize := False\<rparr>\<rparr>)
      | Cl_N \<Rightarrow> Inr (s\<lparr>copt := (copt s)\<lparr>no_options := True\<rparr>\<rparr>)
      | Cl_U \<Rightarrow> Inr (s\<lparr>copt := (copt s)\<lparr>unsafe := True\<rparr>\<rparr>)
      | Cl_h (Some t) \<Rightarrow> Inl (if t \<noteq> [] then print_cmd_help t s else (0, s))
      | Cl_h None \<Rightarrow> Inl (0, s)
      | Cl_unknown \<Rightarrow> Inl (EX_USAGE, s)
      | Operand a \<Rightarrow> Inr s)"

fun client_getopt :: "client_opt list \<Rightarrow> string list \<Rightarrow> cmd_state \<Rightarrow> (int \<times> cmd_state) + (string list \<times> cmd_state)" where
  "client_getopt [] peers s = Inr (peers, s)"
| "client_getopt (opt # opts) peers s =
     (if iscmd (copt s) then Inr (peers, s)
      else
        (case opt of
           Operand a \<Rightarrow> if 2 \<le> length peers then Inl (EX_USAGE, s) else client_getopt opts (peers @ [a]) s
         | _ \<Rightarrow> (case client_option opt s of Inl x \<Rightarrow> Inl x | Inr s1 \<Rightarrow> client_getopt opts peers s1)))"

definition client_main :: "cmd_env \<Rightarrow> string \<Rightarrow> string \<Rightarrow> client_opt list \<Rightarrow> string list \<Rightarrow> cmd_state \<Rightarrow> result" where
  "client_main E ver argv0 opts pargv s0 =
     (case client_getopt opts [] (s0\<lparr>copt := (copt s0)\<lparr>opt_mode := MODE_OCTET\<rparr>\<rparr>) of
        Inl (e, s) \<Rightarrow> (Exit e, s)
      | Inr (peers, s) \<Rightarrow>
          let s1 = (if peers = [] then s else snd (setpeer E (argv0 # peers) s)) in
          if iscmd (copt s1) then
            let args = (if length pargv = 1 then makeargv (hd pargv) else pargv) in
            if args = [] \<or> hd args = [] then (Exit EX_USAGE, s1)
            else
              (case getcmd (hd args) of
                 Inl c \<Rightarrow> (Exit EX_USAGE, s1)
               | Inr c \<Rightarrow>
                   (case run_handler E ver (handler c) args s1 of
                      (Return r, s2) \<Rightarrow> (Exit r, s2)
                    | (Jump r, s2) \<Rightarrow> (Exit r, s2)
                    | (f, s2) \<Rightarrow> (f, s2)))
          else command E ver s1)"

text \<open>The state at the start of the program.\<close>

definition DEF_TIMEOUT :: u64 where
  "DEF_TIMEOUT = USEC_PER_SEC"

definition initial_options :: "cmd_state \<Rightarrow> bool" where
  "initial_options s \<longleftrightarrow>
     copt s = \<lparr>trace = False, no_options = False, unsafe = False, opt_mode = MODE_OCTET, verbose = 0, literal = False,
               tsize = True, iscmd = False\<rparr>
     \<and> xopt s = \<lparr>portrange_from = 0, portrange_to = 0, blksize = 0, max_windowsize = 64\<rparr> \<and> family s = AI_UNSPEC
     \<and> rexmtval (cl s) = DEF_TIMEOUT \<and> maxtimeout (cl s) = DEF_TIMEOUT * TIMEOUT_LIMIT \<and> \<not> serv_connected (cl s)"

section \<open>The options of a session\<close>

text \<open>
  What is used of the machine's \<open>double\<close>: rounding is monotone, exact on integers that fit into
  the mantissa, and close to the number in the range of the normal numbers.
\<close>

definition ieee_double :: "(rat \<Rightarrow> rat) \<Rightarrow> bool" where
  "ieee_double rnd \<longleftrightarrow>
     (\<forall>x y. x \<le> y \<longrightarrow> rnd x \<le> rnd y) \<and> (\<forall>n :: int. \<bar>n\<bar> \<le> 2 ^ 53 \<longrightarrow> rnd (of_int n) = of_int n)
     \<and> (\<forall>x. 1 / 2 ^ 1022 \<le> x \<and> x \<le> 2 ^ 1023 \<longrightarrow> x - x / 2 ^ 53 \<le> rnd x \<and> rnd x \<le> x + x / 2 ^ 53)"

definition session_ok :: "cmd_state \<Rightarrow> bool" where
  "session_ok s \<longleftrightarrow>
     1 \<le> max_windowsize (xopt s) \<and> max_windowsize (xopt s) \<le> 32768
     \<and> (- (INT_MAX div 2) \<le> blksize (xopt s) \<and> blksize (xopt s) \<le> 0
        \<or> int MIN_SEGSIZE \<le> blksize (xopt s) \<and> blksize (xopt s) \<le> int MAX_SEGSIZE)
     \<and> (portrange_from (xopt s) = 0 \<and> portrange_to (xopt s) = 0
        \<or> 0 < portrange_from (xopt s) \<and> portrange_from (xopt s) \<le> portrange_to (xopt s) \<and> portrange_to (xopt s) \<le> 65535)
     \<and> opt_mode (copt s) < length modes_tab
     \<and> MIN_TIMEOUT - 1 \<le> rexmtval (cl s) \<and> rexmtval (cl s) \<le> MAX_TIMEOUT
     \<and> rexmtval (cl s) \<le> maxtimeout (cl s) \<and> maxtimeout (cl s) \<le> MAX_TIMEOUT * TIMEOUT_LIMIT + 1"

lemma session_ok_quiet: "quiet s s' \<Longrightarrow> session_ok s \<Longrightarrow> session_ok s'"
  by (simp add: session_ok_def quiet_def undisturbed_def)

lemma session_ok_sel [simp]:
  "session_ok (say t s) \<longleftrightarrow> session_ok s" "session_ok (s\<lparr>stdin := i\<rparr>) \<longleftrightarrow> session_ok s" "session_ok (s\<lparr>family := f\<rparr>) \<longleftrightarrow> session_ok s"
  "session_ok (s\<lparr>copt := (copt s)\<lparr>verbose := v\<rparr>\<rparr>) \<longleftrightarrow> session_ok s" "session_ok (s\<lparr>copt := (copt s)\<lparr>literal := b\<rparr>\<rparr>) \<longleftrightarrow> session_ok s"
  "session_ok (s\<lparr>copt := (copt s)\<lparr>tsize := b\<rparr>\<rparr>) \<longleftrightarrow> session_ok s" "session_ok (s\<lparr>copt := (copt s)\<lparr>iscmd := b\<rparr>\<rparr>) \<longleftrightarrow> session_ok s"
  "session_ok (s\<lparr>copt := (copt s)\<lparr>no_options := b\<rparr>\<rparr>) \<longleftrightarrow> session_ok s" "session_ok (s\<lparr>copt := (copt s)\<lparr>unsafe := b\<rparr>\<rparr>) \<longleftrightarrow> session_ok s"
  "session_ok (s\<lparr>copt := (copt s)\<lparr>trace := b\<rparr>\<rparr>) \<longleftrightarrow> session_ok s"
  by (simp_all add: session_ok_def)

lemma mode_index_bound: "mode_index n < length modes_tab"
  unfolding mode_index_def modes_tab_def by (auto intro: le_less_trans [OF length_takeWhile_le])

lemma modes_bound: "MODE_OCTET < length modes_tab" "MODE_NETASCII < length modes_tab"
  by (simp_all add: MODE_OCTET_def MODE_NETASCII_def modes_tab_def)

lemma settftpmode_ok: "session_ok s \<Longrightarrow> m < length modes_tab \<Longrightarrow> session_ok (snd (settftpmode m b s))"
  by (auto simp: settftpmode_def session_ok_def Let_def split: option.splits)

lemma windowsize_ok:
  assumes "session_ok s" "parse_uint arg 1 TFTP_MAX_WINDOWSIZE = v" "v \<noteq> BAD_NUM"
  shows "session_ok (s\<lparr>xopt := (xopt s)\<lparr>max_windowsize := ucast v\<rparr>\<rparr>)"
proof -
  have "1 \<le> v \<and> v \<le> TFTP_MAX_WINDOWSIZE" using parse_uint_range [of arg 1 TFTP_MAX_WINDOWSIZE] assms(2,3) by simp
  moreover from this have "unat (ucast v :: u32) = unat v"
    by (simp add: TFTP_MAX_WINDOWSIZE_def word_le_nat_alt unsigned_ucast_eq take_bit_nat_eq_self)
  ultimately have "1 \<le> (ucast v :: u32) \<and> (ucast v :: u32) \<le> 32768"
    by (simp add: TFTP_MAX_WINDOWSIZE_def word_le_nat_alt)
  with assms(1) show ?thesis by (simp add: session_ok_def)
qed

lemma blocksize_ok:
  assumes "session_ok s" "parse_blocksize_arg t (of_nat MIN_SEGSIZE) (xopt s) = (ok, x)"
  shows "session_ok (s\<lparr>xopt := x\<rparr>)"
proof -
  have "uint (of_nat MIN_SEGSIZE :: u64) = int MIN_SEGSIZE" by (simp add: MIN_SEGSIZE_def)
  with parse_blocksize_arg_range [OF assms(2)] assms(1) show ?thesis by (auto simp: session_ok_def)
qed

subsection \<open>Timeouts\<close>

lemma rounded_above: "ieee_double rnd \<Longrightarrow> \<bar>n\<bar> \<le> 2 ^ 53 \<Longrightarrow> of_int n \<le> x \<Longrightarrow> of_int n \<le> rnd x"
  unfolding ieee_double_def by metis

lemma rounded_below: "ieee_double rnd \<Longrightarrow> \<bar>n\<bar> \<le> 2 ^ 53 \<Longrightarrow> x \<le> of_int n \<Longrightarrow> rnd x \<le> of_int n"
  unfolding ieee_double_def by metis

lemma rounded_int: "ieee_double rnd \<Longrightarrow> \<bar>n\<bar> \<le> 2 ^ 53 \<Longrightarrow> rnd (of_int n) = of_int n"
  by (simp add: ieee_double_def)

lemma rounded_close:
  assumes "ieee_double rnd" "1 / 1000000 \<le> x" "x \<le> 1000000"
  shows "x - x / 2 ^ 53 \<le> rnd x"
proof -
  have "(1 :: rat) / 2 ^ 1022 \<le> 1 / 1000000"
    by (rule divide_left_mono) (simp_all add: power_increasing [of 20 1022 "2::rat", THEN order_trans [rotated]])
  moreover have "(1000000 :: rat) \<le> 2 ^ 1023" by (rule order_trans [of _ "2 ^ 20"]) simp_all
  ultimately show ?thesis using assms unfolding ieee_double_def by (meson order_trans)
qed

lemma number_inD:
  assumes "number_in E str lo hi = Some t"
  obtains q where "t = Num q" "lo \<le> q" "q \<le> hi"
  using assms by (cases t) (auto simp: number_in_def split: prod.splits if_splits)

lemma u64_of_int: "0 \<le> k \<Longrightarrow> k < 2 ^ 64 \<Longrightarrow> unat (of_int k :: u64) = nat k"
  by (simp add: unsigned_of_int take_bit_int_eq_self)

text \<open>The limit in seconds is close to the limit in microseconds.\<close>

lemma seconds_close:
  assumes "ieee_double (rounded E)" "0 < n" "n \<le> 255000000" "seconds E n \<le> q"
  shows "of_int (int n - 1) \<le> q * 1000000"
proof -
  have "rounded E (of_nat n) = of_nat n" using rounded_int [OF assms(1), of "int n"] assms(3) by simp
  then have s: "seconds E n = rounded E (of_nat n / 1000000)" by (simp add: seconds_def USEC_PER_SEC_def)
  let ?x = "of_nat n / 1000000 :: rat"
  have "1 / 1000000 \<le> ?x" using assms(2) by (simp add: divide_right_mono)
  moreover have n: "of_nat n \<le> (255000000 :: rat)" using of_nat_mono [OF assms(3), where 'a = rat] by simp
  then have "?x \<le> 1000000" by simp
  ultimately have "?x - ?x / 2 ^ 53 \<le> rounded E ?x" by (rule rounded_close [OF assms(1)])
  then have "?x - ?x / 2 ^ 53 \<le> q" using s assms(4) by simp
  then have "(?x - ?x / 2 ^ 53) * 1000000 \<le> q * 1000000" by (rule mult_right_mono) simp
  moreover have "(?x - ?x / 2 ^ 53) * 1000000 = of_nat n - of_nat n / 2 ^ 53" by (simp add: field_simps)
  moreover have "(of_nat n / 2 ^ 53 :: rat) \<le> 1" using n by simp
  ultimately show ?thesis by simp
qed

lemma floor_u64:
  assumes "of_int a \<le> x" "x \<le> of_int b" "0 \<le> a" "b < 2 ^ 64"
  shows "nat a \<le> unat (of_int \<lfloor>x\<rfloor> :: u64) \<and> unat (of_int \<lfloor>x\<rfloor> :: u64) \<le> nat b"
proof -
  have "a \<le> \<lfloor>x\<rfloor>" using assms(1) by (simp add: le_floor_iff)
  moreover have "\<lfloor>x\<rfloor> \<le> b" using floor_mono [OF assms(2)] by simp
  ultimately show ?thesis using assms(3,4) u64_of_int [of "\<lfloor>x\<rfloor>"] by linarith
qed

lemma time_constants:
  "unat MIN_TIMEOUT = 10000" "unat MAX_TIMEOUT = 255000000" "unat USEC_PER_SEC = 1000000" "unat TIMEOUT_LIMIT = 63"
  by (simp_all add: MIN_TIMEOUT_def MAX_TIMEOUT_def USEC_PER_SEC_def TIMEOUT_LIMIT_def)

lemma rexmt_bounds:
  assumes "ieee_double (rounded E)"
    and "number_in E str (seconds E (unat MIN_TIMEOUT)) (seconds E (unat MAX_TIMEOUT)) = Some t"
    and "v = double_u64 (double_mult E t (of_nat (unat USEC_PER_SEC)))"
  shows "9999 \<le> unat v \<and> unat v \<le> 255000000"
proof -
  obtain q where q: "t = Num q" "seconds E 10000 \<le> q" "q \<le> seconds E 255000000"
    using number_inD [OF assms(2)] by (metis time_constants(1,2))
  have "of_int 9999 \<le> rounded E (q * 1000000)"
    using seconds_close [OF assms(1) _ _ q(2)] by (intro rounded_above [OF assms(1)]) simp_all
  moreover have "seconds E 255000000 = 255"
    using rounded_int [OF assms(1), of 255000000] rounded_int [OF assms(1), of 255] by (simp add: seconds_def time_constants)
  then have "q * 1000000 \<le> of_int 255000000" using q(3) by simp
  then have "rounded E (q * 1000000) \<le> of_int 255000000" by (intro rounded_below [OF assms(1)]) simp_all
  ultimately show ?thesis using floor_u64 [of 9999 _ 255000000] q(1) assms(3) by (simp add: time_constants)
qed

lemma timeout_bounds:
  assumes "ieee_double (rounded E)" "0 < r" "r \<le> 255000000"
    and "number_in E str (seconds E r)
      (rounded E (rounded E (rounded E (of_nat (unat MAX_TIMEOUT)) * of_nat (unat TIMEOUT_LIMIT)) / of_nat (unat USEC_PER_SEC))) = Some t"
    and "v = double_u64 (double_add E (double_mult E t (of_nat (unat USEC_PER_SEC))) 1)"
  shows "r \<le> unat v \<and> unat v \<le> 16065000001"
proof -
  have "rounded E (rounded E (rounded E 255000000 * 63) / 1000000) = 16065"
    using rounded_int [OF assms(1), of 255000000] rounded_int [OF assms(1), of 16065000000] rounded_int [OF assms(1), of 16065]
    by simp
  then obtain q where q: "t = Num q" "seconds E r \<le> q" "q \<le> 16065"
    using number_inD [OF assms(4)] by (metis time_constants(2-4) of_nat_numeral)
  have "of_int (int r - 1) \<le> rounded E (q * 1000000)"
    using seconds_close [OF assms(1-3) q(2)] assms(3) by (intro rounded_above [OF assms(1)]) simp_all
  then have "of_int (int r) \<le> rounded E (rounded E (q * 1000000) + 1)"
    using assms(3) by (intro rounded_above [OF assms(1)]) simp_all
  moreover have "rounded E (q * 1000000) \<le> of_int 16065000000"
    using q(3) by (intro rounded_below [OF assms(1)]) simp_all
  then have "rounded E (rounded E (q * 1000000) + 1) \<le> of_int 16065000001"
    by (intro rounded_below [OF assms(1)]) simp_all
  ultimately show ?thesis using floor_u64 [of "int r" _ 16065000001] q(1) assms(5) by (simp add: time_constants)
qed

lemma times_ok:
  assumes "session_ok s" "9999 \<le> unat r" "unat r \<le> 255000000" "unat r \<le> unat m" "unat m \<le> 16065000001"
  shows "session_ok (s\<lparr>cl := (cl s)\<lparr>rexmtval := r, maxtimeout := m\<rparr>\<rparr>)"
proof -
  have "unat (MIN_TIMEOUT - 1) = 9999" "unat (MAX_TIMEOUT * TIMEOUT_LIMIT + 1) = 16065000001"
    by (simp_all add: MIN_TIMEOUT_def MAX_TIMEOUT_def TIMEOUT_LIMIT_def USEC_PER_SEC_def)
  with assms show ?thesis by (simp add: session_ok_def word_le_nat_alt time_constants)
qed

lemma session_times:
  assumes "session_ok s"
  shows "9999 \<le> unat (rexmtval (cl s)) \<and> unat (rexmtval (cl s)) \<le> 255000000"
proof -
  have "unat (MIN_TIMEOUT - 1) = 9999" by (simp add: MIN_TIMEOUT_def)
  with assms show ?thesis by (simp add: session_ok_def word_le_nat_alt time_constants)
qed

lemma parse_rexmtval_ok:
  assumes "ieee_double (rounded E)" "session_ok s"
  shows "session_ok (snd (parse_rexmtval E str s))"
proof (cases "number_in E str (seconds E (unat MIN_TIMEOUT)) (seconds E (unat MAX_TIMEOUT))")
  case (Some t)
  define v where "v = double_u64 (double_mult E t (of_nat (unat USEC_PER_SEC)))"
  have v: "9999 \<le> unat v" "unat v \<le> 255000000" using rexmt_bounds [OF assms(1) Some v_def] by simp_all
  then have "unat (v * TIMEOUT_LIMIT) = unat v * 63" by (subst unat_mult_lem [THEN iffD1]) (simp_all add: time_constants)
  with v have "session_ok (s\<lparr>cl := (cl s)\<lparr>rexmtval := v, maxtimeout := v * TIMEOUT_LIMIT\<rparr>\<rparr>)"
    by (intro times_ok [OF assms(2)]) simp_all
  with Some show ?thesis by (simp add: parse_rexmtval_def v_def Let_def)
qed (simp add: parse_rexmtval_def assms(2))

lemma parse_timeout_ok:
  assumes "ieee_double (rounded E)" "session_ok s"
  shows "session_ok (snd (parse_timeout E str s))"
proof -
  define maxi where "maxi =
    rounded E (rounded E (rounded E (of_nat (unat MAX_TIMEOUT)) * of_nat (unat TIMEOUT_LIMIT)) / of_nat (unat USEC_PER_SEC))"
  note r = session_times [OF assms(2)]
  show ?thesis
  proof (cases "number_in E str (seconds E (unat (rexmtval (cl s)))) maxi")
    case (Some t)
    define v where "v = double_u64 (double_add E (double_mult E t (of_nat (unat USEC_PER_SEC))) 1)"
    have "unat (rexmtval (cl s)) \<le> unat v \<and> unat v \<le> 16065000001"
      using timeout_bounds [OF assms(1) _ _ Some [unfolded maxi_def] v_def] r by simp
    with r have "session_ok (s\<lparr>cl := (cl s)\<lparr>rexmtval := rexmtval (cl s), maxtimeout := v\<rparr>\<rparr>)"
      by (intro times_ok [OF assms(2)]) simp_all
    then have "session_ok (s\<lparr>cl := (cl s)\<lparr>maxtimeout := v\<rparr>\<rparr>)" by (simp add: session_ok_def)
    with Some show ?thesis by (simp add: parse_timeout_def maxi_def v_def Let_def)
  qed (simp add: parse_timeout_def maxi_def Let_def assms(2))
qed

subsection \<open>The commands\<close>

lemma with_args_ok:
  assumes "session_ok s" "with_args partial mprompt body argv s = (fl, s')" "length partial \<le> 100"
    and "\<And>a s1. session_ok s1 \<Longrightarrow> session_ok (snd (body a s1))"
  shows "session_ok s'"
  using assms(2,3)
proof (cases rule: with_argsE)
  case (body a s1)
  with assms(1) assms(4) [of s1 a] session_ok_quiet show ?thesis by auto
qed (use assms(1) session_ok_quiet in auto)

lemma modecmd_ok: "session_ok s \<Longrightarrow> session_ok (snd (modecmd argv s))"
  using settftpmode_ok [OF _ mode_index_bound, of s "argv ! 1" True]
  by (cases "settftpmode (mode_index (argv ! 1)) True s") (auto simp: modecmd_def split: option.splits flow.splits)

lemma set_verbosity_ok: "set_verbosity to b s = (fl, s') \<Longrightarrow> session_ok s \<Longrightarrow> session_ok s'"
  by (auto simp: set_verbosity_def Let_def split: option.splits if_splits)

lemma prompting_ok:
  assumes "session_ok s" "ieee_double (rounded E)"
  shows "setblocksize argv s = (fl, s') \<Longrightarrow> session_ok s'" "setwindowsize argv s = (fl, s') \<Longrightarrow> session_ok s'"
    "setrexmt E argv s = (fl, s') \<Longrightarrow> session_ok s'" "settimeout E argv s = (fl, s') \<Longrightarrow> session_ok s'"
  unfolding setblocksize_def setwindowsize_def setrexmt_def settimeout_def
  by (erule with_args_ok [OF assms(1)];
      auto simp: Let_def parse_rexmtval_ok [OF assms(2)] parse_timeout_ok [OF assms(2)] windowsize_ok [OF _ refl]
        dest: blocksize_ok split: prod.splits)+

lemma run_handler_ok:
  assumes "session_ok s" "ieee_double (rounded E)" "run_handler E ver h argv s = (fl, s')"
  shows "session_ok s'"
proof -
  consider "h \<in> {H_setpeer, H_put, H_mput, H_get, H_mget, H_quit, H_help}"
    | "h \<in> {H_setblocksize, H_setrexmt, H_settimeout, H_setwindowsize}"
    | "h \<in> {H_modecmd, H_setverbose, H_settrace, H_setliteral, H_status, H_setbinary, H_setascii, H_settsize, H_setoptions}"
    by (cases h) simp_all
  then show ?thesis
  proof cases
    case 1
    with run_handler_quiet [OF assms(3)] session_ok_quiet assms(1) show ?thesis by blast
  next
    case 2
    with assms(3) show ?thesis by (auto dest: prompting_ok [OF assms(1,2)])
  next
    case 3
    have "session_ok (snd (settftpmode MODE_OCTET True s))" "session_ok (snd (settftpmode MODE_NETASCII True s))"
      using assms(1) by (simp_all add: settftpmode_ok modes_bound)
    with 3 modecmd_ok [OF assms(1), of argv] assms(1,3) show ?thesis
      by (auto simp: setverbose_def settrace_def setliteral_def setbinary_def setascii_def settsize_def setoptions_def
          status_cmd_def Let_def split: option.splits dest: set_verbosity_ok)
  qed
qed

section \<open>How commands end\<close>

text \<open>
  A command ends the program with status 0 only. It fails badly only in a mode that the table
  does not have.
\<close>

definition orderly :: "flow \<Rightarrow> cmd_state \<Rightarrow> bool" where
  "orderly fl s \<longleftrightarrow>
     (case fl of Exit e \<Rightarrow> e = 0 | Crash \<Rightarrow> m_mode (modes_tab ! opt_mode (copt s)) = None | _ \<Rightarrow> True)"

lemma orderly_simps [simp]:
  "orderly (Return r) s" "orderly (Jump r) s" "orderly Waits s" "orderly (Exit e) s \<longleftrightarrow> e = 0"
  "orderly Crash s \<longleftrightarrow> m_mode (modes_tab ! opt_mode (copt s)) = None"
  "orderly fl (say t s) \<longleftrightarrow> orderly fl s" "orderly fl (s\<lparr>files := x\<rparr>) \<longleftrightarrow> orderly fl s"
  by (simp_all add: orderly_def split: flow.split)

lemma transfer_file_orderly: "transfer_file E put f len name s = (fl, s') \<Longrightarrow> orderly fl s'"
  by (auto simp: transfer_file_def orderly_def Let_def split: option.splits if_splits prod.splits)

lemma local_orderly:
  "send_local E cp remote s = Some (fl, s') \<Longrightarrow> orderly fl s'" "receive_local E remote cp s = Some (fl, s') \<Longrightarrow> orderly fl s'"
  by (auto simp: send_local_def receive_local_def Let_def split: option.splits if_splits prod.splits dest: transfer_file_orderly)

lemma put_loop_orderly: "put_loop E targ args err s = (fl, s') \<Longrightarrow> orderly fl s'"
  by (induction args arbitrary: err s) (auto split: prod.splits option.splits flow.splits dest: local_orderly)

lemma get_loop_orderly: "get_loop E dir argv args err s = (fl, s') \<Longrightarrow> orderly fl s'"
proof (induction args arbitrary: err s)
  case (Cons arg args)
  from Cons.prems show ?case by (cases rule: get_loopE) (use Cons.IH in \<open>auto dest: local_orderly\<close>)
qed auto

lemma with_args_orderly:
  assumes "with_args partial mprompt body argv s = (fl, s')" "length partial \<le> 100"
    and "\<And>a s1 f s2. body a s1 = (f, s2) \<Longrightarrow> orderly f s2"
  shows "orderly fl s'"
  using assms(1,2) by (cases rule: with_argsE) (use assms(3) in auto)

lemma put_args_orderly: "put_args E dir argv s = (fl, s') \<Longrightarrow> orderly fl s'"
  by (auto simp: put_args_def Let_def case_prod_beta split: if_splits option.splits dest: put_loop_orderly local_orderly)

lemma get_args_orderly: "get_args E dir argv s = (fl, s') \<Longrightarrow> orderly fl s'"
  by (auto simp: get_args_def Let_def split: if_splits dest: get_loop_orderly)

lemma settftpmode_orderly: "m < length modes_tab \<Longrightarrow> settftpmode m b s = (fl, s') \<Longrightarrow> orderly fl s'"
  by (auto simp: settftpmode_def orderly_def Let_def modes_tab_def less_Suc_eq numeral_nat split: option.splits if_splits)

lemma map_return_orderly: "map_prod Return id x = (fl, s') \<Longrightarrow> orderly fl s'"
  by (cases x) auto

lemma run_handler_orderly:
  assumes "run_handler E ver h argv s = (fl, s')"
  shows "orderly fl s'"
proof -
  have prompting: "orderly fl s'"
    if "h \<in> {H_setpeer, H_put, H_mput, H_get, H_mget, H_setblocksize, H_setrexmt, H_settimeout, H_setwindowsize}"
    using that assms put_args_orderly get_args_orderly
    by (auto simp: setpeer_def putfiles_def mput_def getfiles_def mget_def setblocksize_def setrexmt_def settimeout_def
        setwindowsize_def parse_rexmtval_def parse_timeout_def Let_def
        split: if_splits option.splits prod.splits elim!: with_args_orderly map_return_orderly)
  show ?thesis
  proof (cases "h \<in> {H_setpeer, H_put, H_mput, H_get, H_mget, H_setblocksize, H_setrexmt, H_settimeout, H_setwindowsize}")
    case False
    then show ?thesis
      using assms
      by (cases h) (auto simp: modecmd_def quit_def setverbose_def set_verbosity_def settrace_def setliteral_def status_cmd_def
          setbinary_def setascii_def settsize_def setoptions_def help_cmd_def Let_def split: if_splits option.splits prod.splits flow.splits
          elim!: map_return_orderly dest!: settftpmode_orderly [OF mode_index_bound] settftpmode_orderly [OF modes_bound(1)]
            settftpmode_orderly [OF modes_bound(2)])
  qed (rule prompting)
qed

section \<open>Whole sessions\<close>

text \<open>What every command keeps, the loop keeps; it ends as a command ends that does not return.\<close>

lemma command_rule:
  assumes "command E ver s = (fl, s')" "P s"
    and say: "\<And>t s. P s \<Longrightarrow> P (say t s)" and inp: "\<And>i s. P s \<Longrightarrow> P (s\<lparr>stdin := i\<rparr>)"
    and run: "\<And>h argv s fl s'. run_handler E ver h argv s = (fl, s') \<Longrightarrow> P s \<Longrightarrow> P s' \<and> Q fl s'" and ex: "\<And>s. Q (Exit 0) s"
  shows "P s' \<and> Q fl s' \<and> (\<forall>r. fl \<noteq> Return r \<and> fl \<noteq> Jump r)"
  using assms(1,2)
proof (induction "length (stdin s)" arbitrary: s rule: less_induct)
  case less
  let ?s = "say ''tftp> '' s"
  show ?case
  proof (cases "fgets LBUFLEN (stdin ?s)")
    case None
    with less.prems say ex show ?thesis by (simp add: command.simps [of E ver s]) blast
  next
    case (Some x)
    obtain t rest where x: "x = (t, rest)" by fastforce
    define s1 where "s1 = ?s\<lparr>stdin := rest\<rparr>"
    have p: "P s1" "length (stdin s1) < length (stdin s)"
      using less.prems(2) say inp fgets_spec(3) [OF Some [unfolded x]] by (auto simp: s1_def LBUFLEN_def)
    note step = less.prems(1) [unfolded command.simps [of E ver s] Let_def Some x option.case prod.case s1_def [symmetric]]
    consider (again) s2 where "P s2" "length (stdin s2) < length (stdin s)" "command E ver s2 = (fl, s')"
      | (handler) h argv where "run_handler E ver h argv s1 = (fl, s')" "\<forall>r. fl \<noteq> Return r \<and> fl \<noteq> Jump r"
    proof (cases "makeargv (cstr t) = [] \<or> cstr t = [] \<or> hd (cstr t) = LF")
      case True
      with step p again show thesis by (auto split: if_splits list.splits)
    next
      case False
      then obtain name args where n: "makeargv (cstr t) = name # args" by (meson neq_Nil_conv)
      show thesis
      proof (cases "getcmd name")
        case (Inl c)
        then obtain m where "command E ver (say m s1) = (fl, s')"
          using step False unfolding n list.case Inl sum.case by (auto split: if_splits)
        with again [of "say m s1"] say p show thesis by simp
      next
        case (Inr c)
        obtain f s2 where r: "run_handler E ver (handler c) (name # args) s1 = (f, s2)" by fastforce
        have "P s2" "length (stdin s2) < length (stdin s)"
          using run [OF r p(1)] run_handler_stdin [OF r] p(2) by auto
        with step False n Inr r say again [of s2] again [of "say [LF] s2"] handler show thesis by (cases f) auto
      qed
    qed
    then show ?thesis
    proof cases
      case again
      with less.hyps show ?thesis by blast
    next
      case handler
      with run p(1) show ?thesis by blast
    qed
  qed
qed

lemma command_ok:
  assumes "command E ver s = (fl, s')" "ieee_double (rounded E)" "session_ok s"
  shows "session_ok s'"
  using command_rule [OF assms(1), of session_ok "\<lambda>_ _. True"] assms(2,3) by (auto dest: run_handler_ok)

lemma client_option_ok:
  assumes "session_ok s" "client_option opt s = Inr s'"
  shows "session_ok s'"
proof -
  have port: "session_ok (s\<lparr>xopt := (xopt s)\<lparr>portrange_from := lo, portrange_to := hi\<rparr>\<rparr>)"
    if "lo \<noteq> 0" "lo \<le> hi" "hi \<le> 65535" for lo hi
    using assms(1) that by (auto simp: session_ok_def word_neq_0_conv)
  show ?thesis
  proof (cases opt)
    case (Cl_verbosity t)
    with assms show ?thesis by (auto simp: client_option_def split: prod.splits flow.splits dest: set_verbosity_ok)
  next
    case (Cl_m m)
    with assms settftpmode_ok [OF assms(1) mode_index_bound, of m False] show ?thesis
      by (auto simp: client_option_def split: if_splits prod.splits)
  next
    case (Cl_R r)
    with assms port show ?thesis by (auto simp: client_option_def split: if_splits option.splits)
  next
    case (Cl_B t)
    with assms show ?thesis by (auto simp: client_option_def split: if_splits prod.splits dest: blocksize_ok)
  next
    case (Cl_W t)
    with assms windowsize_ok [OF assms(1) refl] show ?thesis by (auto simp: client_option_def Let_def split: if_splits)
  next
    case Cl_a
    with assms settftpmode_ok [OF assms(1) modes_bound(2), of False] show ?thesis
      by (auto simp: client_option_def split: prod.splits)
  next
    case Cl_b
    with assms settftpmode_ok [OF assms(1) modes_bound(1), of False] show ?thesis
      by (auto simp: client_option_def split: prod.splits)
  qed (use assms in \<open>auto simp: client_option_def split: option.splits\<close>)
qed

lemma client_getopt_ok: "client_getopt opts peers s = Inr (a, s') \<Longrightarrow> session_ok s \<Longrightarrow> session_ok s'"
  by (induction opts arbitrary: peers s)
    (auto split: if_splits client_opt.splits sum.splits dest: client_option_ok)

lemma initial_ok:
  assumes "initial_options s"
  shows "session_ok s"
  using assms
  by (simp add: session_ok_def initial_options_def DEF_TIMEOUT_def USEC_PER_SEC_def MIN_TIMEOUT_def MAX_TIMEOUT_def
      TIMEOUT_LIMIT_def MODE_OCTET_def modes_tab_def INT_MAX_def)

lemma client_option_stops: "client_option opt s = Inl (e, s') \<Longrightarrow> session_ok s \<Longrightarrow> session_ok s'"
  by (auto simp: client_option_def print_cmd_help_def Let_def
      split: client_opt.splits option.splits prod.splits flow.splits if_splits sum.splits dest: set_verbosity_ok)

lemma client_getopt_stops: "client_getopt opts peers s = Inl (e, s') \<Longrightarrow> session_ok s \<Longrightarrow> session_ok s'"
  by (induction opts arbitrary: peers s)
    (auto split: if_splits client_opt.splits sum.splits dest: client_option_ok client_option_stops)

lemma setpeer_ok: "session_ok s \<Longrightarrow> session_ok (snd (setpeer E argv s))"
  using setpeer_quiet session_ok_quiet by (metis prod.collapse)

section \<open>Properties\<close>

subsection \<open>Examples\<close>

definition example_cmd_env :: cmd_env where
  "example_cmd_env =
     \<lparr>net = example_env_client,
      getaddrinfo = (\<lambda>fam h p. if h = ''host'' then Inr (Some (\<lparr>sa_fam = AF_INET, sa_addr = [10, 0, 0, 1], sa_port = 69\<rparr>, None)) else Inl EAI_NONAME),
      net_address = (\<lambda>a. ''10.0.0.1''), gai_strerror = (\<lambda>e. ''failed''), open_error = (\<lambda>n w. None), stream = (\<lambda>n. file_of []),
      is_regular = (\<lambda>n. True), strtod = (\<lambda>t. if t = ''2'' then (Num 2, [], False) else (NaN, t, False)), rounded = id,
      format_g = (\<lambda>q. ''number'')\<rparr>"

definition example_session :: "char list \<Rightarrow> cmd_state" where
  "example_session input =
     \<lparr>cl = xfer_world.extend (world_of (reader_of False 1 8 []) DEF_TIMEOUT)
        \<lparr>serv_addr = \<lparr>sa_fam = AF_OTHER, sa_addr = [], sa_port = 0\<rparr>, serv_connected = False,
         peer_addr = \<lparr>sa_fam = AF_OTHER, sa_addr = [], sa_port = 0\<rparr>, peer_connected = False, peer_open = False\<rparr>,
      copt = \<lparr>trace = False, no_options = False, unsafe = False, opt_mode = MODE_OCTET, verbose = 0, literal = False,
              tsize = True, iscmd = False\<rparr>,
      xopt = \<lparr>portrange_from = 0, portrange_to = 0, blksize = 0, max_windowsize = 64\<rparr>, family = AI_UNSPEC,
      serv_host = [], serv_canonname = [], serv_addr_str = [], stdin = input, events = [],
      files = (\<lambda>n. if n = ''a'' then Some ''x'' else None), printed = []\<rparr>"

lemma example_ieee: "ieee_double (rounded example_cmd_env)"
  by (simp add: ieee_double_def example_cmd_env_def)

lemma example_initial: "initial_options (example_session input)"
  by (simp add: initial_options_def example_session_def xfer_world.defs world_of_def)

subsection \<open>Sessions\<close>






text \<open>
  C40: an unknown mode is accepted. The search for the name of a mode ends at the entry of null
  pointers at the end of the table, and this entry is set as the mode. The command reports success, and
  the next transfer, in either direction, reads through the null pointer.
\<close>

theorem unknown_mode_accepted:
  assumes "name \<notin> {''netascii'', ''ascii'', ''octet'', ''binary'', ''image''}" "verbose (copt s) = 0"
    and "run_handler E ver H_modecmd [cmd, name] s = (fl, s1)"
  shows "fl = Return 0 \<and> fst (transfer_file E put f len remote s1) = Crash"
  using assms by (auto simp: modecmd_def mode_index_def modes_tab_def settftpmode_def transfer_file_def Let_def)

theorem unknown_mode_accepted_witness:
  "\<exists>fl s1. run_handler example_cmd_env ''v'' H_modecmd [''mode'', ''text''] (example_session []) = (fl, s1) \<and> fl = Return 0
     \<and> fst (transfer_file example_cmd_env True (file_of []) None ''a'' s1) = Crash"
proof -
  obtain fl s1 where "run_handler example_cmd_env ''v'' H_modecmd [''mode'', ''text''] (example_session []) = (fl, s1)" by fastforce
  with unknown_mode_accepted [OF _ _ this] show ?thesis by (simp add: example_session_def)
qed

end
