(* ===== verification/Spec2Isabelle.thy ===== *)
theory Spec2Isabelle
  imports Path File_Transfer Subs Negotiate Daemon_Config Remap Errors Client Progress Threads Session
begin

text \<open>
  A verification development for tftp-hpa, a TFTP client and a TFTP daemon in C.

  \<^bold>\<open>The program.\<close> The daemon \<open>tftpd/\<close> reads its options, waits for requests and starts a worker
  for each; the worker drops its privileges, parses the request, remaps and checks the file
  name, opens the file, negotiates options and runs a transfer. The client \<open>tftp/\<close> builds
  requests from commands, parses the answer and runs the same transfer engine from the
  other end. \<open>common/\<close> has what both share: the engine \<open>tftp-xfer.c\<close>, the adapter
  \<open>tftp-io.c\<close> between the engine and a file, error packets and helpers.

  \<^bold>\<open>The theories\<close>, in the order of their imports:

  \<^item> \<open>Prelude\<close>: characters, C strings, words, numbers in decimal, generic lemmas.
  \<^item> \<open>Packet\<close>: opcodes and the header layout of \<open>common/tftp.h\<close>.
  \<^item> \<open>Stdio\<close>: the stream operations the adapter uses, with their failures.
  \<^item> \<open>Path\<close>: \<open>tftpd/path.c\<close> and \<open>normalize_path\<close> of \<open>tftpd/tftpd.c\<close>. Parsing stays within its
    allocation and computes the canonical list of components; it inverts building; comparison
    is the prefix order; normalization resolves \<open>.\<close> and \<open>..\<close> without leaving the root.
  \<^item> \<open>Subs\<close>: \<open>common/tftpsubs.c\<close> and \<open>common/parsenum.c\<close>: exact numbers with suffixes, the search
    for a port, case-insensitive comparison by bit operations.
  \<^item> \<open>Xfer\<close>: both engines of \<open>common/tftp-xfer.c\<close> as machines that are stepped by what \<open>recv\<close>
    returns. The locales \<open>xfer_transport\<close>, \<open>xfer_source\<close> and \<open>xfer_sink\<close> are the callbacks they rely
    on; \<open>xfer_sender\<close> and \<open>xfer_receiver\<close> hold the invariants of the engines.
  \<^item> \<open>Tftp_io\<close>: \<open>common/tftp-io.c\<close> without a helper thread; it implements \<open>xfer_source\<close> and
    \<open>xfer_sink\<close>, for octet and netascii files.
  \<^item> \<open>Transport\<close>: the callbacks and the timers of \<open>tftp/tftp.c\<close> and \<open>tftpd/tftpd.c\<close>.
  \<^item> \<open>File_Transfer\<close>: two engines on a network that loses, repeats and reorders packets.
  \<^item> \<open>Threads\<close>: the helper threads of \<open>common/tftp-io.c\<close>, step by step under an arbitrary schedule.
    The threaded adapter implements the same \<open>xfer_source\<close> and \<open>xfer_sink\<close>, and no wait is for ever.
  \<^item> \<open>Progress\<close>: a transfer on a network that delivers every packet comes to its end.
  \<^item> \<open>Negotiate\<close>: the options of a request and the OACK in \<open>tftpd/tftpd.c\<close>.
  \<^item> \<open>Daemon_Config\<close>: the command line of the daemon and the limits that follow from it.
  \<^item> \<open>Remap\<close>: \<open>tftpd/remap.c\<close>, the rule file, the expansion of patterns and the execution of rules.
  \<^item> \<open>Errors\<close>: \<open>common/error.c\<close> and the functions that send an error packet.
  \<^item> \<open>Access\<close>: \<open>validate_access\<close>, the macros of file names and the test mode of the daemon.
  \<^item> \<open>Server\<close>: the worker of \<open>tftpd/tftpd.c\<close> from the received request to the end of the transfer.
  \<^item> \<open>Client\<close>: the requests, the OACK and the transfers of \<open>tftp/tftp.c\<close>.
  \<^item> \<open>Cmdtab\<close>: the command table of \<open>tftp/main.c\<close>, the search for a command and the splitting of lines.
  \<^item> \<open>Commands\<close>: the state of the interactive client and every command handler of \<open>tftp/main.c\<close>.
  \<^item> \<open>Frames\<close>: what the engines keep of the state of the process around them.
  \<^item> \<open>Session\<close>: the command loop and \<open>main\<close> of \<open>tftp/main.c\<close>. Options stay within their limits, only
    \<open>get\<close> and \<open>mget\<close> write local files, and the loop ends with its input.

  This theory holds the properties of whole transfers.

  \<^bold>\<open>State.\<close> The global variables and open files of a process are one record, extended from layer
  to layer: \<open>world\<close> with \<open>errno\<close>, \<open>io_world\<close> with the adapter, \<open>xfer_world\<close> with timers and
  socket, \<open>daemon_world\<close> with the options of a request, \<open>server_world\<close> with the files of a worker,
  and \<open>client_world\<close>. The interactive client is the record \<open>cmd_state\<close>, with a \<open>client_world\<close>, the input
  and the local files. Options are records too. A call of \<open>exit\<close> is a value. A jump out of \<open>recv\<close>
  by \<open>siglongjmp\<close> is the event \<open>RecvTimeout\<close>. Operating system, C library locale, regular
  expressions and name resolution are parameters: functions in the records \<open>server_os\<close>,
  \<open>server_env\<close>, \<open>remap_libs\<close>, \<open>client_env\<close> and \<open>cmd_env\<close>. A C string is a list of characters without NUL.

  \<^bold>\<open>What is shown.\<close> Whole transfers: neither side reports success unless the file arrived
  unchanged, whatever the network does, and on a network that delivers every packet the
  transfer succeeds. The daemon: every name it opens lies in an allowed directory, in all
  branches of the request handler and through remapping; a read-only daemon only reads; a
  worker serves only after it gave up its privileges; a failed upload leaves no file, with
  the one exception that is shown. Between both: the daemon reads from a request what the
  client wrote, and both sides end with the same block size and window. The client: no command
  leads its options out of their limits or writes a file its arguments do not name. Each component also
  has its invariants, bounds, round trips and error branches.

  \<^bold>\<open>Bounds.\<close> Block numbers have 16 bits. The properties of whole transfers assume fewer than
  65536 blocks, beyond which an old packet cannot be told from a new one. Two
  definitions have fuel: \<open>run_rules\<close>, whose step count is the limit of the program itself, and the
  wait \<open>await_writer\<close> for the writer thread, whose fuel bounds the steps the thread can take. Loops that
  may not end are \<open>partial_function\<close>s, and their termination is a property.

  \<^bold>\<open>Not modelled.\<close> Log, trace and statistics output; signal delivery as such; memory allocation
  and its failure; process creation, daemonization and the poll loop of the listening daemon;
  the handler of the interrupt key, line editing and messages to standard error in the client;
  the code for systems without the functions of \<open>lib/\<close>; the random number generator.
\<close>

section \<open>Whole transfers\<close>

text \<open>
  C1: a download is safe. Whatever the network does to the packets, and whatever timeouts
  and socket errors occur: when the daemon's engine reports success, the client's file is
  the daemon's file and the byte count is that of the encoded file; when the client's
  engine reports success, its file is the daemon's file; and while the client is receiving,
  what it has accepted is exactly the first blocks of the file.
\<close>

theorem download_delivers_the_file:
  assumes "fresh_sender xs conv f sw" "fresh_receiver xr conv rw"
    and "x_ops xs = daemon_xfer_ops" "x_ops xr = client_xfer_ops"
    and "blocksize xs = blocksize xr" "rollover xs = rollover xr"
    and "length (encode (mode_of conv) (f_in f)) div blocksize xs < 65535" "harmless_reply rep"
    and "(transfer_step xs xr)\<^sup>*\<^sup>* (start_transfer xs xr isz rep sw rw) l"
  shows "transfer_safe xs conv f l"
  using assms by (rule download_safe)

theorem download_delivers_the_file_witness:
  "transfer_safe (example_xfer daemon_xfer_ops 8 1) False (file_of ''ab'')
     (lossless (example_xfer daemon_xfer_ops 8 1) (example_xfer client_xfer_ops 8 1) 1 0 0
        (start_transfer (example_xfer daemon_xfer_ops 8 1) (example_xfer client_xfer_ops 8 1) 12
           (Some (ack_packet 0)) (world_of (reader_of False 1 8 ''ab'') 1000000)
           (world_of (writer_of False 1 8) 1000000)))"
  by (rule download_delivers_the_file [OF example_sender example_receiver _ _ _ _ _ _ lossless_reach])
     (simp_all add: example_xfer_def file_of_def mode_of_def encode_def harmless_reply_def)

text \<open>
  C2: an upload is safe in the same way, with the client's engine sending and the daemon's
  receiving: neither side reports success unless the daemon's file is the client's.
\<close>

theorem upload_delivers_the_file:
  assumes "fresh_sender xs conv f sw" "fresh_receiver xr conv rw"
    and "x_ops xs = client_xfer_ops" "x_ops xr = daemon_xfer_ops"
    and "blocksize xs = blocksize xr" "rollover xs = rollover xr"
    and "length (encode (mode_of conv) (f_in f)) div blocksize xs < 65535" "harmless_reply rep"
    and "(transfer_step xs xr)\<^sup>*\<^sup>* (start_transfer xs xr isz rep sw rw) l"
  shows "transfer_safe xs conv f l"
  using assms by (rule upload_safe)

theorem upload_delivers_the_file_witness:
  "transfer_safe (example_xfer client_xfer_ops 8 2) True (file_of [CHR ''a'', LF, CR])
     (lossless (example_xfer client_xfer_ops 8 2) (example_xfer daemon_xfer_ops 8 2) 4 0 0
        (start_transfer (example_xfer client_xfer_ops 8 2) (example_xfer daemon_xfer_ops 8 2) 12
           (Some (ack_packet 0)) (world_of (reader_of True 2 8 [CHR ''a'', LF, CR]) 1000000)
           (world_of (writer_of True 2 8) 1000000)))"
  by (rule upload_delivers_the_file [OF example_sender example_receiver _ _ _ _ _ _ lossless_reach])
     (simp_all add: example_xfer_def file_of_def mode_of_def encode_def encode_char_def harmless_reply_def)

text \<open>
  C3: A transfer comes to its end. When the network delivers every packet, in either direction of
  transfer and for every file of fewer than 65535 full blocks, and neither sockets nor files fail, both
  engines report success and the receiver's file is the sender's after at most two deliveries for
  each block.
\<close>

theorem transfer_completes:
  assumes "fresh_sender xs conv f sw" "fresh_receiver xr conv rw"
    and "x_ops xs = daemon_xfer_ops \<and> x_ops xr = client_xfer_ops \<or> x_ops xs = client_xfer_ops \<and> x_ops xr = daemon_xfer_ops"
    and "blocksize xs = blocksize xr" "rollover xs = rollover xr" "windowsize xs = windowsize xr" "rings_fit xs sw rw"
    and "length (encode (mode_of conv) (f_in f)) div blocksize xs < 65535"
    and "length (encode (mode_of conv) (f_in f)) \<le> unat (max_bytes xr)" "int (blocksize xr) + 4 \<le> isz"
    and "no_failures sw" "no_failures rw"
    and "l0 = start_transfer xs xr isz rep sw rw" "2 * length (file_blocks xs conv f) \<le> n"
  shows "transfer_done f (lossless xs xr n 0 (length (sent_packets (rcv_world l0))) l0)"
  using assms by (rule live_completes)

theorem transfer_completes_witness:
  "let xs = example_xfer client_xfer_ops 8 2; xr = example_xfer daemon_xfer_ops 8 2;
       l0 = start_transfer xs xr 12 None (world_of (reader_of False 2 8 ''abcdefghij'') 1000000)
              (world_of (writer_of False 2 8) 1000000)
   in transfer_done (file_of ''abcdefghij'') (lossless xs xr 4 0 (length (sent_packets (rcv_world l0))) l0)"
  unfolding Let_def
  by (rule transfer_completes [OF example_sender example_receiver _ _ _ _ example_live(1) _ _ _ example_live(2,3) refl])
     (simp_all add: example_xfer_def file_of_def mode_of_def encode_def file_blocks_def length_chunks)

end
